(* ===== verification/Prelude.thy ===== *)
theory Prelude
  imports Main "HOL-Library.Word" "HOL-Library.AList"
begin

text \<open>
  Shared vocabulary of the development: the result type of code that may throw
  (\<open>mpp::runtime_error\<close>, \<open>include/mozart++/mpp_core/exception.hpp\<close>), C integer
  ranges, the \<open>strtol\<close> family of the C library, and the list lemmas that several
  components use.  The collections \<open>fd_simps\<close> and \<open>env_simps\<close> are filled by the
  components that own the corresponding facts.
\<close>

named_theorems fd_simps "rewrite rules for descriptor tables and descriptor operations"
named_theorems env_simps "rewrite rules for environment lookups"

section \<open>Exceptions\<close>

text \<open>
  \<open>mpp::runtime_error\<close> keeps one string; \<open>what()\<close> is that string with the prefix the
  constructor adds.  A throwing computation is a sum whose left side is the exception.
\<close>

datatype exn = Runtime_error string

type_synonym 'a result = "exn + 'a"

definition what :: "exn \<Rightarrow> string" where
  "what e = (case e of Runtime_error str \<Rightarrow> ''Runtime Error: '' @ str)"

section \<open>C integers\<close>

definition in_int32 :: "int \<Rightarrow> bool" where
  "in_int32 x \<longleftrightarrow> - (2 ^ 31) \<le> x \<and> x < 2 ^ 31"

definition in_int64 :: "int \<Rightarrow> bool" where
  "in_int64 x \<longleftrightarrow> - (2 ^ 63) \<le> x \<and> x < 2 ^ 63"

text \<open>\<open>static_cast<int>\<close> of a wider integer: two's complement truncation.\<close>

definition to_int32 :: "int \<Rightarrow> int" where
  "to_int32 x = (x + 2 ^ 31) mod 2 ^ 32 - 2 ^ 31"

lemma to_int32_id [simp]: "in_int32 x \<Longrightarrow> to_int32 x = x"
  by (simp add: to_int32_def in_int32_def)

lemma in_int32_to_int32: "in_int32 (to_int32 x)"
proof -
  have "0 \<le> (x + 2 ^ 31) mod 2 ^ 32" "(x + 2 ^ 31) mod 2 ^ 32 < 2 ^ 32"
    by simp_all
  then show ?thesis by (simp add: to_int32_def in_int32_def)
qed

text \<open>
  Signed overflow is undefined behaviour, so a 64-bit computation that leaves the range
  has no value.
\<close>

definition chk64 :: "int \<Rightarrow> int option" where
  "chk64 x = (if in_int64 x then Some x else None)"

lemma chk64_Some [simp]: "in_int64 x \<Longrightarrow> chk64 x = Some x"
  by (simp add: chk64_def)

section \<open>errno\<close>

text \<open>The Linux numbers of the \<open>errno\<close> values that the source names.\<close>

abbreviation ENOENT :: int where "ENOENT \<equiv> 2"
abbreviation EINTR :: int where "EINTR \<equiv> 4"
abbreviation ENOEXEC :: int where "ENOEXEC \<equiv> 8"
abbreviation ECHILD :: int where "ECHILD \<equiv> 10"
abbreviation ENOMEM :: int where "ENOMEM \<equiv> 12"
abbreviation EACCES :: int where "EACCES \<equiv> 13"
abbreviation ENODEV :: int where "ENODEV \<equiv> 19"
abbreviation ENOTDIR :: int where "ENOTDIR \<equiv> 20"
abbreviation ENAMETOOLONG :: int where "ENAMETOOLONG \<equiv> 36"
abbreviation ELOOP :: int where "ELOOP \<equiv> 40"
abbreviation ETIMEDOUT :: int where "ETIMEDOUT \<equiv> 110"
abbreviation ESTALE :: int where "ESTALE \<equiv> 116"

section \<open>Lists\<close>

lemma takeWhile_append_stop [simp]:
  "(\<forall>x \<in> set xs. P x) \<Longrightarrow> \<not> P y \<Longrightarrow> takeWhile P (xs @ y # ys) = xs"
  by (induction xs) auto

lemma dropWhile_append_stop [simp]:
  "(\<forall>x \<in> set xs. P x) \<Longrightarrow> \<not> P y \<Longrightarrow> dropWhile P (xs @ y # ys) = y # ys"
  by (induction xs) auto

lemma span_char [simp]:
  "c \<notin> set xs \<Longrightarrow> takeWhile (\<lambda>x. x \<noteq> c) (xs @ c # ys) = xs"
  "c \<notin> set xs \<Longrightarrow> dropWhile (\<lambda>x. x \<noteq> c) (xs @ c # ys) = c # ys"
  by (induction xs) auto

lemma keys_update: "fst ` set (AList.update k v m) = insert k (fst ` set m)"
  by (induction m) auto

text \<open>Storing \<open>xs\<close> at index \<open>i\<close> of an array (\<open>memmove\<close>, and what \<open>read\<close> does).\<close>

definition write_at :: "nat \<Rightarrow> 'a list \<Rightarrow> 'a list \<Rightarrow> 'a list" where
  "write_at i xs buf = take i buf @ xs @ drop (i + length xs) buf"

lemma length_write_at [simp]: "i + length xs \<le> length buf \<Longrightarrow> length (write_at i xs buf) = length buf"
  by (simp add: write_at_def)

lemma map_of_eq_Some_set: "map_of xs k = Some v \<Longrightarrow> (k, v) \<in> set xs"
  by (rule map_of_SomeD)

lemma length_takeWhile_less: "x \<in> set xs \<Longrightarrow> \<not> P x \<Longrightarrow> length (takeWhile P xs) < length xs"
  by (induction xs) auto

section \<open>Decimal numbers: the C library's strtol family\<close>

definition is_digit :: "char \<Rightarrow> bool" where
  "is_digit c \<longleftrightarrow> 48 \<le> (of_char c :: nat) \<and> (of_char c :: nat) \<le> 57"

definition is_space :: "char \<Rightarrow> bool" where
  "is_space c \<longleftrightarrow> (of_char c :: nat) = 32 \<or> (9 \<le> (of_char c :: nat) \<and> (of_char c :: nat) \<le> 13)"

definition digit_val :: "char \<Rightarrow> nat" where
  "digit_val c = of_char c - 48"

definition digits_val :: "string \<Rightarrow> nat" where
  "digits_val ds = foldl (\<lambda>n c. 10 * n + digit_val c) 0 ds"

text \<open>
  \<open>strtoull(p, nullptr, 10)\<close>: leading white space, an optional sign, the longest run of
  digits; no digits give 0, overflow saturates at \<open>ULLONG_MAX\<close>, and a minus sign negates
  modulo \<open>2^64\<close>.
\<close>

definition strtoull :: "string \<Rightarrow> nat" where
  "strtoull s =
     (let t = dropWhile is_space s;
          neg = (case t of c # _ \<Rightarrow> c = CHR ''-'' | [] \<Rightarrow> False);
          u = (case t of c # r \<Rightarrow> if c = CHR ''-'' \<or> c = CHR ''+'' then r else t | [] \<Rightarrow> []);
          n = digits_val (takeWhile is_digit u)
      in if n \<ge> 2 ^ 64 then 2 ^ 64 - 1
         else if neg \<and> n \<noteq> 0 then 2 ^ 64 - n else n)"

lemma strtoull_digits:
  assumes "ds \<noteq> []" and "\<forall>c \<in> set ds. is_digit c" and "\<not> is_digit c" and "digits_val ds < 2 ^ 64"
  shows "strtoull (ds @ c # rest) = digits_val ds"
proof -
  obtain d ds' where ds: "ds = d # ds'" using assms(1) by (cases ds) auto
  with assms(2) have d: "is_digit d" by simp
  then have nsp: "\<not> is_space d" by (auto simp: is_digit_def is_space_def)
  have nm: "d \<noteq> CHR ''-''" "d \<noteq> CHR ''+''" using d by (auto simp: is_digit_def)
  have tw: "takeWhile is_digit (ds @ c # rest) = ds" using assms(2,3) by simp
  show ?thesis
    using assms(4) nsp nm tw by (simp add: strtoull_def ds Let_def)
qed

text \<open>
  \<open>strtol(s, &endp, 10)\<close> where the caller only accepts a name that is a number to its
  end: the value if \<open>*endp\<close> is the terminating NUL.  A string without digits is not
  converted, so \<open>endp\<close> is its start, which is the NUL only for the empty string.
\<close>

definition strtol_full :: "string \<Rightarrow> int option" where
  "strtol_full s =
     (let t = dropWhile is_space s;
          neg = (case t of c # _ \<Rightarrow> c = CHR ''-'' | [] \<Rightarrow> False);
          u = (case t of c # r \<Rightarrow> if c = CHR ''-'' \<or> c = CHR ''+'' then r else t | [] \<Rightarrow> []);
          ds = takeWhile is_digit u
      in if ds = [] then (if s = [] then Some 0 else None)
         else if dropWhile is_digit u = []
              then Some (if neg then - int (digits_val ds) else int (digits_val ds))
              else None)"

end
