(* ===== verification/Io_Fd.thy ===== *)
theory Io_Fd
  imports Prelude
begin

text \<open>
  File descriptors: \<open>include/mozart++/mpp_foundation/io.hpp\<close> (Unix side) over the
  descriptor table of a POSIX process.  A descriptor table maps a descriptor number to the
  open file description behind it and its close-on-exec flag.  The table operations are
  the ones of the C library that the source calls: \<open>close\<close>, \<open>dup2\<close>, \<open>pipe\<close>,
  \<open>fcntl(F_SETFD)\<close>, \<open>close_range\<close> and the closing that \<open>execve\<close> does.
\<close>

section \<open>Descriptor tables\<close>

datatype ofile = Pipe_R nat | Pipe_W nat | Other nat

record fdent =
  obj :: ofile
  cloexec :: bool

type_synonym fdtab = "int \<rightharpoonup> fdent"

text \<open>\<open>npipe\<close> numbers the pipes a process has created, so that each has its own identity.\<close>

record os =
  fdt :: fdtab
  npipe :: nat

definition FD_INVALID :: int where
  "FD_INVALID = -1"

definition sys_close :: "int \<Rightarrow> fdtab \<Rightarrow> fdtab" where
  "sys_close fd tab = tab(fd := None)"

text \<open>
  \<open>dup2\<close> on a descriptor that is not open fails and changes nothing; on equal numbers it
  does nothing at all (the close-on-exec flag stays); otherwise the copy does not have the
  close-on-exec flag.
\<close>

definition sys_dup2 :: "int \<Rightarrow> int \<Rightarrow> fdtab \<Rightarrow> fdtab" where
  "sys_dup2 old new tab =
     (case tab old of
        None \<Rightarrow> tab
      | Some e \<Rightarrow> if old = new then tab else tab(new \<mapsto> e\<lparr>cloexec := False\<rparr>))"

definition sys_set_cloexec :: "int \<Rightarrow> fdtab \<Rightarrow> fdtab" where
  "sys_set_cloexec fd tab =
     (case tab fd of None \<Rightarrow> tab | Some e \<Rightarrow> tab(fd \<mapsto> e\<lparr>cloexec := True\<rparr>))"

definition sys_close_range :: "int \<Rightarrow> int \<Rightarrow> fdtab \<Rightarrow> fdtab" where
  "sys_close_range lo hi tab = (\<lambda>fd. if lo \<le> fd \<and> fd \<le> hi then None else tab fd)"

definition sys_exec_close :: "fdtab \<Rightarrow> fdtab" where
  "sys_exec_close tab =
     (\<lambda>fd. case tab fd of None \<Rightarrow> None | Some e \<Rightarrow> if cloexec e then None else Some e)"

text \<open>
  \<open>pipe\<close> either fails or returns two new descriptors.  Which numbers it returns is the
  kernel's choice, a parameter \<open>A\<close> of the table and of the number of the call; what the
  code relies on is stated by the locale \<open>pipe_alloc\<close>: the numbers are fresh, distinct
  and not negative.
\<close>

type_synonym allocator = "fdtab \<Rightarrow> nat \<Rightarrow> (int \<times> int) option"

definition sys_pipe :: "allocator \<Rightarrow> bool \<Rightarrow> os \<Rightarrow> (int \<times> int) option \<times> os" where
  "sys_pipe A ce s =
     (case A (fdt s) (npipe s) of
        None \<Rightarrow> (None, s\<lparr>npipe := npipe s + 1\<rparr>)
      | Some (r, w) \<Rightarrow>
          (Some (r, w),
           s\<lparr>fdt := (fdt s)(r \<mapsto> \<lparr>obj = Pipe_R (npipe s), cloexec = ce\<rparr>,
                            w \<mapsto> \<lparr>obj = Pipe_W (npipe s), cloexec = ce\<rparr>),
             npipe := npipe s + 1\<rparr>))"

locale pipe_alloc =
  fixes A :: allocator
  assumes alloc_fresh: "A tab n = Some (r, w) \<Longrightarrow> tab r = None \<and> tab w = None"
    and alloc_distinct: "A tab n = Some (r, w) \<Longrightarrow> r \<noteq> w"
    and alloc_nonneg: "A tab n = Some (r, w) \<Longrightarrow> 0 \<le> r \<and> 0 \<le> w"

text \<open>
  The POSIX rule: the two lowest numbers that are free, below the process's descriptor
  limit.
\<close>

definition lowest_free :: "nat \<Rightarrow> fdtab \<Rightarrow> int list" where
  "lowest_free limit tab = filter (\<lambda>fd. tab fd = None) (map int [0..<limit])"

definition posix_alloc :: "nat \<Rightarrow> allocator" where
  "posix_alloc limit tab n =
     (case lowest_free limit tab of r # w # _ \<Rightarrow> Some (r, w) | _ \<Rightarrow> None)"

lemma lowest_free_props:
  "distinct (lowest_free limit tab)"
  "fd \<in> set (lowest_free limit tab) \<Longrightarrow> tab fd = None \<and> 0 \<le> fd"
  by (auto simp: lowest_free_def distinct_map)

lemma posix_alloc_SomeD:
  assumes "posix_alloc limit tab n = Some (r, w)"
  shows "tab r = None \<and> tab w = None \<and> r \<noteq> w \<and> 0 \<le> r \<and> 0 \<le> w"
proof -
  from assms obtain rest where l: "lowest_free limit tab = r # w # rest"
    by (auto simp: posix_alloc_def split: list.splits)
  have "r \<in> set (lowest_free limit tab)" "w \<in> set (lowest_free limit tab)" "distinct (r # w # rest)"
    using lowest_free_props(1)[of limit tab] by (simp_all add: l)
  then show ?thesis using lowest_free_props(2)[of _ limit tab] by auto
qed

lemma posix_alloc_below:
  assumes "posix_alloc limit tab n = Some (r, w)"
  shows "r < int limit \<and> w < int limit"
proof -
  from assms obtain rest where l: "lowest_free limit tab = r # w # rest"
    by (auto simp: posix_alloc_def split: list.splits)
  have "x < int limit" if "x \<in> set (lowest_free limit tab)" for x
    using that by (auto simp: lowest_free_def)
  with l show ?thesis by auto
qed

interpretation posix: pipe_alloc "posix_alloc limit" for limit
  by unfold_locales (auto dest: posix_alloc_SomeD)

section \<open>close\_fd, create\_pipe, close\_pipe\<close>

text \<open>A C array \<open>fd_type fds[2]\<close>, indexed by \<open>PIPE_READ\<close> and \<open>PIPE_WRITE\<close>.\<close>

record fds =
  pread :: int
  pwrite :: int

definition no_fds :: fds where
  "no_fds = \<lparr>pread = FD_INVALID, pwrite = FD_INVALID\<rparr>"

text \<open>
  \<open>close_fd\<close> takes the descriptor by reference and leaves \<open>FD_INVALID\<close> in it; the
  model returns the new value of the reference with the new table.
\<close>

definition close_fd :: "int \<Rightarrow> fdtab \<Rightarrow> int \<times> fdtab" where
  "close_fd fd tab = (if fd = FD_INVALID then (fd, tab) else (FD_INVALID, sys_close fd tab))"

definition create_pipe :: "allocator \<Rightarrow> fds \<Rightarrow> os \<Rightarrow> bool \<times> fds \<times> os" where
  "create_pipe A p s =
     (case sys_pipe A False s of
        (None, s') \<Rightarrow> (False, p, s')
      | (Some (r, w), s') \<Rightarrow> (True, p\<lparr>pread := r, pwrite := w\<rparr>, s'))"

definition close_pipe :: "fds \<Rightarrow> fdtab \<Rightarrow> fds \<times> fdtab" where
  "close_pipe p tab =
     (let (r, tab1) = close_fd (pread p) tab;
          (w, tab2) = close_fd (pwrite p) tab1
      in (p\<lparr>pread := r, pwrite := w\<rparr>, tab2))"

lemma close_fd_fst [fd_simps]: "fst (close_fd fd tab) = FD_INVALID"
  by (simp add: close_fd_def)

lemma close_fd_invalid [fd_simps]: "close_fd FD_INVALID tab = (FD_INVALID, tab)"
  by (simp add: close_fd_def)

lemma close_fd_valid [fd_simps]:
  "fd \<noteq> FD_INVALID \<Longrightarrow> close_fd fd tab = (FD_INVALID, tab(fd := None))"
  by (simp add: close_fd_def sys_close_def)

lemma close_fd_twice: "close_fd (fst (close_fd fd tab)) tab' = (FD_INVALID, tab')"
  by (simp add: fd_simps)

lemma close_pipe_invalid [fd_simps]: "close_pipe no_fds tab = (no_fds, tab)"
  by (simp add: close_pipe_def no_fds_def fd_simps)

lemma close_pipe_valid [fd_simps]:
  "pread p \<noteq> FD_INVALID \<Longrightarrow> pwrite p \<noteq> FD_INVALID \<Longrightarrow>
   snd (close_pipe p tab) = tab(pread p := None, pwrite p := None)"
  by (simp add: close_pipe_def fd_simps Let_def)

lemma sys_dup2_other [fd_simps]: "fd \<noteq> new \<Longrightarrow> sys_dup2 old new tab fd = tab fd"
  by (simp add: sys_dup2_def split: option.splits)

lemma sys_dup2_new [fd_simps]:
  "tab old = Some e \<Longrightarrow> old \<noteq> new \<Longrightarrow> sys_dup2 old new tab new = Some (e\<lparr>cloexec := False\<rparr>)"
  by (simp add: sys_dup2_def)

context pipe_alloc
begin

lemma sys_pipe_SomeD:
  assumes "sys_pipe A ce s = (Some (r, w), s')"
  shows "fdt s r = None" "fdt s w = None" "r \<noteq> w" "0 \<le> r" "0 \<le> w"
    "fdt s' = (fdt s)(r \<mapsto> \<lparr>obj = Pipe_R (npipe s), cloexec = ce\<rparr>,
                     w \<mapsto> \<lparr>obj = Pipe_W (npipe s), cloexec = ce\<rparr>)"
    "npipe s' = Suc (npipe s)"
  using assms alloc_fresh[of "fdt s" "npipe s" r w] alloc_distinct[of "fdt s" "npipe s" r w]
    alloc_nonneg[of "fdt s" "npipe s" r w]
  by (auto simp: sys_pipe_def split: option.splits prod.splits)

lemma create_pipe_close:
  assumes "create_pipe A p s = (True, p', s')"
  shows "snd (close_pipe p' (fdt s')) = fdt s"
proof -
  from assms obtain r w where sp: "sys_pipe A False s = (Some (r, w), s')"
    and p': "p' = p\<lparr>pread := r, pwrite := w\<rparr>"
    by (auto simp: create_pipe_def split: option.splits prod.splits)
  note d = sys_pipe_SomeD[OF sp]
  have "r \<noteq> FD_INVALID" "w \<noteq> FD_INVALID" using d by (auto simp: FD_INVALID_def)
  then show ?thesis using d by (auto simp: p' fd_simps fun_eq_iff)
qed

end

lemma create_pipe_FalseD:
  "create_pipe A p s = (False, p', s') \<Longrightarrow> p' = p \<and> fdt s' = fdt s"
  by (auto simp: create_pipe_def sys_pipe_def split: option.splits prod.splits)

end
