(* ===== verification/Builder.thy ===== *)
theory Builder
  imports Io_Fd
begin

text \<open>
  The configuration of a process and the builder that fills it
  (\<open>process_startup\<close>, \<open>redirect_info\<close>, \<open>process_info\<close> and \<open>process_builder\<close> of
  \<open>include/mozart++/mpp_system/process.hpp\<close>).  A builder is its \<open>_startup\<close>; every setter
  returns the changed startup.  The unordered map \<open>_env\<close> is an association list with one
  entry for a key; nothing proved depends on the order of its entries.
\<close>

section \<open>Configuration\<close>

record redirect_info =
  target :: int

definition no_redirect :: redirect_info where
  "no_redirect = \<lparr>target = FD_INVALID\<rparr>"

definition redirected :: "redirect_info \<Rightarrow> bool" where
  "redirected r \<longleftrightarrow> target r \<noteq> FD_INVALID"

record process_startup =
  st_cmdline :: "string list"
  st_shell_program :: "string option"
  st_env :: "(string \<times> string) list"
  st_inherit_env :: bool
  st_cwd :: string
  st_stdin :: redirect_info
  st_stdout :: redirect_info
  st_stderr :: redirect_info
  st_merge_outputs :: bool
  st_inherit_stdin :: bool
  st_inherit_stdout :: bool
  st_inherit_stderr :: bool
  st_shell_mode :: bool

definition process_startup_new :: process_startup where
  "process_startup_new =
     \<lparr>st_cmdline = [], st_shell_program = None, st_env = [], st_inherit_env = True,
      st_cwd = ''.'', st_stdin = no_redirect, st_stdout = no_redirect, st_stderr = no_redirect,
      st_merge_outputs = False, st_inherit_stdin = False, st_inherit_stdout = False,
      st_inherit_stderr = False, st_shell_mode = False\<rparr>"

record process_info =
  pi_tid :: int
  pi_pid :: int
  pi_stdin :: int
  pi_stdout :: int
  pi_stderr :: int
  pi_stdin_closed :: bool
  pi_start_time :: nat

definition process_info_new :: process_info where
  "process_info_new =
     \<lparr>pi_tid = FD_INVALID, pi_pid = FD_INVALID, pi_stdin = FD_INVALID, pi_stdout = FD_INVALID,
      pi_stderr = FD_INVALID, pi_stdin_closed = False, pi_start_time = 0\<rparr>"

section \<open>The setters\<close>

definition command :: "string \<Rightarrow> process_startup \<Rightarrow> process_startup" where
  "command c b =
     (if st_cmdline b = [] then b\<lparr>st_cmdline := st_cmdline b @ [c]\<rparr>
      else b\<lparr>st_cmdline := (st_cmdline b)[0 := c]\<rparr>)"

definition arguments :: "string list \<Rightarrow> process_startup \<Rightarrow> process_startup" where
  "arguments c b =
     (let b' = (if length (st_cmdline b) > 1
                then b\<lparr>st_cmdline := take 1 (st_cmdline b)\<rparr> else b)
      in b'\<lparr>st_cmdline := st_cmdline b' @ c\<rparr>)"

definition environment :: "string \<Rightarrow> string \<Rightarrow> process_startup \<Rightarrow> process_startup" where
  "environment key value b = b\<lparr>st_env := AList.update key value (st_env b)\<rparr>"

definition redirect_stdin :: "int \<Rightarrow> process_startup \<Rightarrow> process_startup" where
  "redirect_stdin fd b = b\<lparr>st_stdin := (st_stdin b)\<lparr>target := fd\<rparr>\<rparr>"

definition redirect_stdout :: "int \<Rightarrow> process_startup \<Rightarrow> process_startup" where
  "redirect_stdout fd b = b\<lparr>st_stdout := (st_stdout b)\<lparr>target := fd\<rparr>\<rparr>"

definition redirect_stderr :: "int \<Rightarrow> process_startup \<Rightarrow> process_startup" where
  "redirect_stderr fd b = b\<lparr>st_stderr := (st_stderr b)\<lparr>target := fd\<rparr>\<rparr>"

definition directory :: "string \<Rightarrow> process_startup \<Rightarrow> process_startup" where
  "directory cwd b = b\<lparr>st_cwd := cwd\<rparr>"

definition merge_outputs :: "bool \<Rightarrow> process_startup \<Rightarrow> process_startup" where
  "merge_outputs r b = b\<lparr>st_merge_outputs := r\<rparr>"

definition inherit_stdin :: "bool \<Rightarrow> process_startup \<Rightarrow> process_startup" where
  "inherit_stdin v b = b\<lparr>st_inherit_stdin := v\<rparr>"

definition inherit_stdout :: "bool \<Rightarrow> process_startup \<Rightarrow> process_startup" where
  "inherit_stdout v b = b\<lparr>st_inherit_stdout := v\<rparr>"

definition inherit_stderr :: "bool \<Rightarrow> process_startup \<Rightarrow> process_startup" where
  "inherit_stderr v b = b\<lparr>st_inherit_stderr := v\<rparr>"

definition inherit_output :: "bool \<Rightarrow> process_startup \<Rightarrow> process_startup" where
  "inherit_output v b = b\<lparr>st_inherit_stdout := v, st_inherit_stderr := v\<rparr>"

definition inherit_env :: "bool \<Rightarrow> process_startup \<Rightarrow> process_startup" where
  "inherit_env v b = b\<lparr>st_inherit_env := v\<rparr>"

definition shell_off :: "process_startup \<Rightarrow> process_startup" where
  "shell_off b = b\<lparr>st_shell_mode := False, st_shell_program := None\<rparr>"

definition shell :: "string \<Rightarrow> process_startup \<Rightarrow> process_startup result" where
  "shell program b =
     (if program = [] then Inl (Runtime_error ''shell program cannot be empty'')
      else Inr (b\<lparr>st_shell_mode := True, st_shell_program := Some program\<rparr>))"

section \<open>The command line that start() runs\<close>

datatype platform = Unix | Win32

text \<open>The loop that joins the words of a shell command; \<open>i\<close> is its counter.\<close>

fun join_cmdline :: "nat \<Rightarrow> string \<Rightarrow> string list \<Rightarrow> string" where
  "join_cmdline i cmd [] = cmd"
| "join_cmdline i cmd (x # xs) =
     join_cmdline (Suc i) ((if i > 0 then cmd @ '' '' else cmd) @ x) xs"

definition default_shell_program :: "platform \<Rightarrow> string" where
  "default_shell_program pf = (case pf of Win32 \<Rightarrow> ''cmd'' | Unix \<Rightarrow> ''/bin/sh'')"

definition shell_flag :: "platform \<Rightarrow> string" where
  "shell_flag pf = (case pf of Win32 \<Rightarrow> ''/c'' | Unix \<Rightarrow> ''-c'')"

definition start_startup :: "platform \<Rightarrow> process_startup \<Rightarrow> process_startup result" where
  "start_startup pf b =
     (if st_shell_mode b then
        (if st_cmdline b = [] then Inl (Runtime_error ''no command specified'')
         else
           let cmd = join_cmdline 0 [] (st_cmdline b);
               shell_program = (case st_shell_program b of None \<Rightarrow> default_shell_program pf
                                                         | Some p \<Rightarrow> p)
           in Inr (b\<lparr>st_cmdline := [shell_program, shell_flag pf, cmd]\<rparr>))
      else if st_cmdline b = [] then Inl (Runtime_error ''no command specified'')
      else Inr b)"

definition exec_startup :: "string \<Rightarrow> string list \<Rightarrow> process_startup" where
  "exec_startup cmd args = arguments args (command cmd process_startup_new)"

definition exec_startup1 :: "string \<Rightarrow> process_startup" where
  "exec_startup1 cmd = command cmd process_startup_new"

lemma join_cmdline_spec:
  "join_cmdline (Suc i) cmd xs = cmd @ concat (map (\<lambda>x. CHR '' '' # x) xs)"
  by (induction xs arbitrary: i cmd) auto

lemma join_cmdline_Cons:
  "join_cmdline 0 [] (x # xs) = x @ concat (map (\<lambda>x. CHR '' '' # x) xs)"
  by (simp add: join_cmdline_spec)

text \<open>
  The setters of different parts of the startup commute and each is idempotent; the facts
  the later theories use are the lookups.
\<close>

lemma env_lookup_environment [env_simps]:
  "map_of (st_env (environment k v b)) = (map_of (st_env b))(k \<mapsto> v)"
  by (simp add: environment_def update_conv')

lemma distinct_environment:
  "distinct (map fst (st_env b)) \<Longrightarrow> distinct (map fst (st_env (environment k v b)))"
  by (simp add: environment_def distinct_update)

section \<open>Properties\<close>

text \<open>
  Once a program has been set, the command line is what the last \<open>command\<close> and the
  last \<open>arguments\<close> gave, in whichever order they were called after it: later calls
  replace, they never accumulate, and neither call disturbs the other's part.
\<close>

theorem builder_cmdline_last_wins:
  assumes "st_cmdline b \<noteq> []"
  shows "st_cmdline (arguments as (command c b)) = c # as
    \<and> st_cmdline (command c (arguments as b)) = c # as
    \<and> arguments as (arguments as' b) = arguments as b
    \<and> command c (command c' b) = command c b"
proof -
  obtain p r where b: "st_cmdline b = p # r" using assms by (cases "st_cmdline b") auto
  show ?thesis by (auto simp: arguments_def command_def b)
qed

theorem builder_cmdline_last_wins_witness:
  "st_cmdline (arguments [''hi''] (command ''echo'' (command ''ls'' process_startup_new))) = [''echo'', ''hi'']"
proof -
  have "st_cmdline (command ''ls'' process_startup_new) \<noteq> []"
    by (simp add: command_def process_startup_new_def)
  from builder_cmdline_last_wins[OF this, of "[''hi'']" "''echo''"] show ?thesis by blast
qed

text \<open>
  Without a program the command line does not keep that shape: the first argument is
  taken for the program by the next calls, so a second \<open>arguments\<close> keeps the first
  argument of the previous call, and a later \<open>command\<close> overwrites it.
\<close>

theorem arguments_before_command:
  "st_cmdline (arguments bs (arguments (a # as) process_startup_new)) = a # bs
   \<and> st_cmdline (command c (arguments (a # as) process_startup_new)) = c # as"
  by (simp add: arguments_def command_def process_startup_new_def)

text \<open>
   \<open>start()\<close> either refuses an empty command line, or runs the configured command line
  unchanged, or, in shell mode, runs the three words \<open>program\<close>, the shell's command
  flag, and the words of the command line separated by single blanks; no other field of
  the startup is changed, and the builder itself is not.
\<close>

theorem start_startup_cases:
  "start_startup pf b =
     (case st_cmdline b of
        [] \<Rightarrow> Inl (Runtime_error ''no command specified'')
      | x # xs \<Rightarrow>
          Inr (if st_shell_mode b
               then b\<lparr>st_cmdline :=
                      [case st_shell_program b of None \<Rightarrow> default_shell_program pf | Some p \<Rightarrow> p,
                       shell_flag pf,
                       x @ concat (map (\<lambda>w. CHR '' '' # w) xs)]\<rparr>
               else b))"
  by (cases "st_cmdline b")
    (simp_all add: start_startup_def join_cmdline_spec Let_def)

end
