(* ===== verification/Env_Unix.thy ===== *)
theory Env_Unix
  imports Builder "HOL-Library.Multiset"
begin

text \<open>
  The environment of the child on Unix: the strings that \<open>create_process_impl\<close>
  (\<open>src/process_unix.cpp\<close>) builds before \<open>fork\<close>, and what \<open>getenv\<close> finds in
  them.  The iteration order of \<open>std::unordered_map\<close> is a parameter \<open>ord\<close>, of which only
  is used that it visits every entry once.
\<close>

section \<open>Entries\<close>

abbreviation eq_char :: char where "eq_char \<equiv> CHR ''=''"

text \<open>\<open>entry.find('=')\<close> with the two \<open>substr\<close> calls; \<open>None\<close> is \<open>npos\<close>.\<close>

definition split_entry :: "string \<Rightarrow> (string \<times> string) option" where
  "split_entry entry =
     (if eq_char \<in> set entry
      then Some (takeWhile (\<lambda>c. c \<noteq> eq_char) entry, tl (dropWhile (\<lambda>c. c \<noteq> eq_char) entry))
      else None)"

definition join_entry :: "string \<times> string \<Rightarrow> string" where
  "join_entry e = fst e @ eq_char # snd e"

text \<open>\<open>getenv\<close> of the C library over an environment block.\<close>

fun getenv :: "string list \<Rightarrow> string \<Rightarrow> string option" where
  "getenv [] name = None"
| "getenv (e # es) name =
     (case split_entry e of
        Some (k, v) \<Rightarrow> if k = name then Some v else getenv es name
      | None \<Rightarrow> getenv es name)"

lemma split_join_entry [env_simps]: "eq_char \<notin> set k \<Longrightarrow> split_entry (join_entry (k, v)) = Some (k, v)"
  by (auto simp: split_entry_def join_entry_def)

lemma split_entry_key: "split_entry e = Some (k, v) \<Longrightarrow> eq_char \<notin> set k"
  by (auto simp: split_entry_def dest: set_takeWhileD split: if_splits)

section \<open>Building the block\<close>

text \<open>\<open>unordered_map::emplace\<close> does nothing when the key is there; \<open>m[k] = v\<close> replaces.\<close>

definition emplace :: "string \<Rightarrow> string \<Rightarrow> (string \<times> string) list \<Rightarrow> (string \<times> string) list" where
  "emplace k v m = (case map_of m k of None \<Rightarrow> m @ [(k, v)] | Some _ \<Rightarrow> m)"

fun merge_parent :: "string list \<Rightarrow> (string \<times> string) list \<Rightarrow> (string \<times> string) list" where
  "merge_parent [] m = m"
| "merge_parent (entry # rest) m =
     (case split_entry entry of
        Some (k, v) \<Rightarrow> merge_parent rest (emplace k v m)
      | None \<Rightarrow> merge_parent rest m)"

fun apply_overrides :: "(string \<times> string) list \<Rightarrow> (string \<times> string) list \<Rightarrow> (string \<times> string) list" where
  "apply_overrides [] m = m"
| "apply_overrides (e # rest) m = apply_overrides rest (AList.update (fst e) (snd e) m)"

type_synonym map_order = "(string \<times> string) list \<Rightarrow> (string \<times> string) list"

definition is_order :: "map_order \<Rightarrow> bool" where
  "is_order ord \<longleftrightarrow> (\<forall>m. mset (ord m) = mset m)"

text \<open>\<open>None\<close> is the null pointer: the child then inherits the parent's block.\<close>

definition prebuilt_envp :: "map_order \<Rightarrow> string list \<Rightarrow> process_startup \<Rightarrow> string list option" where
  "prebuilt_envp ord environ startup =
     (if st_inherit_env startup \<and> st_env startup = [] then None
      else if st_inherit_env startup then
        (let merged = apply_overrides (ord (st_env startup)) (merge_parent environ [])
         in Some (map join_entry (ord merged)))
      else Some (map join_entry (ord (st_env startup))))"

text \<open>The block of the program that is executed.\<close>

definition child_environ :: "map_order \<Rightarrow> string list \<Rightarrow> process_startup \<Rightarrow> string list" where
  "child_environ ord environ startup =
     (case prebuilt_envp ord environ startup of None \<Rightarrow> environ | Some envp \<Rightarrow> envp)"

section \<open>Lookups\<close>

lemma order_set: "is_order ord \<Longrightarrow> set (ord m) = set m"
  unfolding is_order_def by (metis mset_eq_setD)

lemma map_of_order:
  assumes "is_order ord" and "distinct (map fst m)"
  shows "map_of (ord m) = map_of m"
proof -
  have s: "set (ord m) = set m" and ms: "mset (ord m) = mset m"
    using assms(1) order_set by (auto simp: is_order_def)
  have "mset (map fst (ord m)) = mset (map fst m)" using ms by simp
  then have "distinct (map fst (ord m))" using assms(2) mset_eq_imp_distinct_iff by blast
  with s assms(2) show ?thesis by (simp add: map_of_inject_set)
qed

lemma map_of_emplace:
  "map_of (emplace k v m) = (case map_of m k of None \<Rightarrow> (map_of m)(k \<mapsto> v) | Some _ \<Rightarrow> map_of m)"
  by (auto simp: emplace_def fun_eq_iff map_add_def split: option.splits)

lemma distinct_emplace: "distinct (map fst m) \<Longrightarrow> distinct (map fst (emplace k v m))"
  by (auto simp: emplace_def map_of_eq_None_iff split: option.splits)

lemma distinct_merge_parent: "distinct (map fst m) \<Longrightarrow> distinct (map fst (merge_parent environ m))"
  by (induction environ m rule: merge_parent.induct) (auto simp: distinct_emplace split: option.splits)

lemma map_of_merge_parent:
  "map_of (merge_parent environ m) k = (case map_of m k of None \<Rightarrow> getenv environ k | Some v \<Rightarrow> Some v)"
  by (induction environ m rule: merge_parent.induct)
    (auto simp: map_of_emplace split: option.splits)

lemma map_of_apply_overrides: "distinct (map fst es) \<Longrightarrow> map_of (apply_overrides es m) = map_of m ++ map_of es"
proof (induction es m rule: apply_overrides.induct)
  case (2 e rest m)
  then have "map_of rest (fst e) = None" by (auto simp: map_of_eq_None_iff)
  with 2 show ?case
    by (cases e) (auto simp: update_conv' fun_eq_iff map_add_def split: option.splits)
qed simp

lemma distinct_apply_overrides: "distinct (map fst m) \<Longrightarrow> distinct (map fst (apply_overrides es m))"
  by (induction es m rule: apply_overrides.induct) (auto simp: distinct_update)

lemma getenv_entries:
  "\<forall>k \<in> fst ` set m. eq_char \<notin> set k \<Longrightarrow> getenv (map join_entry m) name = map_of m name"
  by (induction m) (auto simp: env_simps)

lemma keys_merge_parent:
  "\<forall>k \<in> fst ` set m. eq_char \<notin> set k \<Longrightarrow> \<forall>k \<in> fst ` set (merge_parent environ m). eq_char \<notin> set k"
proof (induction environ m rule: merge_parent.induct)
  case (2 entry rest m)
  show ?case
  proof (cases "split_entry entry")
    case None
    with 2 show ?thesis by simp
  next
    case (Some kv)
    obtain k v where kv: "kv = (k, v)" by fastforce
    have "\<forall>k \<in> fst ` set (emplace k v m). eq_char \<notin> set k"
      using "2.prems" split_entry_key[of entry k v] Some kv
      by (auto simp: emplace_def split: option.splits)
    with 2 Some kv show ?thesis by simp
  qed
qed simp

lemma keys_apply_overrides:
  "fst ` set (apply_overrides es m) = fst ` set es \<union> fst ` set m"
  by (induction es m rule: apply_overrides.induct) (simp_all add: keys_update)

section \<open>Properties\<close>

text \<open>
  C24.  The child's environment: whatever the order in which the hash map is walked, a name
  that was set on the builder has the value it was given last; any other name has the
  parent's value (the first one, as \<open>getenv\<close> itself sees it) when the environment is
  inherited, and no value otherwise.
\<close>

theorem child_environ_lookup:
  assumes "is_order ord" and "distinct (map fst (st_env startup))"
    and "\<forall>k \<in> fst ` set (st_env startup). eq_char \<notin> set k"
  shows "getenv (child_environ ord environ startup) name =
    (case map_of (st_env startup) name of
       Some v \<Rightarrow> Some v
     | None \<Rightarrow> if st_inherit_env startup then getenv environ name else None)"
proof -
  let ?env = "st_env startup"
  have o: "set (ord m) = set m" for m using assms(1) by (rule order_set)
  have mo: "map_of (ord ?env) = map_of ?env" using assms(1,2) by (rule map_of_order)
  have do: "distinct (map fst (ord ?env))"
    using assms(1,2) mset_eq_imp_distinct_iff[of "map fst (ord ?env)" "map fst ?env"]
    by (simp add: is_order_def)
  define merged where "merged = apply_overrides (ord ?env) (merge_parent environ [])"
  have dm: "distinct (map fst merged)"
    by (simp add: merged_def distinct_apply_overrides distinct_merge_parent)
  have km: "\<forall>k \<in> fst ` set merged. eq_char \<notin> set k"
    using keys_merge_parent[of "[]" environ] assms(3) by (auto simp: merged_def keys_apply_overrides o)
  have "map_of (ord merged) name = (map_of (merge_parent environ []) ++ map_of ?env) name"
    using map_of_order[OF assms(1) dm] by (simp add: merged_def map_of_apply_overrides do mo)
  then have lm: "getenv (map join_entry (ord merged)) name =
      (case map_of ?env name of Some v \<Rightarrow> Some v | None \<Rightarrow> getenv environ name)"
    using getenv_entries[of "ord merged" name] km
    by (simp add: o map_add_def map_of_merge_parent split: option.splits)
  have le: "getenv (map join_entry (ord ?env)) name = map_of ?env name"
    using getenv_entries[of "ord ?env" name] assms(3) by (simp add: o mo)
  show ?thesis
    using lm le by (auto simp: child_environ_def prebuilt_envp_def merged_def Let_def split: option.splits)
qed

theorem child_environ_lookup_witness:
  "getenv (child_environ rev [''HOME=/root'', ''PATH=/bin'', ''HOME=/x'']
     (environment ''PATH'' ''/opt'' process_startup_new)) ''HOME'' = Some ''/root''"
proof -
  let ?s = "environment ''PATH'' ''/opt'' process_startup_new"
  have e: "st_env ?s = [(''PATH'', ''/opt'')]" "st_inherit_env ?s"
    by (simp_all add: environment_def process_startup_new_def)
  have "is_order rev" by (simp add: is_order_def)
  moreover have "distinct (map fst (st_env ?s))" "\<forall>k \<in> fst ` set (st_env ?s). eq_char \<notin> set k"
    by (simp_all add: e)
  ultimately have "getenv (child_environ rev [''HOME=/root'', ''PATH=/bin'', ''HOME=/x''] ?s) ''HOME'' =
      (case map_of (st_env ?s) ''HOME'' of Some v \<Rightarrow> Some v
       | None \<Rightarrow> if st_inherit_env ?s then getenv [''HOME=/root'', ''PATH=/bin'', ''HOME=/x''] ''HOME'' else None)"
    by (rule child_environ_lookup)
  then show ?thesis by (simp add: e split_entry_def)
qed

end
