(* ===== verification/Win_Cmdline.thy ===== *)
theory Win_Cmdline
  imports Prelude
begin

text \<open>
  The command line that \<open>create_process_impl\<close> of \<open>src/process_win32.cpp\<close> builds from the
  list of arguments, and the rules by which the C runtime of the started program takes it
  apart again.
\<close>

abbreviation backslash :: char where "backslash \<equiv> CHR 0x5C"
abbreviation dquote :: char where "dquote \<equiv> CHR 0x22"
abbreviation blank :: char where "blank \<equiv> CHR 0x20"
abbreviation tab_char :: char where "tab_char \<equiv> CHR 0x09"

section \<open>Building the command line\<close>

definition need_quote :: "string \<Rightarrow> bool" where
  "need_quote s \<longleftrightarrow> s = [] \<or> (\<exists>c \<in> set s. c \<in> {blank, tab_char, CHR 0x0A, CHR 0x0B, dquote})"

text \<open>The loop over an argument; a round takes a run of backslashes and the character after it.\<close>

function quote_loop :: "string \<Rightarrow> string" where
  "quote_loop s =
     (if s = [] then []
      else let backslashes = length (takeWhile (\<lambda>c. c = backslash) s)
           in case dropWhile (\<lambda>c. c = backslash) s of
                [] \<Rightarrow> replicate (backslashes * 2) backslash
              | c # rest \<Rightarrow>
                  if c = dquote
                  then replicate (backslashes * 2 + 1) backslash @ dquote # quote_loop rest
                  else replicate backslashes backslash @ c # quote_loop rest)"
  by pat_completeness auto
termination
proof (relation "measure length", goal_cases)
  case (2 s b c rest)
  then have "length (c # rest) \<le> length s" using length_dropWhile_le[of "\<lambda>c. c = backslash" s] by simp
  then show ?case by simp
next
  case (3 s b c rest)
  then have "length (c # rest) \<le> length s" using length_dropWhile_le[of "\<lambda>c. c = backslash" s] by simp
  then show ?case by simp
qed simp

declare quote_loop.simps [simp del]

definition quote_arg :: "string \<Rightarrow> string" where
  "quote_arg s = (if \<not> need_quote s then s else dquote # quote_loop s @ [dquote])"

definition build_cmdline :: "string list \<Rightarrow> string" where
  "build_cmdline cmdline = concat (map (\<lambda>s. quote_arg s @ [blank]) cmdline)"

section \<open>Taking it apart\<close>

text \<open>
  The rules that the comment in the source refers to, as the C runtime documents them.
  Inside an argument, backslashes are literal unless a double quote follows: then each pair
  gives one backslash, an odd one makes the quote literal, and otherwise the quote opens or
  closes a quoted part, in which two quotes stand for a literal one.  Blanks and tabs end an
  argument outside quotes.  The program name is different: quotes only group, and backslashes
  are always literal.  \<open>quoted\<close> says whether a quoted part is open, \<open>n\<close> counts the backslashes
  just read; the result is the argument and the rest of the line.
\<close>

fun crt_scan :: "bool \<Rightarrow> nat \<Rightarrow> string \<Rightarrow> string \<times> string" where
  "crt_scan quoted n [] = (replicate n backslash, [])"
| "crt_scan quoted n (c # s) =
     (if c = backslash then crt_scan quoted (Suc n) s
      else if c = dquote then
        (if odd n then apfst (\<lambda>a. replicate (n div 2) backslash @ dquote # a) (crt_scan quoted 0 s)
         else if quoted \<and> take 1 s = [dquote]
              then apfst (\<lambda>a. replicate (n div 2) backslash @ dquote # a) (crt_scan quoted 0 (drop 1 s))
         else apfst (\<lambda>a. replicate (n div 2) backslash @ a) (crt_scan (\<not> quoted) 0 s))
      else if \<not> quoted \<and> (c = blank \<or> c = tab_char) then (replicate n backslash, c # s)
      else apfst (\<lambda>a. replicate n backslash @ c # a) (crt_scan quoted 0 s))"

fun crt_program :: "bool \<Rightarrow> string \<Rightarrow> string \<times> string" where
  "crt_program quoted [] = ([], [])"
| "crt_program quoted (c # s) =
     (if c = dquote then crt_program (\<not> quoted) s
      else if \<not> quoted \<and> (c = blank \<or> c = tab_char) then ([], c # s)
      else apfst ((#) c) (crt_program quoted s))"

lemma length_crt_scan: "length (snd (crt_scan quoted n s)) \<le> length s"
proof (induction quoted n s rule: crt_scan.induct)
  case (2 quoted n c s)
  show ?case
  proof (cases "c = backslash")
    case True
    with 2(1) show ?thesis by simp
  next
    case bs: False
    show ?thesis
    proof (cases "c = dquote")
      case True
      with bs 2(2-4) show ?thesis
        by (cases "odd n"; cases quoted; cases "take 1 s = [dquote]") simp_all
    next
      case False
      with bs 2(5) show ?thesis by (cases "\<not> quoted \<and> (c = blank \<or> c = tab_char)") simp_all
    qed
  qed
qed simp

definition skip_blanks :: "string \<Rightarrow> string" where
  "skip_blanks s = dropWhile (\<lambda>c. c = blank \<or> c = tab_char) s"

function crt_arguments :: "string \<Rightarrow> string list" where
  "crt_arguments s =
     (if skip_blanks s = [] then []
      else fst (crt_scan False 0 (skip_blanks s)) # crt_arguments (snd (crt_scan False 0 (skip_blanks s))))"
  by pat_completeness auto
termination
proof (relation "measure length", goal_cases)
  case (2 s)
  then obtain c r where r: "skip_blanks s = c # r" by (cases "skip_blanks s") auto
  then have nb: "\<not> (c = blank \<or> c = tab_char)" using hd_dropWhile[of "\<lambda>c. c = blank \<or> c = tab_char" s]
    by (simp add: skip_blanks_def)
  have len: "Suc (length r) \<le> length s"
    using length_dropWhile_le[of "\<lambda>c. c = blank \<or> c = tab_char" s] r by (simp add: skip_blanks_def)
  have "length (snd (crt_scan False 0 (c # r))) \<le> length r"
    using nb length_crt_scan[of False 1 r] length_crt_scan[of True 0 r] length_crt_scan[of False 0 r] by auto
  with r len show ?case by simp
qed simp

declare crt_arguments.simps [simp del]

definition crt_argv :: "string \<Rightarrow> string list" where
  "crt_argv s = fst (crt_program False s) # crt_arguments (snd (crt_program False s))"

section \<open>The round trip of an argument\<close>

lemma crt_scan_run [simp]:
  "crt_scan quoted n (replicate k backslash @ s) = crt_scan quoted (k + n) s"
  by (induction k arbitrary: n) simp_all

lemma backslash_split: "s = replicate (length (takeWhile (\<lambda>c. c = backslash) s)) backslash @ dropWhile (\<lambda>c. c = backslash) s"
proof -
  have "takeWhile (\<lambda>c. c = backslash) s = replicate (length (takeWhile (\<lambda>c. c = backslash) s)) backslash"
    by (induction s) auto
  then show ?thesis by (metis takeWhile_dropWhile_id)
qed

lemma quote_loop_Nil [simp]: "quote_loop [] = []"
  by (simp add: quote_loop.simps)

lemma crt_scan_quoted: "crt_scan True 0 (quote_loop s @ dquote # blank # rest) = (s, blank # rest)"
proof (induction s rule: quote_loop.induct)
  case (1 s)
  let ?k = "length (takeWhile (\<lambda>c. c = backslash) s)"
  show ?case
  proof (cases "s = []")
    case True
    then show ?thesis by simp
  next
    case False
    show ?thesis
    proof (cases "dropWhile (\<lambda>c. c = backslash) s")
      case Nil
      with backslash_split[of s] have "s = replicate ?k backslash" by simp
      moreover have "quote_loop s = replicate (?k * 2) backslash"
        using False Nil by (simp add: quote_loop.simps[of s] Let_def del: dropWhile_eq_Nil_conv)
      ultimately show ?thesis by (simp add: mult.commute) 
    next
      case (Cons c t)
      note ih = 1(1)[OF False refl Cons] 1(2)[OF False refl Cons]
      from Cons have c: "c \<noteq> backslash" using hd_dropWhile[of "\<lambda>c. c = backslash" s] by simp
      have s: "s = replicate ?k backslash @ c # t" using backslash_split[of s] Cons by simp
      show ?thesis
      proof (cases "c = dquote")
        case True
        then have "quote_loop s = replicate (?k * 2 + 1) backslash @ dquote # quote_loop t"
          using False Cons by (simp add: quote_loop.simps[of s] Let_def)
        then have "crt_scan True 0 (quote_loop s @ dquote # blank # rest) = (replicate ?k backslash @ dquote # t, blank # rest)"
          using ih True by (simp del: replicate.simps)
        with s True show ?thesis by simp
      next
        case False
        then have "quote_loop s = replicate ?k backslash @ c # quote_loop t"
          using \<open>s \<noteq> []\<close> Cons by (simp add: quote_loop.simps[of s] Let_def)
        then have "crt_scan True 0 (quote_loop s @ dquote # blank # rest) = (replicate ?k backslash @ c # t, blank # rest)"
          using ih False c by simp
        with s show ?thesis by simp
      qed
    qed
  qed
qed

lemma crt_scan_plain: "\<forall>c \<in> set s. c \<noteq> blank \<and> c \<noteq> tab_char \<and> c \<noteq> dquote \<Longrightarrow>
  crt_scan False n (s @ blank # rest) = (replicate n backslash @ s, blank # rest)"
proof (induction s arbitrary: n)
  case (Cons c s)
  then show ?case by (simp add: replicate_append_same del: replicate.simps) (simp add: replicate_app_Cons_same)
qed simp

lemma crt_scan_quote_arg: "crt_scan False 0 (quote_arg s @ blank # rest) = (s, blank # rest)"
proof (cases "need_quote s")
  case True
  then show ?thesis using crt_scan_quoted[of s rest] by (simp add: quote_arg_def)
next
  case False
  then show ?thesis using crt_scan_plain[of s 0 rest] by (simp add: quote_arg_def need_quote_def)
qed

lemma skip_blanks_quote_arg: "skip_blanks (quote_arg s @ rest) = quote_arg s @ rest"
proof (cases "need_quote s")
  case True
  then show ?thesis by (simp add: quote_arg_def skip_blanks_def)
next
  case False
  then obtain c t where "s = c # t" "c \<noteq> blank" "c \<noteq> tab_char" by (cases s) (auto simp: need_quote_def)
  with False show ?thesis by (simp add: quote_arg_def skip_blanks_def)
qed

lemma crt_arguments_blank: "crt_arguments (blank # s) = crt_arguments s"
  by (simp add: crt_arguments.simps[of s] crt_arguments.simps[of "blank # s"] skip_blanks_def)

lemma quote_arg_nonempty: "quote_arg s \<noteq> []"
  by (auto simp: quote_arg_def need_quote_def)

lemma crt_arguments_cmdline: "crt_arguments (build_cmdline args) = args"
proof (induction args)
  case Nil
  show ?case by (simp add: build_cmdline_def crt_arguments.simps skip_blanks_def)
next
  case (Cons s args)
  have "build_cmdline (s # args) = quote_arg s @ blank # build_cmdline args" by (simp add: build_cmdline_def)
  with Cons show ?case
    by (subst crt_arguments.simps)
      (simp add: skip_blanks_quote_arg crt_scan_quote_arg crt_arguments_blank quote_arg_nonempty)
qed

section \<open>The whole line\<close>

lemma quote_loop_plain:
  "dquote \<notin> set s \<Longrightarrow> s = [] \<or> last s \<noteq> backslash \<Longrightarrow> quote_loop s = s"
proof (induction s rule: quote_loop.induct)
  case (1 s)
  let ?k = "length (takeWhile (\<lambda>c. c = backslash) s)"
  show ?case
  proof (cases "s = []")
    case False
    have "dropWhile (\<lambda>c. c = backslash) s \<noteq> []"
      using False 1(4) last_in_set[OF False] by (auto simp del: last_in_set)
    then obtain c t where d: "dropWhile (\<lambda>c. c = backslash) s = c # t"
      by (cases "dropWhile (\<lambda>c. c = backslash) s") auto
    have s: "s = replicate ?k backslash @ c # t" using backslash_split[of s] d by simp
    have c: "c \<noteq> dquote" using 1(3) s by (metis in_set_conv_decomp)
    have "dquote \<notin> set t" using 1(3) s by (metis UnCI list.set_intros(2) set_append)
    moreover have "t = [] \<or> last t \<noteq> backslash"
      using 1(4) False s by (metis last_ConsR last_append list.distinct(1))
    ultimately have "quote_loop t = t" using 1(2)[OF False refl d c] by simp
    with d False c s show ?thesis by (subst quote_loop.simps) (simp add: Let_def)
  qed simp
qed

lemma crt_program_quoted: "dquote \<notin> set s \<Longrightarrow> crt_program True (s @ dquote # blank # rest) = (s, blank # rest)"
  by (induction s) auto

lemma crt_program_plain:
  "\<forall>c \<in> set s. c \<noteq> blank \<and> c \<noteq> tab_char \<and> c \<noteq> dquote \<Longrightarrow> crt_program False (s @ blank # rest) = (s, blank # rest)"
  by (induction s) auto

lemma crt_program_quote_arg:
  assumes "dquote \<notin> set s" and "s = [] \<or> last s \<noteq> backslash"
  shows "crt_program False (quote_arg s @ blank # rest) = (s, blank # rest)"
proof (cases "need_quote s")
  case True
  then show ?thesis using quote_loop_plain[OF assms] crt_program_quoted[OF assms(1), of rest]
    by (simp add: quote_arg_def)
next
  case False
  then show ?thesis using crt_program_plain[of s rest] by (simp add: quote_arg_def need_quote_def)
qed

text \<open>The buffer that \<open>CreateProcess\<close> gets, and what of it is a C string.\<close>

abbreviation nul_char :: char where "nul_char \<equiv> CHR 0x00"

definition cmd_buf :: "string list \<Rightarrow> string" where
  "cmd_buf cmdline = build_cmdline cmdline @ [nul_char]"

definition c_str :: "string \<Rightarrow> string" where
  "c_str buf = takeWhile (\<lambda>c. c \<noteq> nul_char) buf"

lemma set_quote_loop: "set (quote_loop s) \<subseteq> set s \<union> {backslash, dquote}"
proof (induction s rule: quote_loop.induct)
  case (1 s)
  let ?d = "dropWhile (\<lambda>c. c = backslash) s"
  show ?case
  proof (cases ?d)
    case Nil
    then show ?thesis by (subst quote_loop.simps) (auto simp: Let_def simp del: dropWhile_eq_Nil_conv)
  next
    case (Cons c t)
    then have ne: "s \<noteq> []" by auto
    have "set (c # t) \<subseteq> set s" using set_dropWhileD[of _ "\<lambda>c. c = backslash" s] Cons by auto
    with 1(1)[OF ne refl Cons] 1(2)[OF ne refl Cons] ne Cons show ?thesis
      by (cases "c = dquote"; subst quote_loop.simps) (auto simp: Let_def)
  qed
qed

lemma c_str_cmd_buf:
  assumes "\<forall>s \<in> set cmdline. nul_char \<notin> set s"
  shows "c_str (cmd_buf cmdline) = build_cmdline cmdline"
proof -
  have "nul_char \<notin> set (quote_arg s)" if "s \<in> set cmdline" for s
    using assms that set_quote_loop[of s] by (auto simp: quote_arg_def)
  then have "nul_char \<notin> set (build_cmdline cmdline)" by (auto simp: build_cmdline_def)
  then show ?thesis by (simp add: c_str_def cmd_buf_def)
qed

section \<open>Properties\<close>

text \<open>
  C13. The program that the runtime starts sees exactly the arguments of the builder, with
  any spaces, quotes and backslashes in them, as long as they contain no NUL and the program
  name contains no quote and does not end in a backslash.
\<close>

theorem cmdline_roundtrip:
  assumes "\<forall>s \<in> set (prog # args). nul_char \<notin> set s"
    and "dquote \<notin> set prog" and "prog = [] \<or> last prog \<noteq> backslash"
  shows "crt_argv (c_str (cmd_buf (prog # args))) = prog # args"
proof -
  have "build_cmdline (prog # args) = quote_arg prog @ blank # build_cmdline args"
    by (simp add: build_cmdline_def)
  then have "crt_program False (c_str (cmd_buf (prog # args))) = (prog, blank # build_cmdline args)"
    using c_str_cmd_buf[OF assms(1)] crt_program_quote_arg[OF assms(2,3)] by simp
  then show ?thesis by (simp add: crt_argv_def crt_arguments_blank crt_arguments_cmdline)
qed

theorem cmdline_roundtrip_witness:
  "crt_argv (c_str (cmd_buf [''C:'' @ [backslash] @ ''My Tools'' @ [backslash] @ ''run.exe'', [],
     [dquote, backslash, backslash, dquote] @ '' x'', ''end dir'' @ [backslash, backslash]])) =
   [''C:'' @ [backslash] @ ''My Tools'' @ [backslash] @ ''run.exe'', [],
     [dquote, backslash, backslash, dquote] @ '' x'', ''end dir'' @ [backslash, backslash]]"
  by (rule cmdline_roundtrip) simp_all

end
