(* ===== verification/Win_Env.thy ===== *)
theory Win_Env
  imports Env_Unix Win_Cmdline
begin

text \<open>
  The environment block that \<open>create_process_impl\<close> of \<open>src/process_win32.cpp\<close> builds for
  \<open>CreateProcess\<close>.  The walk over the hash map (\<open>ord\<close>) and \<open>std::sort\<close> with
  \<open>CompareStringA\<close> (\<open>srt\<close>) are parameters.
\<close>

section \<open>The effective variables\<close>

text \<open>The strings of a block up to the empty one, as the loop over \<open>GetEnvironmentStrings\<close> reads them.\<close>

function block_entries :: "string \<Rightarrow> string list" where
  "block_entries p =
     (if p = [] \<or> hd p = nul_char then []
      else let entry = takeWhile (\<lambda>c. c \<noteq> nul_char) p
           in entry # block_entries (drop (length entry + 1) p))"
  by pat_completeness auto
termination by (relation "measure length") auto

declare block_entries.simps [simp del]

text \<open>A name; a hidden variable such as \<open>=C:\<close> starts with the equals sign.\<close>

definition win_split_entry :: "string \<Rightarrow> (string \<times> string) option" where
  "win_split_entry entry =
     (case split_entry entry of
        None \<Rightarrow> None
      | Some (key, val) \<Rightarrow>
          if key \<noteq> [] then Some (key, val)
          else (case split_entry (tl entry) of
                  None \<Rightarrow> None
                | Some (key2, val2) \<Rightarrow> if key2 \<noteq> [] then Some (eq_char # key2, val2) else None))"

fun win_merge_parent :: "string list \<Rightarrow> (string \<times> string) list \<Rightarrow> (string \<times> string) list" where
  "win_merge_parent [] m = m"
| "win_merge_parent (entry # rest) m =
     (case win_split_entry entry of
        Some (k, v) \<Rightarrow> win_merge_parent rest (emplace k v m)
      | None \<Rightarrow> win_merge_parent rest m)"

definition effective_env :: "map_order \<Rightarrow> string option \<Rightarrow> process_startup \<Rightarrow> (string \<times> string) list" where
  "effective_env ord parent_env startup =
     (if st_inherit_env startup
      then apply_overrides (ord (st_env startup))
             (case parent_env of None \<Rightarrow> [] | Some block \<Rightarrow> win_merge_parent (block_entries block) [])
      else st_env startup)"

definition sorted_env :: "map_order \<Rightarrow> map_order \<Rightarrow> (string \<times> string) list \<Rightarrow> (string \<times> string) list" where
  "sorted_env srt ord effective = srt (filter (\<lambda>e. fst e \<noteq> []) (ord effective))"

section \<open>The block\<close>

definition max_object_size :: "64 word" where
  "max_object_size = 0x7FFFFFFFFFFFFFFF"

fun env_size_loop :: "(string \<times> string) list \<Rightarrow> 64 word \<Rightarrow> 64 word result" where
  "env_size_loop [] env_size = Inr env_size"
| "env_size_loop ((key, val) # es) env_size =
     (let key_size = word_of_nat (length key); value_size = word_of_nat (length val)
      in if key_size > max_object_size - value_size - 2 \<or> env_size > max_object_size - key_size - value_size - 2
         then Inl (Runtime_error ''environment block is too large'')
         else env_size_loop es (env_size + (key_size + value_size + 2)))"

fun env_entries :: "(string \<times> string) list \<Rightarrow> string" where
  "env_entries [] = []"
| "env_entries ((key, val) # es) = key @ eq_char # val @ nul_char # env_entries es"

definition env_block :: "(string \<times> string) list \<Rightarrow> string" where
  "env_block es = env_entries es @ nul_char # (if es = [] then [nul_char] else [])"

text \<open>The buffer has \<open>env_size\<close> bytes; the writes are compared with it only at the end.\<close>

definition build_block :: "(string \<times> string) list \<Rightarrow> string result" where
  "build_block es =
     (case env_size_loop es (if es = [] then 2 else 1) of
        Inl e \<Rightarrow> Inl e
      | Inr env_size \<Rightarrow>
          if length (env_block es) \<noteq> unat env_size
          then Inl (Runtime_error ''unable to copy environment variables'')
          else Inr (env_block es))"

text \<open>\<open>None\<close> is the null pointer: \<open>CreateProcess\<close> then takes the parent's block.\<close>

definition win_envs :: "map_order \<Rightarrow> map_order \<Rightarrow> string option \<Rightarrow> process_startup \<Rightarrow> string option result" where
  "win_envs srt ord parent_env startup =
     (if st_inherit_env startup \<and> st_env startup = [] then Inr None
      else (case build_block (sorted_env srt ord (effective_env ord parent_env startup)) of
              Inl e \<Rightarrow> Inl e
            | Inr block \<Rightarrow> Inr (Some block)))"

section \<open>The size\<close>

lemma unat_max_object_size: "unat max_object_size = 2 ^ 63 - 1"
  by (simp add: max_object_size_def)

lemma env_size_loop_spec:
  assumes "\<forall>(k, v) \<in> set es. length k < 2 ^ 63 - 2 \<and> length v < 2 ^ 63 - 2" and "unat sz < 2 ^ 63"
  shows "env_size_loop es sz =
    (if unat sz + length (env_entries es) < 2 ^ 63
     then Inr (word_of_nat (unat sz + length (env_entries es)))
     else Inl (Runtime_error ''environment block is too large''))"
  using assms
proof (induction es arbitrary: sz)
  case Nil
  then show ?case by simp
next
  case (Cons e es)
  obtain k v where e: "e = (k, v)" by fastforce
  let ?k = "word_of_nat (length k) :: 64 word" and ?v = "word_of_nat (length v) :: 64 word"
  have l: "length k < 2 ^ 63 - 2" "length v < 2 ^ 63 - 2" using Cons.prems(1) e by auto
  then have u: "unat ?k = length k" "unat ?v = length v" by (simp_all add: unat_of_nat take_bit_nat_eq_self)
  have mv: "unat (max_object_size - ?v - 2) = 2 ^ 63 - 3 - length v"
    using u l by (simp add: unat_sub_if' unat_max_object_size)
  show ?case
  proof (cases "length k + length v + 2 < 2 ^ 63")
    case False
    then have "?k > max_object_size - ?v - 2" using mv u l by (simp add: word_less_nat_alt)
    with False e show ?thesis by (simp add: Let_def)
  next
    case True
    then have 1: "\<not> ?k > max_object_size - ?v - 2" using mv u l by (simp add: word_less_nat_alt)
    have kv: "unat (max_object_size - ?k - ?v - 2) = 2 ^ 63 - 3 - length k - length v"
      using u l True by (simp add: unat_sub_if' unat_max_object_size) arith
    have un: "unat (sz + (?k + ?v + 2)) = unat sz + (length k + length v + 2)"
      using u True Cons.prems(2) by (simp add: unat_plus_if')
    show ?thesis
    proof (cases "unat sz + (length k + length v + 2) < 2 ^ 63")
      case False
      then have "sz > max_object_size - ?k - ?v - 2" using kv True by (simp add: word_less_nat_alt)
      with False e show ?thesis by (simp add: Let_def)
    next
      case ok: True
      then have "\<not> sz > max_object_size - ?k - ?v - 2" using kv True by (simp add: word_less_nat_alt)
      with 1 have "env_size_loop (e # es) sz = env_size_loop es (sz + (?k + ?v + 2))"
        by (simp add: e Let_def)
      also have "\<dots> = (if unat sz + (length k + length v + 2) + length (env_entries es) < 2 ^ 63
          then Inr (word_of_nat (unat sz + (length k + length v + 2) + length (env_entries es)))
          else Inl (Runtime_error ''environment block is too large''))"
        using Cons.IH[of "sz + (?k + ?v + 2)"] Cons.prems(1) ok by (simp add: un)
      also have "unat sz + (length k + length v + 2) + length (env_entries es) = unat sz + length (env_entries (e # es))"
        by (simp add: e)
      finally show ?thesis .
    qed
  qed
qed

lemma length_env_block: "length (env_block es) = (if es = [] then 2 else 1) + length (env_entries es)"
  by (cases es) (simp_all add: env_block_def)

lemma build_block_spec:
  assumes "\<forall>(k, v) \<in> set es. length k < 2 ^ 63 - 2 \<and> length v < 2 ^ 63 - 2"
  shows "build_block es =
    (if length (env_block es) < 2 ^ 63 then Inr (env_block es)
     else Inl (Runtime_error ''environment block is too large''))"
proof -
  let ?init = "if es = [] then 2 else 1 :: 64 word"
  have u: "unat ?init = (if es = [] then 2 else 1)" by simp
  then have "unat ?init < 2 ^ 63" by simp
  note sz = env_size_loop_spec[OF assms this]
  have l: "unat ?init + length (env_entries es) = length (env_block es)"
    using u by (simp add: length_env_block)
  have "unat (word_of_nat (length (env_block es)) :: 64 word) = length (env_block es)"
    if "length (env_block es) < 2 ^ 63"
    using that by (simp add: unat_of_nat take_bit_nat_eq_self)
  then show ?thesis using sz unfolding l by (simp add: build_block_def)
qed

section \<open>Reading the block back\<close>

lemma block_entries_nul [simp]: "block_entries (nul_char # r) = []"
  by (simp add: block_entries.simps)

lemma block_entries_cons:
  "entry \<noteq> [] \<Longrightarrow> nul_char \<notin> set entry \<Longrightarrow>
   block_entries (entry @ nul_char # rest) = entry # block_entries rest"
  by (cases entry; subst block_entries.simps) (auto simp: Let_def)

lemma block_entries_block:
  assumes "\<forall>(k, v) \<in> set es. nul_char \<notin> set k \<and> nul_char \<notin> set v"
  shows "block_entries (env_entries es @ nul_char # rest) = map join_entry es"
  using assms
proof (induction es rule: env_entries.induct)
  case (2 k v es)
  then show ?case using block_entries_cons[of "k @ eq_char # v" "env_entries es @ nul_char # rest"]
    by (simp add: join_entry_def)
qed simp

definition win_name :: "string \<Rightarrow> bool" where
  "win_name k \<longleftrightarrow> k \<noteq> [] \<and> k \<noteq> [eq_char] \<and> eq_char \<notin> set (tl k) \<and> nul_char \<notin> set k"

lemma win_split_join [env_simps]: "win_name k \<Longrightarrow> win_split_entry (join_entry (k, v)) = Some (k, v)"
proof -
  assume w: "win_name k"
  then obtain c t where k: "k = c # t" by (cases k) (auto simp: win_name_def)
  show ?thesis
  proof (cases "c = eq_char")
    case True
    with w k have "t \<noteq> []" "eq_char \<notin> set t" by (auto simp: win_name_def)
    moreover have "split_entry (join_entry (k, v)) = Some ([], t @ eq_char # v)"
      using True k by (simp add: split_entry_def join_entry_def)
    moreover have "split_entry (t @ eq_char # v) = Some (t, v)"
      using calculation split_join_entry[of t v] by (simp add: join_entry_def)
    ultimately show ?thesis using True k by (simp add: win_split_entry_def join_entry_def)
  next
    case False
    with w k have "eq_char \<notin> set k" by (simp add: win_name_def)
    from split_join_entry[OF this] k show ?thesis by (simp add: win_split_entry_def)
  qed
qed

text \<open>What a name stands for in a list of entries: the first entry for it counts.\<close>

fun win_getenv :: "string list \<Rightarrow> string \<Rightarrow> string option" where
  "win_getenv [] name = None"
| "win_getenv (e # es) name =
     (case win_split_entry e of
        Some (k, v) \<Rightarrow> if k = name then Some v else win_getenv es name
      | None \<Rightarrow> win_getenv es name)"

lemma win_getenv_entries:
  "\<forall>k \<in> fst ` set m. win_name k \<Longrightarrow> win_getenv (map join_entry m) name = map_of m name"
  by (induction m) (auto simp: env_simps)

lemma map_of_win_merge_parent:
  "map_of (win_merge_parent environ m) k = (case map_of m k of None \<Rightarrow> win_getenv environ k | Some v \<Rightarrow> Some v)"
  by (induction environ m rule: win_merge_parent.induct)
    (auto simp: map_of_emplace split: option.splits)

lemma distinct_win_merge_parent:
  "distinct (map fst m) \<Longrightarrow> distinct (map fst (win_merge_parent environ m))"
  by (induction environ m rule: win_merge_parent.induct) (auto simp: distinct_emplace split: option.splits)

section \<open>The block of a startup\<close>

text \<open>What \<open>std::sort\<close> with \<open>CompareStringA\<close> guarantees, \<open>before\<close> being the comparison.\<close>

definition is_sorter :: "(string \<Rightarrow> string \<Rightarrow> bool) \<Rightarrow> map_order \<Rightarrow> bool" where
  "is_sorter before srt \<longleftrightarrow>
     (\<forall>m. mset (srt m) = mset m \<and> sorted_wrt (\<lambda>a b. \<not> before (fst b) (fst a)) (srt m))"

definition no_nul :: "(string \<times> string) list \<Rightarrow> bool" where
  "no_nul m \<longleftrightarrow> (\<forall>(k, v) \<in> set m. nul_char \<notin> set k \<and> nul_char \<notin> set v)"

lemma block_entries_no_nul: "e \<in> set (block_entries b) \<Longrightarrow> nul_char \<notin> set e"
proof (induction b rule: block_entries.induct)
  case (1 p)
  show ?case
  proof (cases "p = [] \<or> hd p = nul_char")
    case True
    with 1(2) show ?thesis by (simp add: block_entries.simps[of p])
  next
    case False
    with 1(2) have "e = takeWhile (\<lambda>c. c \<noteq> nul_char) p \<or>
        e \<in> set (block_entries (drop (length (takeWhile (\<lambda>c. c \<noteq> nul_char) p) + 1) p))"
      by (simp add: block_entries.simps[of p] Let_def)
    then show ?thesis using 1(1)[OF False refl] by (auto dest: set_takeWhileD)
  qed
qed

lemma split_entry_parts: "split_entry e = Some (k, v) \<Longrightarrow> e = k @ eq_char # v"
proof -
  assume a: "split_entry e = Some (k, v)"
  then have "eq_char \<in> set e" by (simp add: split_entry_def split: if_splits)
  then obtain xs ys where "e = xs @ eq_char # ys" "eq_char \<notin> set xs" by (meson split_list_first)
  with a show ?thesis by (simp add: split_entry_def)
qed

lemma win_split_entry_name:
  assumes "win_split_entry e = Some (k, v)" and "nul_char \<notin> set e"
  shows "win_name k \<and> nul_char \<notin> set v"
proof -
  obtain key val where s: "split_entry e = Some (key, val)"
    using assms(1) by (auto simp: win_split_entry_def split: option.splits)
  note p = split_entry_parts[OF s] split_entry_key[OF s]
  show ?thesis
  proof (cases "key = []")
    case False
    with assms(1) s have "k = key" "v = val" by (simp_all add: win_split_entry_def)
    with p False assms(2) show ?thesis by (cases key) (auto simp: win_name_def)
  next
    case True
    with assms(1) s obtain k2 where k2: "split_entry (tl e) = Some (k2, v)" "k2 \<noteq> []" "k = eq_char # k2"
      by (auto simp: win_split_entry_def split: option.splits if_splits)
    from split_entry_parts[OF k2(1)] split_entry_key[OF k2(1)] p(1) True k2(2,3) assms(2) show ?thesis
      by (auto simp: win_name_def)
  qed
qed

lemma win_merge_parent_names:
  "\<forall>e \<in> set environ. nul_char \<notin> set e \<Longrightarrow> \<forall>(k, v) \<in> set m. win_name k \<and> nul_char \<notin> set v \<Longrightarrow>
   \<forall>(k, v) \<in> set (win_merge_parent environ m). win_name k \<and> nul_char \<notin> set v"
proof (induction environ m rule: win_merge_parent.induct)
  case (2 entry rest m)
  show ?case
  proof (cases "win_split_entry entry")
    case None
    with 2 show ?thesis by simp
  next
    case (Some kv)
    obtain k v where kv: "kv = (k, v)" by fastforce
    have "win_name k \<and> nul_char \<notin> set v" using win_split_entry_name[of entry k v] Some kv 2(3) by simp
    then have "\<forall>(k, v) \<in> set (emplace k v m). win_name k \<and> nul_char \<notin> set v"
      using 2(4) by (auto simp: emplace_def split: option.splits)
    with 2(2)[OF Some kv[symmetric]] 2(3) Some kv show ?thesis by simp
  qed
qed simp

lemma apply_overrides_names:
  "\<forall>(k, v) \<in> set es. P k v \<Longrightarrow> \<forall>(k, v) \<in> set m. P k v \<Longrightarrow>
   \<forall>(k, v) \<in> set (apply_overrides es m). P k v"
proof (induction es m rule: apply_overrides.induct)
  case (2 e rest m)
  have up: "\<forall>(k, v) \<in> set (AList.update a b m). P k v" if "P a b" "\<forall>(k, v) \<in> set m. P k v" for a b m
    using that by (induction m) auto
  have "P (fst e) (snd e)" using 2(2) by (cases e) simp
  from 2(1)[OF _ up[OF this 2(3)]] 2(2) show ?case by simp
qed simp

definition good_env :: "(string \<times> string) list \<Rightarrow> bool" where
  "good_env m \<longleftrightarrow> distinct (map fst m) \<and> (\<forall>(k, v) \<in> set m. win_name k \<and> nul_char \<notin> set v)"

lemma good_effective:
  assumes "is_order ord" and "good_env (st_env startup)"
  shows "good_env (effective_env ord parent_env startup)"
proof -
  let ?m = "case parent_env of None \<Rightarrow> [] | Some block \<Rightarrow> win_merge_parent (block_entries block) []"
  have "distinct (map fst ?m)" by (simp add: distinct_win_merge_parent split: option.split)
  moreover have "\<forall>(k, v) \<in> set ?m. win_name k \<and> nul_char \<notin> set v"
  proof (cases parent_env)
    case (Some b)
    then show ?thesis using win_merge_parent_names[of "block_entries b" "[]"] block_entries_no_nul[of _ b] by auto
  qed simp
  moreover have "\<forall>(k, v) \<in> set (ord (st_env startup)). win_name k \<and> nul_char \<notin> set v"
    using assms(2) order_set[OF assms(1)] by (simp add: good_env_def)
  ultimately have ov: "\<forall>(k, v) \<in> set (apply_overrides (ord (st_env startup)) ?m). win_name k \<and> nul_char \<notin> set v"
    and d: "distinct (map fst (apply_overrides (ord (st_env startup)) ?m))"
    using apply_overrides_names[of "ord (st_env startup)" "\<lambda>k v. win_name k \<and> nul_char \<notin> set v" ?m]
    by (simp_all only: distinct_apply_overrides)
  show ?thesis
  proof (cases "st_inherit_env startup")
    case True
    with ov d show ?thesis by (simp only: good_env_def effective_env_def if_True)
  next
    case False
    with assms(2) show ?thesis by (simp add: effective_env_def)
  qed
qed

lemma sorted_env_perm:
  assumes "is_order ord" and "is_sorter before srt" and "good_env m"
  shows "mset (sorted_env srt ord m) = mset m"
proof -
  have "filter (\<lambda>e. fst e \<noteq> []) (ord m) = ord m"
    using assms(3) order_set[OF assms(1), of m] by (auto simp: good_env_def win_name_def filter_id_conv)
  then show ?thesis using assms(1,2) by (simp add: sorted_env_def is_sorter_def is_order_def)
qed

lemma map_of_mset_eq: "mset a = mset b \<Longrightarrow> distinct (map fst b) \<Longrightarrow> map_of a = map_of b"
proof -
  assume m: "mset a = mset b" and d: "distinct (map fst b)"
  have "mset (map fst a) = mset (map fst b)" using m by simp
  then have "distinct (map fst a)" using d mset_eq_imp_distinct_iff by blast
  with m d show ?thesis by (metis map_of_inject_set mset_eq_setD)
qed

lemma win_envs_block:
  assumes "win_envs srt ord parent_env startup = Inr (Some block)"
  defines "es \<equiv> sorted_env srt ord (effective_env ord parent_env startup)"
  shows "block = env_block es"
  using assms by (auto simp: win_envs_def build_block_def split: if_splits sum.splits)

section \<open>Properties\<close>

text \<open>
  C21. The size that is computed beforehand, in 64-bit words and with the guards, is the number
  of bytes written, so every write is inside the buffer and the test at the end never fires;
  the block is refused exactly when it would be larger than the largest object.  The lengths
  are those that a string of the standard library can have.
\<close>

theorem env_block_size:
  assumes "\<forall>(k, v) \<in> set es. length k < 2 ^ 63 - 2 \<and> length v < 2 ^ 63 - 2"
  shows "(\<forall>sz. env_size_loop es (if es = [] then 2 else 1) = Inr sz \<longrightarrow> unat sz = length (env_block es)) \<and>
    build_block es = (if length (env_block es) < 2 ^ 63 then Inr (env_block es)
                      else Inl (Runtime_error ''environment block is too large''))"
  using build_block_spec[OF assms] by (auto simp: build_block_def split: sum.splits if_splits)

theorem env_block_size_witness:
  "build_block [(''=C:'', ''C:''), (''PATH'', [])] = Inr (env_block [(''=C:'', ''C:''), (''PATH'', [])])"
  using env_block_size[of "[(''=C:'', ''C:''), (''PATH'', [])]"] by (simp add: env_block_def)

text \<open>
  C25. Reading the block back gives the entries in the order of the comparison, and in it each
  name has the value that was set last on the builder, or else the parent's when the
  environment is inherited; the walk over the hash map and the sort make no difference.
  Names are compared exactly, so \<open>Path\<close> of the parent stays beside \<open>PATH\<close> of the builder.
\<close>

theorem win_environ_lookup:
  assumes "is_order ord" and "is_sorter before srt" and "good_env (st_env startup)"
    and "win_envs srt ord parent_env startup = Inr (Some block)"
  shows "sorted_wrt (\<lambda>a b. \<not> before b a) (map (fst \<circ> the \<circ> win_split_entry) (block_entries block)) \<and>
    win_getenv (block_entries block) name =
      (case map_of (st_env startup) name of
         Some v \<Rightarrow> Some v
       | None \<Rightarrow> if st_inherit_env startup
                 then (case parent_env of None \<Rightarrow> None | Some b \<Rightarrow> win_getenv (block_entries b) name)
                 else None)"
proof -
  let ?eff = "effective_env ord parent_env startup"
  define es where "es = sorted_env srt ord ?eff"
  have g: "good_env ?eff" using assms(1,3) by (rule good_effective)
  have m: "mset es = mset ?eff" unfolding es_def using assms(1,2) g by (rule sorted_env_perm)
  then have ss: "set es = set ?eff" by (rule mset_eq_setD)
  have names: "\<forall>(k, v) \<in> set es. win_name k \<and> nul_char \<notin> set v" using g by (simp add: ss good_env_def)
  then have nn: "\<forall>(k, v) \<in> set es. nul_char \<notin> set k \<and> nul_char \<notin> set v" by (auto simp: win_name_def)
  have b: "block_entries block = map join_entry es"
    using win_envs_block[OF assms(4)] block_entries_block[OF nn] by (simp add: es_def[symmetric] env_block_def)
  have "map (fst \<circ> the \<circ> win_split_entry) (map join_entry es) = map fst es"
    using names by (auto simp: win_split_join)
  moreover have "sorted_wrt (\<lambda>a b. \<not> before b a) (map fst es)"
    using assms(2) by (simp add: es_def sorted_env_def is_sorter_def sorted_wrt_map)
  moreover have "win_getenv (map join_entry es) name = map_of ?eff name"
  proof -
    have "\<forall>k \<in> fst ` set es. win_name k" using names by auto
    from win_getenv_entries[OF this] show ?thesis using map_of_mset_eq[OF m] g by (simp add: good_env_def)
  qed
  moreover have "map_of ?eff name =
      (case map_of (st_env startup) name of
         Some v \<Rightarrow> Some v
       | None \<Rightarrow> if st_inherit_env startup
                 then (case parent_env of None \<Rightarrow> None | Some b \<Rightarrow> win_getenv (block_entries b) name)
                 else None)"
  proof -
    have d: "distinct (map fst (st_env startup))" using assms(3) by (simp add: good_env_def)
    have o: "map_of (ord (st_env startup)) = map_of (st_env startup)" using assms(1) d by (rule map_of_order)
    have "mset (map fst (ord (st_env startup))) = mset (map fst (st_env startup))"
      using assms(1) by (simp add: is_order_def)
    then have do: "distinct (map fst (ord (st_env startup)))" using d mset_eq_imp_distinct_iff by blast
    show ?thesis
      by (simp add: effective_env_def map_of_apply_overrides[OF do] o map_add_def map_of_win_merge_parent
        split: option.split)
  qed
  ultimately show ?thesis by (simp only: b)
qed

definition demo_env :: process_startup where
  "demo_env = environment ''PATH'' ''X'' process_startup_new"

definition demo_parent :: string where
  "demo_parent = ''=C:=C:'' @ nul_char # ''Path=Y'' @ [nul_char, nul_char]"

theorem win_environ_lookup_witness:
  "\<exists>block. win_envs (sort_key (length \<circ> fst)) id (Some demo_parent) demo_env = Inr (Some block) \<and>
     win_getenv (block_entries block) ''Path'' = Some ''Y'' \<and> win_getenv (block_entries block) ''PATH'' = Some ''X''"
proof -
  let ?srt = "sort_key (length \<circ> fst)" and ?b = "\<lambda>a b :: string. length a < length b"
  have s: "is_sorter ?b ?srt"
  proof -
    have "sorted_wrt (\<lambda>a b. \<not> length (fst b) < length (fst a)) (sort_key (length \<circ> fst) m)"
      for m :: "(string \<times> string) list"
      using sorted_sort_key[of "length \<circ> fst" m] by (simp add: sorted_wrt_map not_less)
    then show ?thesis by (simp add: is_sorter_def)
  qed
  have e: "st_env demo_env = [(''PATH'', ''X'')]" "st_inherit_env demo_env"
    by (simp_all add: demo_env_def environment_def process_startup_new_def)
  have g: "good_env (st_env demo_env)" by (simp add: e good_env_def win_name_def)
  have p: "block_entries demo_parent = [''=C:=C:'', ''Path=Y'']"
    by (simp add: demo_parent_def block_entries.simps)
  have sp: "win_split_entry ''=C:=C:'' = Some (''=C:'', ''C:'')" "win_split_entry ''Path=Y'' = Some (''Path'', ''Y'')"
    by (simp_all add: win_split_entry_def split_entry_def)
  then have "effective_env id (Some demo_parent) demo_env = [(''=C:'', ''C:''), (''Path'', ''Y''), (''PATH'', ''X'')]"
    by (simp add: effective_env_def e p emplace_def)
  then have "win_envs ?srt id (Some demo_parent) demo_env =
      Inr (Some (env_block (sorted_env ?srt id [(''=C:'', ''C:''), (''Path'', ''Y''), (''PATH'', ''X'')])))"
    by (simp add: win_envs_def e sorted_env_def build_block_spec env_block_def)
  then obtain block where w: "win_envs ?srt id (Some demo_parent) demo_env = Inr (Some block)" by blast
  have "is_order id" by (simp add: is_order_def)
  from win_environ_lookup[OF this s g w] w show ?thesis by (simp add: e p sp)
qed

end
