(* ===== verification/Win_Spawn.thy ===== *)
theory Win_Spawn
  imports Win_Env
begin

text \<open>
  Creating a process on Windows: \<open>create_process_impl\<close> and \<open>close_process\<close> of
  \<open>src/process_win32.cpp\<close>, under \<open>create_process\<close> of \<open>src/process.cpp\<close>, over the handle
  table of the parent.  A child gets every handle that is marked inheritable when
  \<open>CreateProcess\<close> runs.
\<close>

section \<open>Handles\<close>

record handle_entry =
  h_obj :: ofile
  h_inherit :: bool

type_synonym handles = "int \<rightharpoonup> handle_entry"

text \<open>\<open>FD_INVALID\<close> is the null pointer here.\<close>

abbreviation NULL_HANDLE :: int where "NULL_HANDLE \<equiv> 0"
abbreviation INVALID_HANDLE_VALUE :: int where "INVALID_HANDLE_VALUE \<equiv> -1"
abbreviation STD_INPUT_HANDLE :: int where "STD_INPUT_HANDLE \<equiv> -10"
abbreviation STD_OUTPUT_HANDLE :: int where "STD_OUTPUT_HANDLE \<equiv> -11"
abbreviation STD_ERROR_HANDLE :: int where "STD_ERROR_HANDLE \<equiv> -12"
abbreviation CREATE_NO_WINDOW :: int where "CREATE_NO_WINDOW \<equiv> 0x08000000"

record win =
  w_handles :: handles
  w_npipe :: nat

text \<open>
  The answers of the system: the handles for new pipes and for the new process and its first
  thread with its creation time (no value when \<open>CreateProcess\<close> fails; it sees the command
  line, the creation flags, the block and the directory), the standard handles, which handles
  \<open>SetHandleInformation\<close> refuses, \<open>GetLastError\<close> and the parent's environment.
\<close>

record win_env =
  we_pipe :: "handles \<Rightarrow> (int \<times> int) option"
  we_process :: "handles \<Rightarrow> string \<Rightarrow> int \<Rightarrow> string option \<Rightarrow> string \<Rightarrow> (int \<times> int \<times> nat option) option"
  we_std :: "int \<Rightarrow> int"
  we_refuses :: "int \<Rightarrow> bool"
  we_last_error :: int
  we_parent_env :: "string option"
  we_sort :: map_order
  we_order :: map_order

definition get_handle_flag :: "int \<Rightarrow> handles \<Rightarrow> bool option" where
  "get_handle_flag h tab = map_option h_inherit (tab h)"

definition set_inherit :: "int \<Rightarrow> bool \<Rightarrow> handles \<Rightarrow> handles" where
  "set_inherit h b tab = (case tab h of None \<Rightarrow> tab | Some e \<Rightarrow> tab(h \<mapsto> e\<lparr>h_inherit := b\<rparr>))"

definition set_handle_flag :: "win_env \<Rightarrow> int \<Rightarrow> bool \<Rightarrow> handles \<Rightarrow> bool \<times> handles" where
  "set_handle_flag E h b tab =
     (if tab h = None \<or> we_refuses E h then (False, tab) else (True, set_inherit h b tab))"

definition win_close_fd :: "int \<Rightarrow> handles \<Rightarrow> int \<times> handles" where
  "win_close_fd h tab = (if h = NULL_HANDLE then (h, tab) else (NULL_HANDLE, tab(h := None)))"

definition win_no_fds :: fds where
  "win_no_fds = \<lparr>pread = NULL_HANDLE, pwrite = NULL_HANDLE\<rparr>"

text \<open>Both ends of a pipe of \<open>create_pipe\<close> are inheritable.\<close>

definition win_create_pipe :: "win_env \<Rightarrow> fds \<Rightarrow> win \<Rightarrow> bool \<times> fds \<times> win" where
  "win_create_pipe E p s =
     (case we_pipe E (w_handles s) of
        None \<Rightarrow> (False, p, s)
      | Some (r, w) \<Rightarrow>
          (True, p\<lparr>pread := r, pwrite := w\<rparr>,
           s\<lparr>w_handles := (w_handles s)(r \<mapsto> \<lparr>h_obj = Pipe_R (w_npipe s), h_inherit = True\<rparr>,
                                        w \<mapsto> \<lparr>h_obj = Pipe_W (w_npipe s), h_inherit = True\<rparr>),
             w_npipe := w_npipe s + 1\<rparr>))"

definition win_close_pipe :: "fds \<Rightarrow> handles \<Rightarrow> fds \<times> handles" where
  "win_close_pipe p tab =
     (let (r, tab1) = win_close_fd (pread p) tab;
          (w, tab2) = win_close_fd (pwrite p) tab1
      in (p\<lparr>pread := r, pwrite := w\<rparr>, tab2))"

definition win_redirected :: "redirect_info \<Rightarrow> bool" where
  "win_redirected r \<longleftrightarrow> target r \<noteq> NULL_HANDLE"

definition win_redirect_or_pipe :: "win_env \<Rightarrow> redirect_info \<Rightarrow> fds \<Rightarrow> win \<Rightarrow> bool \<times> fds \<times> win" where
  "win_redirect_or_pipe E r p s =
     (if \<not> win_redirected r then win_create_pipe E p s
      else (True, p\<lparr>pread := target r, pwrite := target r\<rparr>, s))"

section \<open>Numbers in messages\<close>

fun dec_nat :: "nat \<Rightarrow> string" where
  "dec_nat n = (if n < 10 then [char_of (48 + n)] else dec_nat (n div 10) @ [char_of (48 + n mod 10)])"

declare dec_nat.simps [simp del]

definition dec_int :: "int \<Rightarrow> string" where
  "dec_int i = (if i < 0 then CHR ''-'' # dec_nat (nat (- i)) else dec_nat (nat i))"

section \<open>The standard handles of the child\<close>

definition ensure_handle_inheritable :: "win_env \<Rightarrow> int \<Rightarrow> string \<Rightarrow> handles \<Rightarrow> unit result \<times> handles" where
  "ensure_handle_inheritable E h name tab =
     (if h = NULL_HANDLE \<or> h = INVALID_HANDLE_VALUE then (Inr (), tab)
      else case get_handle_flag h tab of
             None \<Rightarrow>
               (Inl (Runtime_error (''unable to query handle info on '' @ name @ '' (err='' @
                       dec_int (we_last_error E) @ '')'')), tab)
           | Some flags \<Rightarrow>
               if \<not> flags then
                 (case set_handle_flag E h True tab of
                    (False, tab') \<Rightarrow>
                      (Inl (Runtime_error (''unable to make '' @ name @ '' inheritable (err='' @
                              dec_int (we_last_error E) @ '')'')), tab')
                  | (True, tab') \<Rightarrow> (Inr (), tab'))
               else (Inr (), tab))"

text \<open>The same for a redirect target; the source repeats it for each stream.\<close>

definition redirect_inheritable :: "win_env \<Rightarrow> int \<Rightarrow> string \<Rightarrow> handles \<Rightarrow> unit result \<times> handles" where
  "redirect_inheritable E h name tab =
     (let tail = '' redirect (err='' @ dec_int (we_last_error E) @ '', h='' @ dec_int h @ '')''
      in case get_handle_flag h tab of
           None \<Rightarrow> (Inl (Runtime_error (''unable to query handle info on '' @ name @ tail)), tab)
         | Some flags \<Rightarrow>
             if \<not> flags then
               (case set_handle_flag E h True tab of
                  (False, tab') \<Rightarrow> (Inl (Runtime_error (''unable to set handle info on '' @ name @ tail)), tab')
                | (True, tab') \<Rightarrow> (Inr (), tab'))
             else (Inr (), tab))"

text \<open>One stream: \<open>own\<close> is the end of the pipe that the parent keeps, \<open>handle\<close> the child's.\<close>

definition bind_handle ::
  "win_env \<Rightarrow> bool \<Rightarrow> redirect_info \<Rightarrow> int \<Rightarrow> string \<Rightarrow> int \<Rightarrow> int \<Rightarrow> handles \<Rightarrow> int result \<times> handles" where
  "bind_handle E inh redirect std name handle own tab =
     (if inh then
        (case ensure_handle_inheritable E (we_std E std) name tab of
           (Inl e, tab') \<Rightarrow> (Inl e, tab') | (Inr _, tab') \<Rightarrow> (Inr (we_std E std), tab'))
      else if win_redirected redirect then
        (case redirect_inheritable E handle name tab of
           (Inl e, tab') \<Rightarrow> (Inl e, tab') | (Inr _, tab') \<Rightarrow> (Inr handle, tab'))
      else
        (case set_handle_flag E own False tab of
           (False, tab') \<Rightarrow> (Inl (Runtime_error (''unable to set handle information on '' @ name)), tab')
         | (True, tab') \<Rightarrow> (Inr handle, tab')))"

definition si_stdin :: "win_env \<Rightarrow> process_startup \<Rightarrow> fds \<Rightarrow> handles \<Rightarrow> int result \<times> handles" where
  "si_stdin E startup pstdin tab =
     bind_handle E (st_inherit_stdin startup) (st_stdin startup) STD_INPUT_HANDLE ''stdin''
       (pread pstdin) (pwrite pstdin) tab"

definition si_stdout :: "win_env \<Rightarrow> process_startup \<Rightarrow> fds \<Rightarrow> handles \<Rightarrow> int result \<times> handles" where
  "si_stdout E startup pstdout tab =
     bind_handle E (st_inherit_stdout startup) (st_stdout startup) STD_OUTPUT_HANDLE ''stdout''
       (pwrite pstdout) (pread pstdout) tab"

definition si_stderr :: "win_env \<Rightarrow> process_startup \<Rightarrow> int \<Rightarrow> fds \<Rightarrow> handles \<Rightarrow> int result \<times> handles" where
  "si_stderr E startup hStdOutput pstderr tab =
     (if st_merge_outputs startup then (Inr hStdOutput, tab)
      else bind_handle E (st_inherit_stderr startup) (st_stderr startup) STD_ERROR_HANDLE ''stderr''
             (pwrite pstderr) (pread pstderr) tab)"

section \<open>Creating the process\<close>

text \<open>What the child starts with.\<close>

record win_child =
  wc_stdin :: int
  wc_stdout :: int
  wc_stderr :: int
  wc_handles :: handles
  wc_cmdline :: string
  wc_envs :: "string option"
  wc_flags :: int

definition inherited :: "handles \<Rightarrow> handles" where
  "inherited tab = (\<lambda>h. case tab h of None \<Rightarrow> None | Some e \<Rightarrow> if h_inherit e then Some e else None)"

definition win_parent_success ::
  "process_startup \<Rightarrow> process_info \<Rightarrow> int \<times> int \<times> nat option \<Rightarrow> fds \<Rightarrow> fds \<Rightarrow> fds \<Rightarrow> handles \<Rightarrow>
   process_info \<times> handles" where
  "win_parent_success startup info pi pstdin pstdout pstderr tab =
     (let tab = (if \<not> st_inherit_stdin startup \<and> \<not> win_redirected (st_stdin startup)
                 then snd (win_close_fd (pread pstdin) tab) else tab);
          tab = (if \<not> st_inherit_stdout startup \<and> \<not> win_redirected (st_stdout startup)
                 then snd (win_close_fd (pwrite pstdout) tab) else tab);
          tab = (if \<not> st_inherit_stderr startup \<and> \<not> st_merge_outputs startup \<and> \<not> win_redirected (st_stderr startup)
                 then snd (win_close_fd (pwrite pstderr) tab) else tab);
          (hProcess, hThread, created) = pi;
          info = info\<lparr>pi_pid := hProcess, pi_tid := hThread\<rparr>;
          info = (case created of None \<Rightarrow> info | Some t \<Rightarrow> info\<lparr>pi_start_time := t\<rparr>);
          info = info\<lparr>
            pi_stdin := (if st_inherit_stdin startup \<or> win_redirected (st_stdin startup)
                         then NULL_HANDLE else pwrite pstdin),
            pi_stdout := (if st_inherit_stdout startup \<or> win_redirected (st_stdout startup)
                          then NULL_HANDLE else pread pstdout),
            pi_stderr := (if st_merge_outputs startup \<or> st_inherit_stderr startup \<or> win_redirected (st_stderr startup)
                          then NULL_HANDLE else pread pstderr)\<rparr>
      in (info, tab))"

text \<open>The object numbers of processes and threads do not matter here.\<close>

definition win_create_process_impl ::
  "win_env \<Rightarrow> process_startup \<Rightarrow> process_info \<Rightarrow> fds \<Rightarrow> fds \<Rightarrow> fds \<Rightarrow> handles \<Rightarrow>
   (exn + process_info \<times> win_child) \<times> handles" where
  "win_create_process_impl E startup info pstdin pstdout pstderr tab0 =
     (case si_stdin E startup pstdin tab0 of
        (Inl e, tab1) \<Rightarrow> (Inl e, tab1)
      | (Inr h_in, tab1) \<Rightarrow>
     (case si_stdout E startup pstdout tab1 of
        (Inl e, tab2) \<Rightarrow> (Inl e, tab2)
      | (Inr h_out, tab2) \<Rightarrow>
     (case si_stderr E startup h_out pstderr tab2 of
        (Inl e, tab3) \<Rightarrow> (Inl e, tab3)
      | (Inr h_err, tab3) \<Rightarrow>
          let command = build_cmdline (st_cmdline startup)
          in case win_envs (we_sort E) (we_order E) (we_parent_env E) startup of
               Inl e \<Rightarrow> (Inl e, tab3)
             | Inr envs \<Rightarrow>
                 let creation_flags =
                       (if st_inherit_stdin startup \<or> st_inherit_stdout startup \<or> st_inherit_stderr startup
                        then 0 else CREATE_NO_WINDOW)
                 in case we_process E tab3 (cmd_buf (st_cmdline startup)) creation_flags envs (st_cwd startup) of
                      None \<Rightarrow>
                        (Inl (Runtime_error (''unable to fork subprocess (command: '' @ command @
                                '', error code: '' @ dec_int (we_last_error E) @ '')'')), tab3)
                    | Some (hProcess, hThread, created) \<Rightarrow>
                        let child = \<lparr>wc_stdin = h_in, wc_stdout = h_out, wc_stderr = h_err,
                              wc_handles = inherited tab3, wc_cmdline = c_str (cmd_buf (st_cmdline startup)),
                              wc_envs = envs, wc_flags = creation_flags\<rparr>;
                            tab4 = tab3(hProcess \<mapsto> \<lparr>h_obj = Other 0, h_inherit = False\<rparr>,
                                        hThread \<mapsto> \<lparr>h_obj = Other 1, h_inherit = False\<rparr>);
                            (info', tab5) = win_parent_success startup info (hProcess, hThread, created)
                                              pstdin pstdout pstderr tab4
                        in (Inr (info', child), tab5))))"

definition win_rollback :: "process_startup \<Rightarrow> fds \<Rightarrow> fds \<Rightarrow> fds \<Rightarrow> handles \<Rightarrow> handles" where
  "win_rollback startup pstdin pstdout pstderr tab =
     (let tab = (if \<not> st_inherit_stdin startup \<and> \<not> win_redirected (st_stdin startup)
                 then snd (win_close_pipe pstdin tab) else tab);
          tab = (if \<not> st_inherit_stdout startup \<and> \<not> win_redirected (st_stdout startup)
                 then snd (win_close_pipe pstdout tab) else tab)
      in if \<not> st_inherit_stderr startup \<and> \<not> st_merge_outputs startup \<and> \<not> win_redirected (st_stderr startup)
         then snd (win_close_pipe pstderr tab) else tab)"

definition win_create_process ::
  "win_env \<Rightarrow> process_startup \<Rightarrow> process_info \<Rightarrow> win \<Rightarrow> (exn + process_info \<times> win_child) \<times> win" where
  "win_create_process E startup info s0 =
     (let (ok_in, pstdin, s1) =
            (if \<not> st_inherit_stdin startup
             then win_redirect_or_pipe E (st_stdin startup) win_no_fds s0 else (True, win_no_fds, s0))
      in if \<not> ok_in then (Inl (Runtime_error ''unable to bind stdin''), s1)
         else
      let (ok_out, pstdout, s2) =
            (if \<not> st_inherit_stdout startup
             then win_redirect_or_pipe E (st_stdout startup) win_no_fds s1 else (True, win_no_fds, s1))
      in if \<not> ok_out then
           (Inl (Runtime_error ''unable to bind stdout''),
            s2\<lparr>w_handles := (if \<not> st_inherit_stdin startup then snd (win_close_pipe pstdin (w_handles s2))
                             else w_handles s2)\<rparr>)
         else
      let (ok_err, pstderr, s3) =
            (if \<not> st_merge_outputs startup \<and> \<not> st_inherit_stderr startup
             then win_redirect_or_pipe E (st_stderr startup) win_no_fds s2 else (True, win_no_fds, s2))
      in if \<not> ok_err then
           (let tab = (if \<not> st_inherit_stdin startup then snd (win_close_pipe pstdin (w_handles s3)) else w_handles s3)
            in (Inl (Runtime_error ''unable to bind stderr''),
                s3\<lparr>w_handles := (if \<not> st_inherit_stdout startup then snd (win_close_pipe pstdout tab) else tab)\<rparr>))
         else
           (case win_create_process_impl E startup info pstdin pstdout pstderr (w_handles s3) of
              (Inr r, tab) \<Rightarrow> (Inr r, s3\<lparr>w_handles := tab\<rparr>)
            | (Inl e, tab) \<Rightarrow> (Inl e, s3\<lparr>w_handles := win_rollback startup pstdin pstdout pstderr tab\<rparr>)))"

definition win_close_process :: "process_info \<Rightarrow> handles \<Rightarrow> process_info \<times> handles" where
  "win_close_process info tab =
     (let (h_pid, tab) = win_close_fd (pi_pid info) tab;
          (h_tid, tab) = win_close_fd (pi_tid info) tab;
          (h_in, tab) = win_close_fd (pi_stdin info) tab;
          (h_out, tab) = win_close_fd (pi_stdout info) tab;
          (h_err, tab) = win_close_fd (pi_stderr info) tab
      in (info\<lparr>pi_pid := h_pid, pi_tid := h_tid, pi_stdin := h_in, pi_stdout := h_out, pi_stderr := h_err\<rparr>, tab))"

section \<open>What the code relies on\<close>

text \<open>New handles are new, distinct, and neither null nor \<open>INVALID_HANDLE_VALUE\<close>.\<close>

locale win_host =
  fixes E :: win_env
  assumes pipe_fresh: "we_pipe E tab = Some (r, w) \<Longrightarrow>
      tab r = None \<and> tab w = None \<and> r \<noteq> w \<and> 0 < r \<and> 0 < w"
    and process_fresh: "we_process E tab cmd flags envs cwd = Some (p, t, c) \<Longrightarrow>
      tab p = None \<and> tab t = None \<and> p \<noteq> t \<and> 0 < p \<and> 0 < t"

text \<open>The handles at the start: the standard handles and the redirect targets are open or absent.\<close>

definition open_handle :: "handles \<Rightarrow> int \<Rightarrow> bool" where
  "open_handle tab h \<longleftrightarrow> (if h = NULL_HANDLE \<or> h = INVALID_HANDLE_VALUE then tab h = None else tab h \<noteq> None)"

definition win_ready :: "win_env \<Rightarrow> process_startup \<Rightarrow> handles \<Rightarrow> bool" where
  "win_ready E startup tab \<longleftrightarrow> (\<forall>h \<le> 0. tab h = None) \<and>
     open_handle tab (we_std E STD_INPUT_HANDLE) \<and> open_handle tab (we_std E STD_OUTPUT_HANDLE) \<and>
     open_handle tab (we_std E STD_ERROR_HANDLE) \<and> open_handle tab (target (st_stdin startup)) \<and>
     open_handle tab (target (st_stdout startup)) \<and> open_handle tab (target (st_stderr startup))"

lemma set_inherit_apply:
  "set_inherit x b tab y = (if y = x then map_option (h_inherit_update (\<lambda>_. b)) (tab y) else tab y)"
  by (simp add: set_inherit_def split: option.split)

lemma set_inherit_same: "get_handle_flag h tab = Some b \<Longrightarrow> set_inherit h b tab = tab"
  by (auto simp: get_handle_flag_def fun_eq_iff set_inherit_apply)

lemma set_inherit_absent: "tab h = None \<Longrightarrow> set_inherit h b tab = tab"
  by (simp add: set_inherit_def)

text \<open>The handle whose flag a stream changes, and the value it gets.\<close>

definition handle_mark :: "win_env \<Rightarrow> bool \<Rightarrow> redirect_info \<Rightarrow> int \<Rightarrow> int \<Rightarrow> int \<times> bool" where
  "handle_mark E inh redirect std own =
     (if inh then (we_std E std, True) else if win_redirected redirect then (target redirect, True)
      else (own, False))"

lemma ensure_inheritable_ok:
  assumes "ensure_handle_inheritable E h name tab = (Inr u, tab')" and "\<forall>h \<le> 0. tab h = None"
  shows "tab' = set_inherit h True tab"
  using assms
  by (auto simp: ensure_handle_inheritable_def set_handle_flag_def set_inherit_same set_inherit_absent
    split: if_splits option.splits)

lemma redirect_inheritable_ok:
  assumes "redirect_inheritable E h name tab = (Inr u, tab')"
  shows "tab' = set_inherit h True tab \<and> tab h \<noteq> None"
  using assms
  by (auto simp: redirect_inheritable_def set_handle_flag_def set_inherit_same get_handle_flag_def Let_def
    split: if_splits option.splits)

lemma bind_handle_ok:
  assumes "bind_handle E inh redirect std name handle own tab = (Inr x, tab')" and "\<forall>h \<le> 0. tab h = None"
    and "win_redirected redirect \<Longrightarrow> \<not> inh \<Longrightarrow> handle = target redirect"
  shows "tab' = set_inherit (fst (handle_mark E inh redirect std own)) (snd (handle_mark E inh redirect std own)) tab \<and>
    x = (if inh then we_std E std else if win_redirected redirect then target redirect else handle)"
  using assms ensure_inheritable_ok[of E "we_std E std" name tab] redirect_inheritable_ok[of E handle name tab]
  by (auto simp: bind_handle_def handle_mark_def set_handle_flag_def split: if_splits sum.splits prod.splits)

text \<open>Opening a stream.\<close>

definition win_open :: "win_env \<Rightarrow> bool \<Rightarrow> redirect_info \<Rightarrow> win \<Rightarrow> bool \<times> fds \<times> win" where
  "win_open E inh r s = (if \<not> inh then win_redirect_or_pipe E r win_no_fds s else (True, win_no_fds, s))"

context win_host
begin

lemma open_cases:
  assumes "win_open E inh r s = (True, p, s')"
  shows "if inh \<or> win_redirected r then s' = s \<and> (\<not> inh \<longrightarrow> pread p = target r \<and> pwrite p = target r)
    else w_handles s (pread p) = None \<and> w_handles s (pwrite p) = None \<and> pread p \<noteq> pwrite p \<and>
      0 < pread p \<and> 0 < pwrite p \<and> w_npipe s' = Suc (w_npipe s) \<and>
      w_handles s' = (w_handles s)(pread p \<mapsto> \<lparr>h_obj = Pipe_R (w_npipe s), h_inherit = True\<rparr>,
                                   pwrite p \<mapsto> \<lparr>h_obj = Pipe_W (w_npipe s), h_inherit = True\<rparr>)"
  using assms pipe_fresh
  by (auto simp: win_open_def win_redirect_or_pipe_def win_create_pipe_def split: if_splits option.splits prod.splits)

end

definition demo_win :: win_env where
  "demo_win = \<lparr>
     we_pipe = (\<lambda>tab. case filter (\<lambda>h. tab h = None) [4, 8, 12, 16, 20, 24, 28] of r # w # _ \<Rightarrow> Some (r, w) | _ \<Rightarrow> None),
     we_process = (\<lambda>tab cmd flags envs cwd.
       case filter (\<lambda>h. tab h = None) [32, 36, 40] of p # t # _ \<Rightarrow> Some (p, t, Some 99) | _ \<Rightarrow> None),
     we_std = (\<lambda>n. if n = STD_ERROR_HANDLE then 28 else 0), we_refuses = (\<lambda>h. False), we_last_error = 6,
     we_parent_env = None, we_sort = id, we_order = id\<rparr>"

lemma filter_two:
  assumes "filter P xs = a # b # rest" and "distinct xs"
  shows "P a \<and> P b \<and> a \<noteq> b \<and> a \<in> set xs \<and> b \<in> set xs"
proof -
  have "{a, b} \<subseteq> set (filter P xs)" using assms(1) by simp
  moreover have "a \<noteq> b" using distinct_filter[OF assms(2), of P] assms(1) by simp
  ultimately show ?thesis by auto
qed

interpretation dw: win_host demo_win
proof
  fix tab r w
  assume "we_pipe demo_win tab = Some (r, w)"
  then obtain rest where "filter (\<lambda>h. tab h = None) [4, 8, 12, 16, 20, 24, 28] = r # w # rest"
    by (auto simp: demo_win_def simp del: filter.simps split: list.splits)
  from filter_two[OF this] show "tab r = None \<and> tab w = None \<and> r \<noteq> w \<and> 0 < r \<and> 0 < w" by auto
next
  fix tab cmd flags envs cwd p t c
  assume "we_process demo_win tab cmd flags envs cwd = Some (p, t, c)"
  then obtain rest where "filter (\<lambda>h. tab h = None) [32, 36, 40] = p # t # rest"
    by (auto simp: demo_win_def simp del: filter.simps split: list.splits)
  from filter_two[OF this] show "tab p = None \<and> tab t = None \<and> p \<noteq> t \<and> 0 < p \<and> 0 < t" by auto
qed

section \<open>A successful start\<close>

text \<open>The arrays, the table when \<open>CreateProcess\<close> runs, and what becomes of it.\<close>

lemma create_process_unfold:
  "win_create_process E startup info s0 =
     (let (ok_in, pstdin, s1) = win_open E (st_inherit_stdin startup) (st_stdin startup) s0
      in if \<not> ok_in then (Inl (Runtime_error ''unable to bind stdin''), s1)
         else
      let (ok_out, pstdout, s2) = win_open E (st_inherit_stdout startup) (st_stdout startup) s1
      in if \<not> ok_out then
           (Inl (Runtime_error ''unable to bind stdout''),
            s2\<lparr>w_handles := (if \<not> st_inherit_stdin startup then snd (win_close_pipe pstdin (w_handles s2))
                             else w_handles s2)\<rparr>)
         else
      let (ok_err, pstderr, s3) =
            win_open E (st_merge_outputs startup \<or> st_inherit_stderr startup) (st_stderr startup) s2
      in if \<not> ok_err then
           (let tab = (if \<not> st_inherit_stdin startup then snd (win_close_pipe pstdin (w_handles s3)) else w_handles s3)
            in (Inl (Runtime_error ''unable to bind stderr''),
                s3\<lparr>w_handles := (if \<not> st_inherit_stdout startup then snd (win_close_pipe pstdout tab) else tab)\<rparr>))
         else
           (case win_create_process_impl E startup info pstdin pstdout pstderr (w_handles s3) of
              (Inr r, tab) \<Rightarrow> (Inr r, s3\<lparr>w_handles := tab\<rparr>)
            | (Inl e, tab) \<Rightarrow> (Inl e, s3\<lparr>w_handles := win_rollback startup pstdin pstdout pstderr tab\<rparr>)))"
  unfolding win_create_process_def win_open_def de_Morgan_disj ..

lemma create_process_InrD:
  assumes "win_create_process E startup info s0 = (Inr (info', ch), s')"
  obtains pin pout perr s1 s2 s3 tab where
    "win_open E (st_inherit_stdin startup) (st_stdin startup) s0 = (True, pin, s1)"
    "win_open E (st_inherit_stdout startup) (st_stdout startup) s1 = (True, pout, s2)"
    "win_open E (st_merge_outputs startup \<or> st_inherit_stderr startup) (st_stderr startup) s2 = (True, perr, s3)"
    "win_create_process_impl E startup info pin pout perr (w_handles s3) = (Inr (info', ch), tab)"
    "s' = s3\<lparr>w_handles := tab\<rparr>"
  using assms unfolding create_process_unfold
  by (auto simp: Let_def split: prod.splits if_splits sum.splits)

definition impl_marks :: "win_env \<Rightarrow> process_startup \<Rightarrow> fds \<Rightarrow> fds \<Rightarrow> fds \<Rightarrow> handles \<Rightarrow> handles" where
  "impl_marks E startup pin pout perr tab =
     (let m1 = handle_mark E (st_inherit_stdin startup) (st_stdin startup) STD_INPUT_HANDLE (pwrite pin);
          m2 = handle_mark E (st_inherit_stdout startup) (st_stdout startup) STD_OUTPUT_HANDLE (pread pout);
          m3 = handle_mark E (st_inherit_stderr startup) (st_stderr startup) STD_ERROR_HANDLE (pread perr);
          tab2 = set_inherit (fst m2) (snd m2) (set_inherit (fst m1) (snd m1) tab)
      in if st_merge_outputs startup then tab2 else set_inherit (fst m3) (snd m3) tab2)"

definition child_handle :: "win_env \<Rightarrow> bool \<Rightarrow> redirect_info \<Rightarrow> int \<Rightarrow> int \<Rightarrow> int" where
  "child_handle E inh r std h = (if inh then we_std E std else if win_redirected r then target r else h)"

lemma impl_InrD:
  assumes "win_create_process_impl E startup info pin pout perr tab = (Inr (info', ch), tab')"
    and "\<forall>h \<le> 0. tab h = None"
    and "win_redirected (st_stdin startup) \<Longrightarrow> \<not> st_inherit_stdin startup \<Longrightarrow> pread pin = target (st_stdin startup)"
    and "win_redirected (st_stdout startup) \<Longrightarrow> \<not> st_inherit_stdout startup \<Longrightarrow> pwrite pout = target (st_stdout startup)"
    and "win_redirected (st_stderr startup) \<Longrightarrow> \<not> st_merge_outputs startup \<Longrightarrow> \<not> st_inherit_stderr startup \<Longrightarrow>
      pwrite perr = target (st_stderr startup)"
  obtains hp ht created where
    "we_process E (impl_marks E startup pin pout perr tab) (cmd_buf (st_cmdline startup)) (wc_flags ch) (wc_envs ch)
       (st_cwd startup) = Some (hp, ht, created)"
    "win_envs (we_sort E) (we_order E) (we_parent_env E) startup = Inr (wc_envs ch)"
    "wc_cmdline ch = c_str (cmd_buf (st_cmdline startup))"
    "wc_handles ch = inherited (impl_marks E startup pin pout perr tab)"
    "wc_stdin ch = child_handle E (st_inherit_stdin startup) (st_stdin startup) STD_INPUT_HANDLE (pread pin)"
    "wc_stdout ch = child_handle E (st_inherit_stdout startup) (st_stdout startup) STD_OUTPUT_HANDLE (pwrite pout)"
    "wc_stderr ch = (if st_merge_outputs startup then wc_stdout ch
       else child_handle E (st_inherit_stderr startup) (st_stderr startup) STD_ERROR_HANDLE (pwrite perr))"
    "(info', tab') = win_parent_success startup info (hp, ht, created) pin pout perr
       ((impl_marks E startup pin pout perr tab)(hp \<mapsto> \<lparr>h_obj = Other 0, h_inherit = False\<rparr>,
          ht \<mapsto> \<lparr>h_obj = Other 1, h_inherit = False\<rparr>))"
proof -
  from assms(1) obtain h1 t1 where 1: "si_stdin E startup pin tab = (Inr h1, t1)"
    by (auto simp: win_create_process_impl_def split: prod.splits sum.splits)
  from assms(1) 1 obtain h2 t2 where 2: "si_stdout E startup pout t1 = (Inr h2, t2)"
    by (auto simp: win_create_process_impl_def split: prod.splits sum.splits)
  from assms(1) 1 2 obtain h3 t3 where 3: "si_stderr E startup h2 perr t2 = (Inr h3, t3)"
    by (auto simp: win_create_process_impl_def split: prod.splits sum.splits)
  note b1 = bind_handle_ok[OF 1[unfolded si_stdin_def] assms(2,3)]
  have n1: "\<forall>h \<le> 0. t1 h = None" using b1 assms(2) by (simp add: set_inherit_apply)
  note b2 = bind_handle_ok[OF 2[unfolded si_stdout_def] n1 assms(4)]
  have n2: "\<forall>h \<le> 0. t2 h = None" using b2 n1 by (simp add: set_inherit_apply)
  have t3: "t3 = impl_marks E startup pin pout perr tab \<and>
    h3 = (if st_merge_outputs startup then h2
      else child_handle E (st_inherit_stderr startup) (st_stderr startup) STD_ERROR_HANDLE (pwrite perr))"
  proof (cases "st_merge_outputs startup")
    case True
    with 3 b1 b2 show ?thesis by (simp add: si_stderr_def impl_marks_def Let_def)
  next
    case False
    with 3 have "bind_handle E (st_inherit_stderr startup) (st_stderr startup) STD_ERROR_HANDLE ''stderr''
        (pwrite perr) (pread perr) t2 = (Inr h3, t3)" by (simp add: si_stderr_def)
    from bind_handle_ok[OF this n2 assms(5)] False b1 b2 show ?thesis
      by (simp add: impl_marks_def Let_def child_handle_def)
  qed
  have "h1 = child_handle E (st_inherit_stdin startup) (st_stdin startup) STD_INPUT_HANDLE (pread pin)"
    "h2 = child_handle E (st_inherit_stdout startup) (st_stdout startup) STD_OUTPUT_HANDLE (pwrite pout)"
    using b1 b2 by (simp_all add: child_handle_def)
  with t3 assms(1) 1 2 3 show ?thesis
    by (auto simp: win_create_process_impl_def Let_def split: sum.splits option.splits prod.splits intro: that)
qed

section \<open>The handles after a start\<close>

definition piped :: "bool \<Rightarrow> redirect_info \<Rightarrow> bool" where
  "piped inh r \<longleftrightarrow> \<not> inh \<and> \<not> win_redirected r"

definition ends :: "bool \<Rightarrow> redirect_info \<Rightarrow> fds \<Rightarrow> int set" where
  "ends inh r p = (if piped inh r then {pread p, pwrite p} else {})"

definition mark_all :: "(int \<times> bool) list \<Rightarrow> handles \<Rightarrow> handles" where
  "mark_all ms tab = foldl (\<lambda>t m. set_inherit (fst m) (snd m) t) tab ms"

lemma mark_all_same:
  "\<forall>m \<in> set ms. fst m = y \<longrightarrow> snd m = b \<Longrightarrow>
   mark_all ms tab y = (if y \<in> fst ` set ms then map_option (h_inherit_update (\<lambda>_. b)) (tab y) else tab y)"
proof (induction ms arbitrary: tab)
  case (Cons m ms)
  have "mark_all (m # ms) tab = mark_all ms (set_inherit (fst m) (snd m) tab)" by (simp add: mark_all_def)
  with Cons show ?case by (cases "tab y") (auto simp: set_inherit_apply)
qed (simp add: mark_all_def)

definition marks :: "win_env \<Rightarrow> process_startup \<Rightarrow> fds \<Rightarrow> fds \<Rightarrow> fds \<Rightarrow> (int \<times> bool) list" where
  "marks E startup pin pout perr =
     [handle_mark E (st_inherit_stdin startup) (st_stdin startup) STD_INPUT_HANDLE (pwrite pin),
      handle_mark E (st_inherit_stdout startup) (st_stdout startup) STD_OUTPUT_HANDLE (pread pout)] @
     (if st_merge_outputs startup then []
      else [handle_mark E (st_inherit_stderr startup) (st_stderr startup) STD_ERROR_HANDLE (pread perr)])"

lemma impl_marks_eq: "impl_marks E startup pin pout perr tab = mark_all (marks E startup pin pout perr) tab"
  by (simp add: impl_marks_def mark_all_def marks_def Let_def)

lemma objs_mark_all: "map_option h_obj (mark_all ms tab y) = map_option h_obj (tab y)"
proof (induction ms arbitrary: tab)
  case (Cons m ms)
  have "mark_all (m # ms) tab = mark_all ms (set_inherit (fst m) (snd m) tab)" by (simp add: mark_all_def)
  with Cons show ?case by (cases "tab y") (auto simp: set_inherit_apply)
qed (simp add: mark_all_def)

text \<open>The three streams, with standard error closed to its own pipe when it is merged.\<close>

abbreviation inh_err :: "process_startup \<Rightarrow> bool" where
  "inh_err startup \<equiv> st_merge_outputs startup \<or> st_inherit_stderr startup"

definition new_ends :: "process_startup \<Rightarrow> fds \<Rightarrow> fds \<Rightarrow> fds \<Rightarrow> int set" where
  "new_ends startup pin pout perr = ends (st_inherit_stdin startup) (st_stdin startup) pin \<union>
     ends (st_inherit_stdout startup) (st_stdout startup) pout \<union> ends (inh_err startup) (st_stderr startup) perr"

definition pipe_at :: "handles \<Rightarrow> bool \<Rightarrow> redirect_info \<Rightarrow> fds \<Rightarrow> bool" where
  "pipe_at tab inh r p \<longleftrightarrow> (piped inh r \<longrightarrow> pread p \<noteq> pwrite p \<and>
     (\<exists>n. tab (pread p) = Some \<lparr>h_obj = Pipe_R n, h_inherit = True\<rparr> \<and>
          tab (pwrite p) = Some \<lparr>h_obj = Pipe_W n, h_inherit = True\<rparr>))"

context win_host
begin

lemma open_step:
  assumes "win_open E inh r s = (True, p, s')"
  shows "(\<forall>y \<in> ends inh r p. w_handles s y = None \<and> 0 < y) \<and>
    (\<forall>y. y \<notin> ends inh r p \<longrightarrow> w_handles s' y = w_handles s y) \<and> pipe_at (w_handles s') inh r p"
  using open_cases[OF assms] by (auto simp: ends_def piped_def pipe_at_def split: if_splits)

lemma pipe_at_later: "pipe_at tab inh r p \<Longrightarrow> \<forall>y \<in> ends inh r p. tab' y = tab y \<Longrightarrow> pipe_at tab' inh r p"
  by (auto simp: pipe_at_def ends_def)

lemma ends_open: "pipe_at tab inh r p \<Longrightarrow> y \<in> ends inh r p \<Longrightarrow> tab y \<noteq> None"
  by (auto simp: pipe_at_def ends_def split: if_splits)

lemma opened:
  assumes "win_open E (st_inherit_stdin startup) (st_stdin startup) s0 = (True, pin, s1)"
    and "win_open E (st_inherit_stdout startup) (st_stdout startup) s1 = (True, pout, s2)"
    and "win_open E (inh_err startup) (st_stderr startup) s2 = (True, perr, s3)"
  shows "(\<forall>y \<in> new_ends startup pin pout perr. w_handles s0 y = None \<and> 0 < y)"
    and "(\<forall>y. y \<notin> new_ends startup pin pout perr \<longrightarrow> w_handles s3 y = w_handles s0 y)"
    and "pipe_at (w_handles s3) (st_inherit_stdin startup) (st_stdin startup) pin"
    and "pipe_at (w_handles s3) (st_inherit_stdout startup) (st_stdout startup) pout"
    and "pipe_at (w_handles s3) (inh_err startup) (st_stderr startup) perr"
    and "ends (st_inherit_stdin startup) (st_stdin startup) pin \<inter>
      ends (st_inherit_stdout startup) (st_stdout startup) pout = {}"
    and "ends (st_inherit_stdin startup) (st_stdin startup) pin \<inter> ends (inh_err startup) (st_stderr startup) perr = {}"
    and "ends (st_inherit_stdout startup) (st_stdout startup) pout \<inter> ends (inh_err startup) (st_stderr startup) perr = {}"
proof -
  let ?i = "ends (st_inherit_stdin startup) (st_stdin startup) pin"
  let ?o = "ends (st_inherit_stdout startup) (st_stdout startup) pout"
  let ?e = "ends (inh_err startup) (st_stderr startup) perr"
  note 1 = open_step[OF assms(1)] and 2 = open_step[OF assms(2)] and 3 = open_step[OF assms(3)]
  have o1: "w_handles s1 y \<noteq> None" if "y \<in> ?i" for y using 1 ends_open[OF _ that] by blast
  then have io: "?i \<inter> ?o = {}" using 2 by blast
  have i2: "w_handles s2 y = w_handles s1 y" if "y \<in> ?i" for y using 2 io that by blast
  have o2: "w_handles s2 y \<noteq> None" if "y \<in> ?i \<union> ?o" for y
    using o1 i2 2 ends_open[of "w_handles s2" "st_inherit_stdout startup" "st_stdout startup" pout y] that
    by (metis Un_iff)
  then have e: "?i \<inter> ?e = {}" "?o \<inter> ?e = {}" using 3 by blast+
  show "?i \<inter> ?o = {}" "?i \<inter> ?e = {}" "?o \<inter> ?e = {}" using io e by blast+
  have s0o: "w_handles s0 y = None \<and> 0 < y" if "y \<in> ?o" for y
    using 1 2 that io by (metis IntI empty_iff)
  have "w_handles s0 y = None \<and> 0 < y" if y: "y \<in> ?e" for y
  proof -
    have "w_handles s2 y = None" "0 < y" using 3 y by blast+
    moreover have "y \<notin> ?o" "y \<notin> ?i" using e y by blast+
    ultimately show ?thesis using 1 2 by metis
  qed
  then show "\<forall>y \<in> new_ends startup pin pout perr. w_handles s0 y = None \<and> 0 < y"
    using 1 s0o by (auto simp: new_ends_def)
  show "\<forall>y. y \<notin> new_ends startup pin pout perr \<longrightarrow> w_handles s3 y = w_handles s0 y"
    using 1 2 3 by (simp add: new_ends_def)
  show "pipe_at (w_handles s3) (inh_err startup) (st_stderr startup) perr" using 3 by blast
  show "pipe_at (w_handles s3) (st_inherit_stdout startup) (st_stdout startup) pout"
    by (rule pipe_at_later[of "w_handles s2"]) (use 2 3 e in blast)+
  show "pipe_at (w_handles s3) (st_inherit_stdin startup) (st_stdin startup) pin"
  proof (rule pipe_at_later[of "w_handles s1"])
    show "\<forall>y \<in> ?i. w_handles s3 y = w_handles s1 y" using i2 3 e by (metis IntI empty_iff)
  qed (use 1 in blast)
qed

end

text \<open>
  How a stream of the child is connected: \<open>h\<close> is the child's handle and \<open>kept\<close> what the
  parent records.
\<close>

definition win_connected ::
  "win_env \<Rightarrow> handles \<Rightarrow> handles \<Rightarrow> win_child \<Rightarrow> bool \<Rightarrow> redirect_info \<Rightarrow> int \<Rightarrow> bool \<Rightarrow> int \<Rightarrow> int \<Rightarrow> bool" where
  "win_connected E before after ch inh r std reads h kept \<longleftrightarrow>
     (if inh then h = we_std E std \<and> kept = NULL_HANDLE \<and>
        (\<forall>e. before h = Some e \<longrightarrow> wc_handles ch h = Some (e\<lparr>h_inherit := True\<rparr>))
      else if win_redirected r then h = target r \<and> kept = NULL_HANDLE \<and>
        (\<forall>e. before h = Some e \<longrightarrow> wc_handles ch h = Some (e\<lparr>h_inherit := True\<rparr>) \<and>
               after h = Some (e\<lparr>h_inherit := True\<rparr>))
      else before h = None \<and> before kept = None \<and> after h = None \<and> wc_handles ch kept = None \<and>
        (\<exists>n. wc_handles ch h = Some \<lparr>h_obj = (if reads then Pipe_R n else Pipe_W n), h_inherit = True\<rparr> \<and>
             after kept = Some \<lparr>h_obj = (if reads then Pipe_W n else Pipe_R n), h_inherit = False\<rparr>))"

definition closed_ends :: "process_startup \<Rightarrow> fds \<Rightarrow> fds \<Rightarrow> fds \<Rightarrow> int set" where
  "closed_ends startup pin pout perr =
     (if piped (st_inherit_stdin startup) (st_stdin startup) then {pread pin} else {}) \<union>
     (if piped (st_inherit_stdout startup) (st_stdout startup) then {pwrite pout} else {}) \<union>
     (if piped (inh_err startup) (st_stderr startup) then {pwrite perr} else {})"

lemma win_close_if:
  "(b \<Longrightarrow> h \<noteq> NULL_HANDLE) \<Longrightarrow>
   (if b then snd (win_close_fd h tab) else tab) = (\<lambda>y. if b \<and> y = h then None else tab y)"
  by (auto simp: win_close_fd_def fun_eq_iff)

lemma parent_success_eq:
  assumes "(info', tab') = win_parent_success startup info (hp, ht, created) pin pout perr tab"
    and "\<forall>y \<in> new_ends startup pin pout perr. 0 < y"
  shows "tab' = (\<lambda>y. if y \<in> closed_ends startup pin pout perr then None else tab y) \<and>
    pi_pid info' = hp \<and> pi_tid info' = ht \<and>
    pi_stdin info' = (if piped (st_inherit_stdin startup) (st_stdin startup) then pwrite pin else NULL_HANDLE) \<and>
    pi_stdout info' = (if piped (st_inherit_stdout startup) (st_stdout startup) then pread pout else NULL_HANDLE) \<and>
    pi_stderr info' = (if piped (inh_err startup) (st_stderr startup) then pread perr else NULL_HANDLE)"
proof -
  have nz: "piped (st_inherit_stdin startup) (st_stdin startup) \<Longrightarrow> pread pin \<noteq> 0"
    "piped (st_inherit_stdout startup) (st_stdout startup) \<Longrightarrow> pwrite pout \<noteq> 0"
    "piped (inh_err startup) (st_stderr startup) \<Longrightarrow> pwrite perr \<noteq> 0"
    using assms(2) by (auto simp: new_ends_def ends_def)
  let ?p1 = "piped (st_inherit_stdin startup) (st_stdin startup)"
    and ?p2 = "piped (st_inherit_stdout startup) (st_stdout startup)"
    and ?p3 = "piped (inh_err startup) (st_stderr startup)"
  let ?t1 = "if ?p1 then snd (win_close_fd (pread pin) tab) else tab"
  let ?t2 = "if ?p2 then snd (win_close_fd (pwrite pout) ?t1) else ?t1"
  have "tab' = (if ?p3 then snd (win_close_fd (pwrite perr) ?t2) else ?t2)"
    using assms(1) by (simp add: win_parent_success_def Let_def piped_def conj_ac)
  then have "tab' = (\<lambda>y. if y \<in> closed_ends startup pin pout perr then None else tab y)"
    using win_close_if[of ?p1 "pread pin" tab] win_close_if[of ?p2 "pwrite pout" ?t1]
      win_close_if[of ?p3 "pwrite perr" ?t2] nz
    by (simp only: simp_thms) (auto simp: fun_eq_iff closed_ends_def)
  with assms(1) show ?thesis
    by (auto simp: win_parent_success_def Let_def piped_def split: option.splits)
qed

text \<open>What a start has done to the handles, with the ends of the pipes and the handles of the process.\<close>

definition started_as ::
  "win_env \<Rightarrow> process_startup \<Rightarrow> handles \<Rightarrow> handles \<Rightarrow> fds \<Rightarrow> fds \<Rightarrow> fds \<Rightarrow> int \<Rightarrow> int \<Rightarrow> win_child \<Rightarrow> handles \<Rightarrow> bool" where
  "started_as E startup tab t3 pin pout perr hp ht ch tab' \<longleftrightarrow>
     (\<forall>y \<in> new_ends startup pin pout perr. tab y = None \<and> 0 < y) \<and>
     (\<forall>y. y \<notin> new_ends startup pin pout perr \<longrightarrow> t3 y = tab y) \<and>
     pipe_at t3 (st_inherit_stdin startup) (st_stdin startup) pin \<and>
     pipe_at t3 (st_inherit_stdout startup) (st_stdout startup) pout \<and>
     pipe_at t3 (inh_err startup) (st_stderr startup) perr \<and>
     ends (st_inherit_stdin startup) (st_stdin startup) pin \<inter> ends (st_inherit_stdout startup) (st_stdout startup) pout = {} \<and>
     ends (st_inherit_stdin startup) (st_stdin startup) pin \<inter> ends (inh_err startup) (st_stderr startup) perr = {} \<and>
     ends (st_inherit_stdout startup) (st_stdout startup) pout \<inter> ends (inh_err startup) (st_stderr startup) perr = {} \<and>
     t3 hp = None \<and> t3 ht = None \<and>
     wc_handles ch = inherited (mark_all (marks E startup pin pout perr) t3) \<and>
     tab' = (\<lambda>y. if y \<in> closed_ends startup pin pout perr then None
       else if y = ht then Some \<lparr>h_obj = Other 1, h_inherit = False\<rparr>
       else if y = hp then Some \<lparr>h_obj = Other 0, h_inherit = False\<rparr>
       else mark_all (marks E startup pin pout perr) t3 y)"

text \<open>One stream, given which end of its pipe is the child's (\<open>h\<close>) and which the parent's (\<open>k\<close>).\<close>

definition pipe_ends ::
  "win_env \<Rightarrow> process_startup \<Rightarrow> handles \<Rightarrow> fds \<Rightarrow> fds \<Rightarrow> fds \<Rightarrow> bool \<Rightarrow> int \<Rightarrow> int \<Rightarrow> bool" where
  "pipe_ends E startup t3 pin pout perr reads h k \<longleftrightarrow>
     h \<in> closed_ends startup pin pout perr \<and> h \<notin> fst ` set (marks E startup pin pout perr) \<and>
     k \<in> new_ends startup pin pout perr \<and> k \<notin> closed_ends startup pin pout perr \<and>
     (\<exists>n. t3 h = Some \<lparr>h_obj = (if reads then Pipe_R n else Pipe_W n), h_inherit = True\<rparr> \<and>
          t3 k = Some \<lparr>h_obj = (if reads then Pipe_W n else Pipe_R n), h_inherit = True\<rparr>)"

context win_host
begin

text \<open>Everything about a successful start, in terms of the table when \<open>CreateProcess\<close> runs.\<close>

lemma started:
  assumes "win_create_process E startup info s0 = (Inr (info', ch), s')"
    and "win_ready E startup (w_handles s0)"
  obtains pin pout perr t3 hp ht where
    "started_as E startup (w_handles s0) t3 pin pout perr hp ht ch (w_handles s')" "hp \<noteq> ht" "0 < hp" "0 < ht"
    "pi_pid info' = hp" "pi_tid info' = ht"
    "pi_stdin info' = (if piped (st_inherit_stdin startup) (st_stdin startup) then pwrite pin else NULL_HANDLE)"
    "pi_stdout info' = (if piped (st_inherit_stdout startup) (st_stdout startup) then pread pout else NULL_HANDLE)"
    "pi_stderr info' = (if piped (inh_err startup) (st_stderr startup) then pread perr else NULL_HANDLE)"
    "wc_cmdline ch = c_str (cmd_buf (st_cmdline startup))"
    "wc_stdin ch = child_handle E (st_inherit_stdin startup) (st_stdin startup) STD_INPUT_HANDLE (pread pin)"
    "wc_stdout ch = child_handle E (st_inherit_stdout startup) (st_stdout startup) STD_OUTPUT_HANDLE (pwrite pout)"
    "wc_stderr ch = (if st_merge_outputs startup then wc_stdout ch
       else child_handle E (st_inherit_stderr startup) (st_stderr startup) STD_ERROR_HANDLE (pwrite perr))"
proof -
  from create_process_InrD[OF assms(1)] obtain pin pout perr s1 s2 s3 tab where
    o: "win_open E (st_inherit_stdin startup) (st_stdin startup) s0 = (True, pin, s1)"
    "win_open E (st_inherit_stdout startup) (st_stdout startup) s1 = (True, pout, s2)"
    "win_open E (inh_err startup) (st_stderr startup) s2 = (True, perr, s3)" and
    i: "win_create_process_impl E startup info pin pout perr (w_handles s3) = (Inr (info', ch), tab)" and
    s': "s' = s3\<lparr>w_handles := tab\<rparr>" by metis
  note op = opened[OF o]
  let ?M = "mark_all (marks E startup pin pout perr) (w_handles s3)"
  have neg: "\<forall>h \<le> 0. w_handles s3 h = None"
  proof (intro allI impI)
    fix h :: int assume "h \<le> 0"
    then have "h \<notin> new_ends startup pin pout perr" using op(1) by fastforce
    with op(2) assms(2) \<open>h \<le> 0\<close> show "w_handles s3 h = None" by (simp add: win_ready_def)
  qed
  have t: "pread pin = target (st_stdin startup)" if "win_redirected (st_stdin startup)" "\<not> st_inherit_stdin startup"
    using open_cases[OF o(1)] that by simp
  have t2: "pwrite pout = target (st_stdout startup)" if "win_redirected (st_stdout startup)" "\<not> st_inherit_stdout startup"
    using open_cases[OF o(2)] that by simp
  have t3: "pwrite perr = target (st_stderr startup)"
    if "win_redirected (st_stderr startup)" "\<not> st_merge_outputs startup" "\<not> st_inherit_stderr startup"
    using open_cases[OF o(3)] that by simp
  from impl_InrD[OF i neg t t2 t3, unfolded impl_marks_eq] obtain hp ht created where
    p: "we_process E ?M (cmd_buf (st_cmdline startup)) (wc_flags ch) (wc_envs ch) (st_cwd startup) = Some (hp, ht, created)"
      "wc_cmdline ch = c_str (cmd_buf (st_cmdline startup))" "wc_handles ch = inherited ?M"
      "wc_stdin ch = child_handle E (st_inherit_stdin startup) (st_stdin startup) STD_INPUT_HANDLE (pread pin)"
      "wc_stdout ch = child_handle E (st_inherit_stdout startup) (st_stdout startup) STD_OUTPUT_HANDLE (pwrite pout)"
      "wc_stderr ch = (if st_merge_outputs startup then wc_stdout ch
       else child_handle E (st_inherit_stderr startup) (st_stderr startup) STD_ERROR_HANDLE (pwrite perr))" and
    ps: "(info', tab) = win_parent_success startup info (hp, ht, created) pin pout perr
       (?M(hp \<mapsto> \<lparr>h_obj = Other 0, h_inherit = False\<rparr>, ht \<mapsto> \<lparr>h_obj = Other 1, h_inherit = False\<rparr>))"
    by metis
  note f = process_fresh[OF p(1)]
  have fr: "w_handles s3 hp = None" "w_handles s3 ht = None"
    using f objs_mark_all[of "marks E startup pin pout perr" "w_handles s3"] by (metis option.map_disc_iff)+
  have "\<forall>y \<in> new_ends startup pin pout perr. 0 < y" using op(1) by blast
  note ps = parent_success_eq[OF ps this]
  have tab: "w_handles s' = (\<lambda>y. if y \<in> closed_ends startup pin pout perr then None
      else if y = ht then Some \<lparr>h_obj = Other 1, h_inherit = False\<rparr>
      else if y = hp then Some \<lparr>h_obj = Other 0, h_inherit = False\<rparr> else ?M y)"
    using ps by (simp add: s' fun_eq_iff)
  have "started_as E startup (w_handles s0) (w_handles s3) pin pout perr hp ht ch (w_handles s')"
    unfolding started_as_def by (intro conjI op fr p(3) tab)
  from that[OF this _ _ _ _ _ _ _ _ p(2) p(4-6)] f ps show ?thesis by simp
qed

end

context win_host
begin

lemma handle_mark_kind:
  assumes "open_handle tab (we_std E std)" and "open_handle tab (target r)"
  shows "snd (handle_mark E inh r std own) \<and>
      (tab (fst (handle_mark E inh r std own)) \<noteq> None \<or> fst (handle_mark E inh r std own) \<le> 0) \<or>
    \<not> snd (handle_mark E inh r std own) \<and> piped inh r \<and> fst (handle_mark E inh r std own) = own"
proof -
  have "tab h \<noteq> None \<or> h \<le> 0" if "open_handle tab h" for h
    using that by (auto simp: open_handle_def split: if_splits)
  from this[OF assms(1)] this[OF assms(2)] show ?thesis by (simp add: handle_mark_def piped_def)
qed

lemma marks_kind:
  assumes "win_ready E startup tab" and "m \<in> set (marks E startup pin pout perr)"
  shows "snd m \<and> (tab (fst m) \<noteq> None \<or> fst m \<le> 0) \<or>
    \<not> snd m \<and> (piped (st_inherit_stdin startup) (st_stdin startup) \<and> fst m = pwrite pin \<or>
      piped (st_inherit_stdout startup) (st_stdout startup) \<and> fst m = pread pout \<or>
      piped (inh_err startup) (st_stderr startup) \<and> fst m = pread perr)"
proof -
  have o: "open_handle tab (we_std E STD_INPUT_HANDLE)" "open_handle tab (target (st_stdin startup))"
    "open_handle tab (we_std E STD_OUTPUT_HANDLE)" "open_handle tab (target (st_stdout startup))"
    "open_handle tab (we_std E STD_ERROR_HANDLE)" "open_handle tab (target (st_stderr startup))"
    using assms(1) by (simp_all add: win_ready_def)
  consider "m = handle_mark E (st_inherit_stdin startup) (st_stdin startup) STD_INPUT_HANDLE (pwrite pin)"
    | "m = handle_mark E (st_inherit_stdout startup) (st_stdout startup) STD_OUTPUT_HANDLE (pread pout)"
    | "m = handle_mark E (st_inherit_stderr startup) (st_stderr startup) STD_ERROR_HANDLE (pread perr)"
      "\<not> st_merge_outputs startup"
    using assms(2) by (cases "st_merge_outputs startup") (auto simp: marks_def)
  then show ?thesis
  proof cases
    case 1
    with handle_mark_kind[OF o(1,2)] show ?thesis by metis
  next
    case 2
    with handle_mark_kind[OF o(3,4)] show ?thesis by metis
  next
    case 3
    then have "piped (inh_err startup) (st_stderr startup) = piped (st_inherit_stderr startup) (st_stderr startup)"
      by (simp add: piped_def)
    with 3 handle_mark_kind[OF o(5,6)] show ?thesis by metis
  qed
qed

text \<open>What the marking does to an old handle, to the parent's ends and to the child's ends.\<close>

lemma marked:
  assumes "win_ready E startup tab"
    and new: "\<forall>y \<in> new_ends startup pin pout perr. tab y = None \<and> 0 < y"
  shows old: "tab y \<noteq> None \<Longrightarrow> t3 y = tab y \<Longrightarrow> y \<in> fst ` set (marks E startup pin pout perr) \<Longrightarrow>
      mark_all (marks E startup pin pout perr) t3 y = map_option (h_inherit_update (\<lambda>_. True)) (tab y)"
    and own: "y \<in> new_ends startup pin pout perr \<Longrightarrow> y \<in> fst ` set (marks E startup pin pout perr) \<Longrightarrow>
      mark_all (marks E startup pin pout perr) t3 y = map_option (h_inherit_update (\<lambda>_. False)) (t3 y)"
    and other: "y \<notin> fst ` set (marks E startup pin pout perr) \<Longrightarrow>
      mark_all (marks E startup pin pout perr) t3 y = t3 y"
proof -
  let ?ms = "marks E startup pin pout perr"
  have n: "piped (st_inherit_stdin startup) (st_stdin startup) \<Longrightarrow> tab (pwrite pin) = None"
    "piped (st_inherit_stdout startup) (st_stdout startup) \<Longrightarrow> tab (pread pout) = None"
    "piped (inh_err startup) (st_stderr startup) \<Longrightarrow> tab (pread perr) = None"
    using new by (auto simp: new_ends_def ends_def)
  show "mark_all ?ms t3 y = map_option (h_inherit_update (\<lambda>_. True)) (tab y)"
    if a: "tab y \<noteq> None" "t3 y = tab y" "y \<in> fst ` set ?ms"
  proof -
    have "\<forall>m \<in> set ?ms. fst m = y \<longrightarrow> snd m = True"
      using marks_kind[OF assms(1)] n a(1) by (metis (no_types, lifting))
    from mark_all_same[OF this] a show ?thesis by simp
  qed
  show "mark_all ?ms t3 y = map_option (h_inherit_update (\<lambda>_. False)) (t3 y)"
    if a: "y \<in> new_ends startup pin pout perr" "y \<in> fst ` set ?ms"
  proof -
    have "tab y = None" "\<not> y \<le> 0" using new a(1) by force+
    then have "\<forall>m \<in> set ?ms. fst m = y \<longrightarrow> snd m = False" using marks_kind[OF assms(1)] by metis
    from mark_all_same[OF this] a show ?thesis by simp
  qed
  show "mark_all ?ms t3 y = t3 y" if "y \<notin> fst ` set ?ms"
    using mark_all_same[of ?ms y True t3] that by force
qed

lemma closed_new: "closed_ends startup pin pout perr \<subseteq> new_ends startup pin pout perr"
  by (auto simp: closed_ends_def new_ends_def ends_def)

lemma started_kept:
  assumes "started_as E startup tab t3 pin pout perr hp ht ch tab'"
    and "t3 y \<noteq> None" and "y \<notin> closed_ends startup pin pout perr"
  shows "tab' y = mark_all (marks E startup pin pout perr) t3 y"
  using assms by (auto simp: started_as_def)

text \<open>An old handle that is marked is inheritable from then on, and the child has it.\<close>

lemma started_old:
  assumes st: "started_as E startup tab t3 pin pout perr hp ht ch tab'" and "win_ready E startup tab"
    and y: "tab y = Some e" "y \<in> fst ` set (marks E startup pin pout perr)"
  shows "wc_handles ch y = Some (e\<lparr>h_inherit := True\<rparr>) \<and> tab' y = Some (e\<lparr>h_inherit := True\<rparr>)"
proof -
  have new: "\<forall>y \<in> new_ends startup pin pout perr. tab y = None \<and> 0 < y" using st by (simp add: started_as_def)
  have "y \<notin> new_ends startup pin pout perr" using bspec[OF new, of y] y(1) by fastforce
  moreover from this have "t3 y = tab y" using st by (simp add: started_as_def)
  moreover have "mark_all (marks E startup pin pout perr) t3 y = Some (e\<lparr>h_inherit := True\<rparr>)"
    using marked(1)[OF assms(2) new, of y t3] \<open>t3 y = tab y\<close> y by simp
  ultimately show ?thesis
    using started_kept[OF st, of y] subsetD[OF closed_new, of y startup pin pout perr] st y(1)
    by (auto simp: started_as_def inherited_def)
qed

text \<open>A pipe: the child's end is not marked and closed in the parent, the parent's end is marked.\<close>

lemma started_pipe:
  assumes st: "started_as E startup tab t3 pin pout perr hp ht ch tab'" and "win_ready E startup tab"
    and h: "h \<in> closed_ends startup pin pout perr" "h \<notin> fst ` set (marks E startup pin pout perr)"
    and k: "k \<in> new_ends startup pin pout perr" "k \<in> fst ` set (marks E startup pin pout perr)"
      "k \<notin> closed_ends startup pin pout perr"
    and t: "t3 h = Some \<lparr>h_obj = oh, h_inherit = True\<rparr>" "t3 k = Some \<lparr>h_obj = ok, h_inherit = True\<rparr>"
  shows "tab h = None \<and> tab k = None \<and> tab' h = None \<and> wc_handles ch k = None \<and>
    wc_handles ch h = Some \<lparr>h_obj = oh, h_inherit = True\<rparr> \<and> tab' k = Some \<lparr>h_obj = ok, h_inherit = False\<rparr>"
proof -
  let ?M = "mark_all (marks E startup pin pout perr) t3"
  have new: "\<forall>y \<in> new_ends startup pin pout perr. tab y = None \<and> 0 < y" using st by (simp add: started_as_def)
  note mk = marked[OF assms(2) new]
  have "?M h = t3 h" using mk(3)[OF h(2)] .
  moreover have "?M k = Some \<lparr>h_obj = ok, h_inherit = False\<rparr>" using mk(2)[OF k(1,2), of t3] t(2) by simp
  moreover have "tab h = None" "tab k = None"
    using bspec[OF new subsetD[OF closed_new h(1)]] bspec[OF new k(1)] by simp_all
  moreover have "tab' h = None" using st h(1) by (simp add: started_as_def)
  moreover have "tab' k = ?M k" by (rule started_kept[OF st _ k(3)]) (simp add: t)
  moreover have "wc_handles ch = inherited ?M" using st by (simp add: started_as_def)
  ultimately show ?thesis by (simp add: inherited_def t)
qed

lemma started_unmarked:
  assumes st: "started_as E startup tab t3 pin pout perr hp ht ch tab'" and "win_ready E startup tab"
    and h: "h \<in> new_ends startup pin pout perr"
      "piped (st_inherit_stdin startup) (st_stdin startup) \<Longrightarrow> h \<noteq> pwrite pin"
      "piped (st_inherit_stdout startup) (st_stdout startup) \<Longrightarrow> h \<noteq> pread pout"
      "piped (inh_err startup) (st_stderr startup) \<Longrightarrow> h \<noteq> pread perr"
  shows "h \<notin> fst ` set (marks E startup pin pout perr)"
proof
  assume "h \<in> fst ` set (marks E startup pin pout perr)"
  then obtain m where m: "m \<in> set (marks E startup pin pout perr)" "h = fst m" by blast
  have "tab h = None" "0 < h" using st h(1) by (simp_all add: started_as_def)
  with marks_kind[OF assms(2) m(1)] m(2) h(2-4) show False by auto
qed

lemma stream_connected:
  assumes st: "started_as E startup tab t3 pin pout perr hp ht ch tab'" and "win_ready E startup tab"
    and m: "handle_mark E inh r std k \<in> set (marks E startup pin pout perr)"
    and p: "piped inh r \<Longrightarrow> pipe_ends E startup t3 pin pout perr reads h k"
  shows "win_connected E tab tab' ch inh r std reads (child_handle E inh r std h) (if piped inh r then k else NULL_HANDLE)"
proof (cases "piped inh r")
  case False
  have "fst (handle_mark E inh r std k) \<in> fst ` set (marks E startup pin pout perr)" using m by (rule imageI)
  with False started_old[OF st assms(2)] show ?thesis
    by (cases inh) (auto simp: win_connected_def piped_def child_handle_def handle_mark_def)
next
  case True
  then have e: "handle_mark E inh r std k = (k, False)" "child_handle E inh r std h = h" "\<not> inh" "\<not> win_redirected r"
    by (auto simp: handle_mark_def child_handle_def piped_def)
  have km: "k \<in> fst ` set (marks E startup pin pout perr)" using imageI[OF m, of fst] by (simp add: e(1))
  obtain n where n: "t3 h = Some \<lparr>h_obj = (if reads then Pipe_R n else Pipe_W n), h_inherit = True\<rparr>"
    "t3 k = Some \<lparr>h_obj = (if reads then Pipe_W n else Pipe_R n), h_inherit = True\<rparr>"
    using p[OF True] by (auto simp: pipe_ends_def)
  have hk: "h \<in> closed_ends startup pin pout perr" "h \<notin> fst ` set (marks E startup pin pout perr)"
    "k \<in> new_ends startup pin pout perr" "k \<notin> closed_ends startup pin pout perr"
    using p[OF True] by (simp_all add: pipe_ends_def)
  from started_pipe[OF st assms(2) hk(1-3) km hk(4) n] True e(2-4) show ?thesis by (auto simp: win_connected_def)
qed

lemma stdin_ends:
  assumes st: "started_as E startup tab t3 pin pout perr hp ht ch tab'" and "win_ready E startup tab"
    and a: "piped (st_inherit_stdin startup) (st_stdin startup)"
  shows "pipe_ends E startup t3 pin pout perr True (pread pin) (pwrite pin)"
proof -
  note f = st[unfolded started_as_def]
  have i: "ends (st_inherit_stdin startup) (st_stdin startup) pin = {pread pin, pwrite pin}" using a by (simp add: ends_def)
  have ne: "pread pin \<noteq> pwrite pin" using f a by (simp add: pipe_at_def)
  have "pread pin \<notin> fst ` set (marks E startup pin pout perr)"
    by (rule started_unmarked[OF assms(1,2)]) (use i ne f in \<open>auto simp: new_ends_def ends_def\<close>)
  moreover have "pread pin \<in> closed_ends startup pin pout perr" "pwrite pin \<in> new_ends startup pin pout perr"
    "pwrite pin \<notin> closed_ends startup pin pout perr"
    using a i ne f by (auto simp: new_ends_def closed_ends_def ends_def split: if_splits)
  ultimately show ?thesis using f a by (auto simp: pipe_ends_def pipe_at_def)
qed

lemma stdout_ends:
  assumes st: "started_as E startup tab t3 pin pout perr hp ht ch tab'" and "win_ready E startup tab"
    and a: "piped (st_inherit_stdout startup) (st_stdout startup)"
  shows "pipe_ends E startup t3 pin pout perr False (pwrite pout) (pread pout)"
proof -
  note f = st[unfolded started_as_def]
  have i: "ends (st_inherit_stdout startup) (st_stdout startup) pout = {pread pout, pwrite pout}" using a by (simp add: ends_def)
  have ne: "pread pout \<noteq> pwrite pout" using f a by (simp add: pipe_at_def)
  have "pwrite pout \<notin> fst ` set (marks E startup pin pout perr)"
    by (rule started_unmarked[OF assms(1,2)]) (use i ne f in \<open>auto simp: new_ends_def ends_def\<close>)
  moreover have "pwrite pout \<in> closed_ends startup pin pout perr" "pread pout \<in> new_ends startup pin pout perr"
    "pread pout \<notin> closed_ends startup pin pout perr"
    using a i ne f by (auto simp: new_ends_def closed_ends_def ends_def split: if_splits)
  ultimately show ?thesis using f a by (auto simp: pipe_ends_def pipe_at_def)
qed

lemma stderr_ends:
  assumes st: "started_as E startup tab t3 pin pout perr hp ht ch tab'" and "win_ready E startup tab"
    and a: "piped (inh_err startup) (st_stderr startup)"
  shows "pipe_ends E startup t3 pin pout perr False (pwrite perr) (pread perr)"
proof -
  note f = st[unfolded started_as_def]
  have i: "ends (inh_err startup) (st_stderr startup) perr = {pread perr, pwrite perr}" using a by (simp add: ends_def)
  have ne: "pread perr \<noteq> pwrite perr" using f a by (simp add: pipe_at_def)
  have "pwrite perr \<notin> fst ` set (marks E startup pin pout perr)"
    by (rule started_unmarked[OF assms(1,2)]) (use i ne f in \<open>auto simp: new_ends_def ends_def\<close>)
  moreover have "pwrite perr \<in> closed_ends startup pin pout perr" "pread perr \<in> new_ends startup pin pout perr"
    "pread perr \<notin> closed_ends startup pin pout perr"
    using a i ne f by (auto simp: new_ends_def closed_ends_def ends_def split: if_splits)
  ultimately show ?thesis using f a by (auto simp: pipe_ends_def pipe_at_def)
qed

lemma started_connected:
  assumes "win_create_process E startup info s0 = (Inr (info', ch), s')"
    and "win_ready E startup (w_handles s0)"
  shows "win_connected E (w_handles s0) (w_handles s') ch (st_inherit_stdin startup) (st_stdin startup)
      STD_INPUT_HANDLE True (wc_stdin ch) (pi_stdin info') \<and>
    win_connected E (w_handles s0) (w_handles s') ch (st_inherit_stdout startup) (st_stdout startup)
      STD_OUTPUT_HANDLE False (wc_stdout ch) (pi_stdout info') \<and>
    (if st_merge_outputs startup then wc_stderr ch = wc_stdout ch \<and> pi_stderr info' = NULL_HANDLE
     else win_connected E (w_handles s0) (w_handles s') ch (st_inherit_stderr startup) (st_stderr startup)
      STD_ERROR_HANDLE False (wc_stderr ch) (pi_stderr info')) \<and>
    wc_cmdline ch = c_str (cmd_buf (st_cmdline startup))"
proof -
  obtain pin pout perr t3 hp ht where
    st: "started_as E startup (w_handles s0) t3 pin pout perr hp ht ch (w_handles s')" and
    inf: "pi_stdin info' = (if piped (st_inherit_stdin startup) (st_stdin startup) then pwrite pin else NULL_HANDLE)"
      "pi_stdout info' = (if piped (st_inherit_stdout startup) (st_stdout startup) then pread pout else NULL_HANDLE)"
      "pi_stderr info' = (if piped (inh_err startup) (st_stderr startup) then pread perr else NULL_HANDLE)" and
    cmd: "wc_cmdline ch = c_str (cmd_buf (st_cmdline startup))" and
    hs: "wc_stdin ch = child_handle E (st_inherit_stdin startup) (st_stdin startup) STD_INPUT_HANDLE (pread pin)"
      "wc_stdout ch = child_handle E (st_inherit_stdout startup) (st_stdout startup) STD_OUTPUT_HANDLE (pwrite pout)"
      "wc_stderr ch = (if st_merge_outputs startup then wc_stdout ch
       else child_handle E (st_inherit_stderr startup) (st_stderr startup) STD_ERROR_HANDLE (pwrite perr))"
    by (rule started[OF assms])
  note conn = stream_connected[OF st assms(2)]
  have c_in: "win_connected E (w_handles s0) (w_handles s') ch (st_inherit_stdin startup) (st_stdin startup)
      STD_INPUT_HANDLE True (wc_stdin ch) (pi_stdin info')"
    unfolding hs(1) inf(1) by (rule conn[OF _ stdin_ends[OF st assms(2)]]) (simp_all add: marks_def)
  have c_out: "win_connected E (w_handles s0) (w_handles s') ch (st_inherit_stdout startup) (st_stdout startup)
      STD_OUTPUT_HANDLE False (wc_stdout ch) (pi_stdout info')"
    unfolding hs(2) inf(2) by (rule conn[OF _ stdout_ends[OF st assms(2)]]) (simp_all add: marks_def)
  show ?thesis
  proof (cases "st_merge_outputs startup")
    case True
    with c_in c_out cmd hs(3) inf(3) show ?thesis by (simp add: piped_def)
  next
    case False
    then have "wc_stderr ch = child_handle E (st_inherit_stderr startup) (st_stderr startup) STD_ERROR_HANDLE (pwrite perr)"
      "pi_stderr info' = (if piped (st_inherit_stderr startup) (st_stderr startup) then pread perr else NULL_HANDLE)"
      using hs(3) inf(3) by simp_all
    moreover have "win_connected E (w_handles s0) (w_handles s') ch (st_inherit_stderr startup) (st_stderr startup)
        STD_ERROR_HANDLE False
        (child_handle E (st_inherit_stderr startup) (st_stderr startup) STD_ERROR_HANDLE (pwrite perr))
        (if piped (st_inherit_stderr startup) (st_stderr startup) then pread perr else NULL_HANDLE)"
      by (rule conn) (use stderr_ends[OF st assms(2)] False in \<open>simp_all add: marks_def\<close>)
    ultimately show ?thesis using c_in c_out cmd False by simp
  qed
qed

end

lemma win_close_process_eq:
  "snd (win_close_process info tab) =
     (\<lambda>y. if y \<noteq> NULL_HANDLE \<and> y \<in> {pi_pid info, pi_tid info, pi_stdin info, pi_stdout info, pi_stderr info}
          then None else tab y)"
  by (auto simp: win_close_process_def win_close_fd_def Let_def fun_eq_iff)

context win_host
begin

lemma started_closed:
  assumes "win_create_process E startup info s0 = (Inr (info', ch), s')"
    and "win_ready E startup (w_handles s0)"
  shows "map_option h_obj (snd (win_close_process info' (w_handles s')) y) = map_option h_obj (w_handles s0 y)"
proof -
  obtain pin pout perr t3 hp ht where
    st: "started_as E startup (w_handles s0) t3 pin pout perr hp ht ch (w_handles s')" and
    ps: "0 < hp" "0 < ht" and
    inf: "pi_pid info' = hp" "pi_tid info' = ht"
      "pi_stdin info' = (if piped (st_inherit_stdin startup) (st_stdin startup) then pwrite pin else NULL_HANDLE)"
      "pi_stdout info' = (if piped (st_inherit_stdout startup) (st_stdout startup) then pread pout else NULL_HANDLE)"
      "pi_stderr info' = (if piped (inh_err startup) (st_stderr startup) then pread perr else NULL_HANDLE)"
    by (rule started[OF assms])
  note f = st[unfolded started_as_def]
  have new: "\<forall>y \<in> new_ends startup pin pout perr. w_handles s0 y = None \<and> 0 < y" using f by blast
  have old: "\<forall>y. y \<notin> new_ends startup pin pout perr \<longrightarrow> t3 y = w_handles s0 y" using f by blast
  have pt: "t3 hp = None" "t3 ht = None" "0 < hp" "0 < ht" using f ps by blast+
  have after: "w_handles s' = (\<lambda>y. if y \<in> closed_ends startup pin pout perr then None
      else if y = ht then Some \<lparr>h_obj = Other 1, h_inherit = False\<rparr>
      else if y = hp then Some \<lparr>h_obj = Other 0, h_inherit = False\<rparr>
      else mark_all (marks E startup pin pout perr) t3 y)" using f by blast
  let ?close = "{pi_pid info', pi_tid info', pi_stdin info', pi_stdout info', pi_stderr info'}"
  have cn: "y \<in> new_ends startup pin pout perr \<longleftrightarrow>
      y \<in> closed_ends startup pin pout perr \<or> y \<noteq> 0 \<and> y \<in> {pi_stdin info', pi_stdout info', pi_stderr info'}"
    using bspec[OF new, of y] unfolding inf(3-5) by (auto simp: new_ends_def closed_ends_def ends_def split: if_splits)
  show ?thesis
  proof (cases "y \<in> new_ends startup pin pout perr")
    case True
    then have "w_handles s0 y = None" using new by simp
    moreover have "y \<in> closed_ends startup pin pout perr \<or> y \<noteq> 0 \<and> y \<in> ?close" using True cn by auto
    ultimately show ?thesis by (auto simp: win_close_process_eq after)
  next
    case False
    then have t3: "t3 y = w_handles s0 y" and nc: "y \<notin> closed_ends startup pin pout perr"
      "\<not> (y \<noteq> 0 \<and> y \<in> {pi_stdin info', pi_stdout info', pi_stderr info'})" using old cn by simp_all
    show ?thesis
    proof (cases "y = hp \<or> y = ht")
      case True
      with t3 pt have "w_handles s0 y = None" "y \<noteq> 0" by auto
      with True inf(1,2) show ?thesis by (auto simp: win_close_process_eq)
    next
      case False
      then have "snd (win_close_process info' (w_handles s')) y = mark_all (marks E startup pin pout perr) t3 y"
        using nc inf(1,2) by (auto simp: win_close_process_eq after)
      with t3 show ?thesis by (simp add: objs_mark_all)
    qed
  qed
qed

end

section \<open>Properties\<close>

text \<open>
  C16. On Windows, in every mode of a stream, the child's standard handle is its end of one new
  pipe, or the redirect target, or the parent's standard handle, and the child has it; the
  parent's end of a pipe is not passed on.  The redirect target stays inheritable in the
  parent.  The command line is the quoted one.
\<close>

theorem win_start_connects:
  assumes "win_host E" and "win_ready E startup (w_handles s)"
    and "win_create_process E startup info s = (Inr (info', ch), s')"
  shows "win_connected E (w_handles s) (w_handles s') ch (st_inherit_stdin startup) (st_stdin startup)
      STD_INPUT_HANDLE True (wc_stdin ch) (pi_stdin info') \<and>
    win_connected E (w_handles s) (w_handles s') ch (st_inherit_stdout startup) (st_stdout startup)
      STD_OUTPUT_HANDLE False (wc_stdout ch) (pi_stdout info') \<and>
    (if st_merge_outputs startup then wc_stderr ch = wc_stdout ch \<and> pi_stderr info' = NULL_HANDLE
     else win_connected E (w_handles s) (w_handles s') ch (st_inherit_stderr startup) (st_stderr startup)
      STD_ERROR_HANDLE False (wc_stderr ch) (pi_stderr info')) \<and>
    wc_cmdline ch = c_str (cmd_buf (st_cmdline startup))"
  by (rule win_host.started_connected[OF assms(1,3,2)])

definition demo_win_startup :: process_startup where
  "demo_win_startup = process_startup_new\<lparr>st_cmdline := [''a b''], st_env := [(''K'', ''V'')], st_inherit_env := False,
     st_stdin := \<lparr>target = 0\<rparr>, st_stdout := \<lparr>target = 28\<rparr>, st_stderr := \<lparr>target = 0\<rparr>, st_inherit_stderr := True\<rparr>"

definition demo_win_state :: win where
  "demo_win_state = \<lparr>w_handles = [28 \<mapsto> \<lparr>h_obj = Other 7, h_inherit = False\<rparr>], w_npipe = 0\<rparr>"

lemma demo_win_ready: "win_ready demo_win demo_win_startup (w_handles demo_win_state)"
  by (simp add: win_ready_def open_handle_def demo_win_def demo_win_startup_def demo_win_state_def)

lemma demo_win_started:
  "\<exists>info' ch s'. win_create_process demo_win demo_win_startup process_info_new demo_win_state = (Inr (info', ch), s') \<and>
     wc_stdin ch = 4 \<and> pi_stdin info' = 8"
proof -
  have b: "win_envs id id None demo_win_startup = Inr (Some (env_block [(''K'', ''V'')]))"
    by (simp add: win_envs_def demo_win_startup_def sorted_env_def effective_env_def build_block_spec env_block_def)
  show ?thesis using b
    by (simp add: win_create_process_def win_redirect_or_pipe_def win_redirected_def win_create_pipe_def
      win_create_process_impl_def si_stdin_def si_stdout_def si_stderr_def bind_handle_def
      redirect_inheritable_def ensure_handle_inheritable_def get_handle_flag_def set_handle_flag_def set_inherit_def
      win_parent_success_def win_close_fd_def demo_win_startup_def demo_win_state_def demo_win_def win_no_fds_def
      process_startup_new_def)
qed

theorem win_start_connects_witness:
  "\<exists>info' ch s' n. win_create_process demo_win demo_win_startup process_info_new demo_win_state = (Inr (info', ch), s') \<and>
     wc_handles ch 4 = Some \<lparr>h_obj = Pipe_R n, h_inherit = True\<rparr> \<and>
     w_handles s' 8 = Some \<lparr>h_obj = Pipe_W n, h_inherit = False\<rparr> \<and> wc_handles ch 8 = None"
proof -
  from demo_win_started obtain info' ch s' where
    r: "win_create_process demo_win demo_win_startup process_info_new demo_win_state = (Inr (info', ch), s')"
      "wc_stdin ch = 4" "pi_stdin info' = 8" by blast
  have "win_connected demo_win (w_handles demo_win_state) (w_handles s') ch False \<lparr>target = 0\<rparr> STD_INPUT_HANDLE True 4 8"
    using win_start_connects[OF dw.win_host_axioms demo_win_ready r(1)] r(2,3)
    by (simp add: demo_win_startup_def process_startup_new_def)
  then obtain n where "wc_handles ch 4 = Some \<lparr>h_obj = Pipe_R n, h_inherit = True\<rparr>"
    "w_handles s' 8 = Some \<lparr>h_obj = Pipe_W n, h_inherit = False\<rparr>" "wc_handles ch 8 = None"
    by (auto simp: win_connected_def win_redirected_def)
  with r(1) show ?thesis by blast
qed

text \<open>
  Closing the handles of a started process gives back the objects that the parent had
  open before; a start leaks nothing.
\<close>

theorem win_start_no_leak:
  assumes "win_host E" and "win_ready E startup (w_handles s)"
    and "win_create_process E startup info s = (Inr (info', ch), s')"
  shows "(\<lambda>h. map_option h_obj (snd (win_close_process info' (w_handles s')) h)) =
    (\<lambda>h. map_option h_obj (w_handles s h))"
  using win_host.started_closed[OF assms(1,3,2)] by blast

theorem win_start_no_leak_witness:
  "\<exists>info' ch s'. win_create_process demo_win demo_win_startup process_info_new demo_win_state = (Inr (info', ch), s') \<and>
     map_option h_obj (snd (win_close_process info' (w_handles s')) 28) = Some (Other 7)"
proof -
  from demo_win_started obtain info' ch s' where
    r: "win_create_process demo_win demo_win_startup process_info_new demo_win_state = (Inr (info', ch), s')" by blast
  have "map_option h_obj (snd (win_close_process info' (w_handles s')) 28) = Some (Other 7)"
    using fun_cong[OF win_start_no_leak[OF dw.win_host_axioms demo_win_ready r], of 28]
    by (simp add: demo_win_state_def)
  with r show ?thesis by blast
qed

end
