(* ===== verification/Win_Wait.thy ===== *)
theory Win_Wait
  imports Prelude
begin

text \<open>
  Waiting and termination on Windows (\<open>src/process_win32_wait.cpp\<close>): the waits over
  \<open>WaitForSingleObject\<close>, and the termination of a process tree, which walks a snapshot of
  the processes with a stack.
\<close>

section \<open>Waiting\<close>

text \<open>
  The world of one process handle: the clock in milliseconds, and when and with which code the
  process ends, if it ever does.  \<open>GetExitCodeProcess\<close> gives \<open>STILL_ACTIVE\<close> before that.
\<close>

record wwait =
  ww_clock :: nat
  ww_end :: "(nat \<times> 32 word) option"

abbreviation INFINITE :: "32 word" where "INFINITE \<equiv> 0xFFFFFFFF"
abbreviation WAIT_OBJECT_0 :: "32 word" where "WAIT_OBJECT_0 \<equiv> 0"
abbreviation WAIT_TIMEOUT :: "32 word" where "WAIT_TIMEOUT \<equiv> 258"
abbreviation STILL_ACTIVE :: "32 word" where "STILL_ACTIVE \<equiv> 259"

text \<open>\<open>None\<close>: the call does not return.\<close>

definition WaitForSingleObject :: "32 word \<Rightarrow> wwait \<Rightarrow> (32 word \<times> wwait) option" where
  "WaitForSingleObject timeout w =
     (case ww_end w of
        Some (t, _) \<Rightarrow>
          if timeout = INFINITE \<or> t \<le> ww_clock w + unat timeout
          then Some (WAIT_OBJECT_0, w\<lparr>ww_clock := max t (ww_clock w)\<rparr>)
          else Some (WAIT_TIMEOUT, w\<lparr>ww_clock := ww_clock w + unat timeout\<rparr>)
      | None \<Rightarrow>
          if timeout = INFINITE then None
          else Some (WAIT_TIMEOUT, w\<lparr>ww_clock := ww_clock w + unat timeout\<rparr>))"

definition GetExitCodeProcess :: "wwait \<Rightarrow> 32 word" where
  "GetExitCodeProcess w =
     (case ww_end w of Some (t, c) \<Rightarrow> if t \<le> ww_clock w then c else STILL_ACTIVE | None \<Rightarrow> STILL_ACTIVE)"

definition win_wait_for :: "wwait \<Rightarrow> (int \<times> wwait) option" where
  "win_wait_for w =
     (case WaitForSingleObject INFINITE w of
        None \<Rightarrow> None
      | Some (_, w') \<Rightarrow> Some (sint (GetExitCodeProcess w'), w'))"

definition win_start_time :: "int \<Rightarrow> nat" where
  "win_start_time pid = 0"

definition win_process_exited :: "wwait \<Rightarrow> (bool \<times> wwait) option" where
  "win_process_exited w =
     (case WaitForSingleObject 0 w of None \<Rightarrow> None | Some (r, w') \<Rightarrow> Some (r = WAIT_OBJECT_0, w'))"

definition win_wait_timeout_ms :: "int \<Rightarrow> int \<Rightarrow> wwait \<Rightarrow> (bool \<times> int \<times> wwait) option" where
  "win_wait_timeout_ms timeout_ms exit_code w =
     (let dwTimeout = (if timeout_ms < 0 then INFINITE else word_of_int timeout_ms)
      in case WaitForSingleObject dwTimeout w of
           None \<Rightarrow> None
         | Some (result, w') \<Rightarrow>
             if result = WAIT_OBJECT_0 then Some (True, sint (GetExitCodeProcess w'), w')
             else Some (False, exit_code, w'))"

section \<open>Terminating a tree\<close>

text \<open>
  A snapshot lists the processes with the identifiers of their parents; \<open>opens\<close> says which
  ones \<open>OpenProcess\<close> opens and \<open>self\<close> is the calling process.  The result is the list of
  \<open>TerminateProcess\<close> calls, with the exit code.
\<close>

type_synonym snapshot = "(nat \<times> nat) list"

definition terminate_by_pid :: "nat \<Rightarrow> (nat \<Rightarrow> bool) \<Rightarrow> nat \<Rightarrow> nat \<Rightarrow> (nat \<times> nat) list" where
  "terminate_by_pid self opens pid exit_code =
     (if pid = 0 \<or> pid = self then [] else if \<not> opens pid then [] else [(pid, exit_code)])"

definition children :: "snapshot \<Rightarrow> nat \<Rightarrow> nat list" where
  "children snap p = map fst (filter (\<lambda>(_, parent). parent = p) snap)"

text \<open>The vector \<open>stack\<close> has its back at the head of the list.\<close>

partial_function (option) walk :: "snapshot \<Rightarrow> nat list \<Rightarrow> nat list \<Rightarrow> nat list option" where
  "walk snap stack order =
     (case stack of
        [] \<Rightarrow> Some order
      | pid # rest \<Rightarrow> walk snap (rev (children snap pid) @ rest) (order @ [pid]))"

declare walk.simps [code]

definition terminate_descendants ::
  "nat \<Rightarrow> (nat \<Rightarrow> bool) \<Rightarrow> snapshot option \<Rightarrow> nat \<Rightarrow> nat \<Rightarrow> (nat \<times> nat) list option" where
  "terminate_descendants self opens snap root_pid exit_code =
     (case snap of
        None \<Rightarrow> Some []
      | Some sn \<Rightarrow>
          (case walk sn (rev (children sn root_pid)) [] of
             None \<Rightarrow> None
           | Some order \<Rightarrow> Some (concat (map (\<lambda>pid. terminate_by_pid self opens pid exit_code) (rev order)))))"

definition win_terminate_process :: "nat \<Rightarrow> bool \<Rightarrow> (nat \<times> nat) list" where
  "win_terminate_process pid force = [(pid, if force then 137 else 143)]"

text \<open>\<open>pid\<close> is what \<open>GetProcessId\<close> gives for the handle, 0 when it fails.\<close>

definition win_terminate_process_tree ::
  "nat \<Rightarrow> (nat \<Rightarrow> bool) \<Rightarrow> snapshot option \<Rightarrow> nat \<Rightarrow> bool \<Rightarrow> wwait \<Rightarrow> (nat \<times> nat) list option" where
  "win_terminate_process_tree self opens snap pid force w =
     (case win_process_exited w of
        None \<Rightarrow> None
      | Some (True, _) \<Rightarrow> Some []
      | Some (False, _) \<Rightarrow>
          let code = (if force then 137 else 143)
          in case (if pid \<noteq> 0 then terminate_descendants self opens snap pid code else Some []) of
               None \<Rightarrow> None
             | Some kills \<Rightarrow> Some (kills @ [(pid, code)]))"

definition win_get_pid :: "nat \<Rightarrow> int" where
  "win_get_pid pid = sint (word_of_nat pid :: 32 word)"

section \<open>The walk\<close>

definition child_of :: "snapshot \<Rightarrow> (nat \<times> nat) set" where
  "child_of snap = {(c, p). c \<in> set (children snap p)}"

lemma child_of_iff: "(c, p) \<in> child_of snap \<longleftrightarrow> (c, p) \<in> set snap"
  by (force simp: child_of_def children_def)

text \<open>If the walk returns, every process on the stack is at the top of a well-founded tree.\<close>

lemma walk_acc: "walk snap stack order = Some r \<Longrightarrow> \<forall>x \<in> set stack. x \<in> Wellfounded.acc (child_of snap)"
proof (induction rule: walk.raw_induct[rotated 1, consumes 1])
  case (1 walk' snap stack order r)
  show ?case
  proof (cases stack)
    case (Cons pid rest)
    with 1 have a: "\<forall>x \<in> set (rev (children snap pid) @ rest). x \<in> Wellfounded.acc (child_of snap)" by simp
    have "pid \<in> Wellfounded.acc (child_of snap)"
    proof (rule accI)
      fix y assume "(y, pid) \<in> child_of snap"
      then show "y \<in> Wellfounded.acc (child_of snap)" using a by (simp add: child_of_def)
    qed
    with a Cons show ?thesis by simp
  qed simp
qed

text \<open>After each process of the list all its children come.\<close>

fun children_after :: "snapshot \<Rightarrow> nat list \<Rightarrow> bool" where
  "children_after snap [] = True"
| "children_after snap (p # xs) \<longleftrightarrow> set (children snap p) \<subseteq> set xs \<and> children_after snap xs"

lemma children_after_append:
  "children_after snap xs \<Longrightarrow> children_after snap ys \<Longrightarrow> children_after snap (xs @ ys)"
  by (induction xs) auto

text \<open>\<open>tr\<close> is what the walk appends for the processes \<open>xs\<close> at the top of the stack.\<close>

definition walks :: "snapshot \<Rightarrow> nat list \<Rightarrow> nat list \<Rightarrow> bool" where
  "walks snap xs tr \<longleftrightarrow> (\<forall>rest order. walk snap (xs @ rest) order = walk snap rest (order @ tr)) \<and>
     set tr = {d. \<exists>x \<in> set xs. (d, x) \<in> (child_of snap)\<^sup>*} \<and> children_after snap tr"

lemma walks_Nil: "walks snap [] []"
  by (simp add: walks_def)

lemma walks_Cons: "walks snap [x] tr \<Longrightarrow> walks snap xs tr' \<Longrightarrow> walks snap (x # xs) (tr @ tr')"
proof -
  assume 1: "walks snap [x] tr" and 2: "walks snap xs tr'"
  have "walk snap ((x # xs) @ rest) order = walk snap rest (order @ tr @ tr')" for rest order
    using 1 2 by (simp add: walks_def)
  moreover have "set (tr @ tr') = {d. \<exists>y \<in> set (x # xs). (d, y) \<in> (child_of snap)\<^sup>*}"
    using 1 2 by (auto simp: walks_def)
  ultimately show ?thesis using 1 2 by (simp add: walks_def children_after_append)
qed

lemma walks_list: "\<forall>x \<in> set xs. \<exists>tr. walks snap [x] tr \<Longrightarrow> \<exists>tr. walks snap xs tr"
proof (induction xs)
  case Nil
  show ?case using walks_Nil by blast
next
  case (Cons x xs)
  then obtain tr tr' where "walks snap [x] tr" "walks snap xs tr'" by auto
  then show ?case using walks_Cons by blast
qed

lemma acc_walks: "x \<in> Wellfounded.acc (child_of snap) \<Longrightarrow> \<exists>tr. walks snap [x] tr"
proof (induction rule: acc.induct)
  case (accI x)
  have "\<exists>tr. walks snap [y] tr" if "y \<in> set (rev (children snap x))" for y
    using accI(2)[of y] that by (simp add: child_of_def)
  then obtain tr where tr: "walks snap (rev (children snap x)) tr" using walks_list by metis
  have "walk snap ([x] @ rest) order = walk snap rest (order @ x # tr)" for rest order
    using tr by (subst walk.simps) (simp add: walks_def)
  moreover have "set (x # tr) = {d. (d, x) \<in> (child_of snap)\<^sup>*}"
  proof -
    have "(d, x) \<in> (child_of snap)\<^sup>* \<longleftrightarrow> d = x \<or> (\<exists>y. (y, x) \<in> child_of snap \<and> (d, y) \<in> (child_of snap)\<^sup>*)" for d
      by (metis converse_rtrancl_into_rtrancl rtrancl.simps)
    with tr show ?thesis by (auto simp: walks_def child_of_def)
  qed
  moreover have "children_after snap (x # tr)" using tr by (auto simp: walks_def)
  ultimately have "walks snap [x] (x # tr)" by (simp add: walks_def)
  then show ?case ..
qed

lemma acyclic_acc:
  assumes "\<forall>p. (p, root) \<in> (child_of snap)\<^sup>+ \<longrightarrow> (p, p) \<notin> (child_of snap)\<^sup>+"
    and "(x, root) \<in> (child_of snap)\<^sup>+"
  shows "x \<in> Wellfounded.acc (child_of snap)"
proof -
  let ?R = "child_of snap" and ?D = "{p. (p, root) \<in> (child_of snap)\<^sup>+}"
  let ?S = "?R \<inter> ?D \<times> ?D"
  have "?R = set snap" using child_of_iff by auto
  then have "finite ?R" by simp
  have "acyclic ?S"
  proof (rule acyclicI, intro allI notI)
    fix p assume p: "(p, p) \<in> ?S\<^sup>+"
    then have "(p, p) \<in> ?R\<^sup>+" by (rule trancl_mono) blast
    moreover from p have "(p, root) \<in> ?R\<^sup>+" by (cases rule: tranclE) auto
    ultimately show False using assms(1) by blast
  qed
  then have "wf ?S" using \<open>finite ?R\<close> by (simp add: finite_acyclic_wf)
  then show ?thesis using assms(2)
  proof (induction x rule: wf_induct_rule)
    case (less x)
    show ?case
    proof (rule accI)
      fix y assume "(y, x) \<in> ?R"
      moreover from this less.prems have "(y, root) \<in> ?R\<^sup>+" by (rule trancl_into_trancl2)
      ultimately show "y \<in> Wellfounded.acc ?R" using less by blast
    qed
  qed
qed

lemma acc_acyclic: "x \<in> Wellfounded.acc r \<Longrightarrow> (d, x) \<in> r\<^sup>* \<Longrightarrow> (d, d) \<notin> r\<^sup>+"
proof -
  assume "x \<in> Wellfounded.acc r" "(d, x) \<in> r\<^sup>*"
  then have "d \<in> Wellfounded.acc r" by (rule acc_downwards)
  then show ?thesis
  proof (induction rule: acc.induct)
    case (accI d)
    show ?case
    proof
      assume "(d, d) \<in> r\<^sup>+"
      then obtain y where "(y, d) \<in> r" "(d, y) \<in> r\<^sup>*" by (metis tranclD2)
      then have "(y, y) \<in> r\<^sup>+" by (metis rtrancl_into_trancl2)
      with accI(2)[OF \<open>(y, d) \<in> r\<close>] show False by blast
    qed
  qed
qed

lemma descendant_child: "(d, root) \<in> (child_of snap)\<^sup>+ \<longleftrightarrow>
  (\<exists>x \<in> set (children snap root). (d, x) \<in> (child_of snap)\<^sup>*)"
  by (auto simp: child_of_def dest: tranclD2 intro: rtrancl_into_trancl1)

section \<open>Properties\<close>

text \<open>
  C22. The termination of a tree returns if and only if no process below the root is its own
  ancestor in the snapshot.  The parents are recorded identifiers that may have been reused, so
  such a cycle can occur, and then the loop never ends.
\<close>

theorem terminate_descendants_returns_iff:
  "(\<exists>kills. terminate_descendants self opens (Some snap) root_pid code = Some kills) \<longleftrightarrow>
   \<not> (\<exists>p. (p, root_pid) \<in> (child_of snap)\<^sup>+ \<and> (p, p) \<in> (child_of snap)\<^sup>+)"
proof
  assume "\<exists>kills. terminate_descendants self opens (Some snap) root_pid code = Some kills"
  then obtain order where "walk snap (rev (children snap root_pid)) [] = Some order"
    by (auto simp: terminate_descendants_def split: option.splits)
  from walk_acc[OF this] have acc: "\<forall>x \<in> set (children snap root_pid). x \<in> Wellfounded.acc (child_of snap)" by simp
  show "\<not> (\<exists>p. (p, root_pid) \<in> (child_of snap)\<^sup>+ \<and> (p, p) \<in> (child_of snap)\<^sup>+)"
  proof (rule notI, elim exE conjE)
    fix p assume "(p, root_pid) \<in> (child_of snap)\<^sup>+" and c: "(p, p) \<in> (child_of snap)\<^sup>+"
    from this(1) obtain x where "x \<in> set (children snap root_pid)" "(p, x) \<in> (child_of snap)\<^sup>*"
      unfolding descendant_child ..
    then show False using acc acc_acyclic c by metis
  qed
next
  assume "\<not> (\<exists>p. (p, root_pid) \<in> (child_of snap)\<^sup>+ \<and> (p, p) \<in> (child_of snap)\<^sup>+)"
  then have a: "\<forall>p. (p, root_pid) \<in> (child_of snap)\<^sup>+ \<longrightarrow> (p, p) \<notin> (child_of snap)\<^sup>+" by blast
  have "\<exists>tr. walks snap [x] tr" if "x \<in> set (rev (children snap root_pid))" for x
    using that by (intro acc_walks acyclic_acc[OF a]) (auto simp: child_of_def)
  then obtain tr where "walks snap (rev (children snap root_pid)) tr" using walks_list by metis
  then have "walk snap (rev (children snap root_pid) @ []) [] = walk snap [] ([] @ tr)" by (simp only: walks_def)
  then show "\<exists>kills. terminate_descendants self opens (Some snap) root_pid code = Some kills"
    by (simp add: terminate_descendants_def walk.simps)
qed

text \<open>
  C23. When it returns, the processes that are terminated are exactly the recorded descendants of
  the root that can be opened, other than process 0 and the caller, and each is terminated
  after all its children; the root itself is the last one.
\<close>

theorem terminate_tree_kills:
  assumes "win_terminate_process_tree self opens (Some snap) pid force w = Some kills" and "pid \<noteq> 0"
    and "win_process_exited w = Some (False, w')"
  shows "\<exists>order. set order = {d. (d, pid) \<in> (child_of snap)\<^sup>+} \<and> children_after snap order \<and>
    map fst kills = filter (\<lambda>p. p \<noteq> 0 \<and> p \<noteq> self \<and> opens p) (rev order) @ [pid] \<and>
    set (map snd kills) = {if force then 137 else 143}"
proof -
  let ?code = "if force then 137 else 143 :: nat"
  obtain ks where ks: "terminate_descendants self opens (Some snap) pid ?code = Some ks" "kills = ks @ [(pid, ?code)]"
    using assms by (auto simp: win_terminate_process_tree_def Let_def split: option.splits)
  then obtain order where o: "walk snap (rev (children snap pid)) [] = Some order"
    "ks = concat (map (\<lambda>pid. terminate_by_pid self opens pid ?code) (rev order))"
    by (auto simp: terminate_descendants_def split: option.splits)
  have "\<exists>tr. walks snap [x] tr" if "x \<in> set (rev (children snap pid))" for x
    using walk_acc[OF o(1)] that by (intro acc_walks) blast
  then obtain tr where tr: "walks snap (rev (children snap pid)) tr" using walks_list by metis
  then have "walk snap (rev (children snap pid) @ []) [] = walk snap [] ([] @ tr)" by (simp only: walks_def)
  with o(1) have "order = tr" by (simp add: walk.simps)
  have f: "map fst (concat (map (\<lambda>pid. terminate_by_pid self opens pid c) xs)) = filter (\<lambda>p. p \<noteq> 0 \<and> p \<noteq> self \<and> opens p) xs \<and>
    set (map snd (concat (map (\<lambda>pid. terminate_by_pid self opens pid c) xs))) \<subseteq> {c}" for xs c
    by (induction xs) (auto simp: terminate_by_pid_def)
  from f[of ?code "rev order"] have "map fst kills = filter (\<lambda>p. p \<noteq> 0 \<and> p \<noteq> self \<and> opens p) (rev order) @ [pid]"
    "set (map snd kills) = {?code}" by (auto simp: ks(2) o(2))
  moreover have "set order = {d. (d, pid) \<in> (child_of snap)\<^sup>+}" "children_after snap order"
    using tr \<open>order = tr\<close> by (auto simp: walks_def descendant_child)
  ultimately show ?thesis by blast
qed

theorem terminate_tree_kills_witness:
  "\<exists>order. set order = {d. (d, 10) \<in> (child_of [(0, 0), (10, 4), (11, 10), (12, 10), (13, 11)])\<^sup>+} \<and>
     children_after [(0, 0), (10, 4), (11, 10), (12, 10), (13, 11)] order \<and>
     map fst [(13 :: nat, 143 :: nat), (11, 143), (10, 143)] = filter (\<lambda>p. p \<noteq> 0 \<and> p \<noteq> 5 \<and> p \<noteq> 12) (rev order) @ [10] \<and>
     set (map snd [(13 :: nat, 143 :: nat), (11, 143), (10, 143)]) = {143}"
proof -
  let ?w = "\<lparr>ww_clock = 0, ww_end = None\<rparr>" and ?snap = "[(0, 0), (10, 4), (11, 10), (12, 10), (13, 11)] :: snapshot"
  have "win_process_exited ?w = Some (False, ?w)"
    by (simp add: win_process_exited_def WaitForSingleObject_def)
  moreover have "win_terminate_process_tree 5 (\<lambda>p. p \<noteq> 12) (Some ?snap) 10 False ?w = Some [(13, 143), (11, 143), (10, 143)]"
    using calculation
    by (simp add: win_terminate_process_tree_def terminate_descendants_def children_def walk.simps terminate_by_pid_def)
  ultimately show ?thesis
    using terminate_tree_kills[of 5 "\<lambda>p. p \<noteq> 12" ?snap 10 False ?w "[(13, 143), (11, 143), (10, 143)]" ?w] by simp
qed

text \<open>
  The timed wait on Windows: a timeout that is not negative is never taken for \<open>INFINITE\<close>,
  the wait returns after at most that time, and it succeeds exactly when the process ends by
  then, with its code, even if that is the code of \<open>STILL_ACTIVE\<close>.
\<close>

theorem win_wait_timeout_verdict:
  assumes "0 \<le> timeout_ms" and "in_int32 timeout_ms"
  shows "\<exists>code w'. win_wait_timeout_ms timeout_ms exit_code w =
      Some (\<exists>t c. ww_end w = Some (t, c) \<and> t \<le> ww_clock w + nat timeout_ms, code, w') \<and>
    ww_clock w' \<le> ww_clock w + nat timeout_ms \<and>
    code = (case ww_end w of
              Some (t, c) \<Rightarrow> if t \<le> ww_clock w + nat timeout_ms then sint c else exit_code
            | None \<Rightarrow> exit_code)"
proof -
  have t: "timeout_ms < 2 ^ 31" using assms(2) by (simp add: in_int32_def)
  have u: "unat (word_of_int timeout_ms :: 32 word) = nat timeout_ms"
    using assms(1) t by (simp add: unat_eq_nat_uint uint_word_of_int)
  have "unat INFINITE = 2 ^ 32 - 1" by simp
  then have "(word_of_int timeout_ms :: 32 word) \<noteq> INFINITE" using u t assms(1) by fastforce
  with u assms(1) show ?thesis
    by (auto simp: win_wait_timeout_ms_def WaitForSingleObject_def GetExitCodeProcess_def Let_def
      split: option.splits prod.splits)
qed

theorem win_wait_timeout_verdict_witness:
  "\<exists>w'. win_wait_timeout_ms 5 7 \<lparr>ww_clock = 0, ww_end = Some (3, STILL_ACTIVE)\<rparr> = Some (True, 259, w')"
  using win_wait_timeout_verdict[of 5 7 "\<lparr>ww_clock = 0, ww_end = Some (3, STILL_ACTIVE)\<rparr>"]
  by (auto simp: in_int32_def)

end
