(* ===== verification/Byte_Io.thy ===== *)
theory Byte_Io
  imports Prelude "HOL-Library.Product_Lexorder"
begin

text \<open>
  \<open>read(2)\<close> and \<open>write(2)\<close> as the source relies on them.  A reader answers a request for
  at most \<open>n\<close> bytes with some bytes (none means end of file) or with an \<open>errno\<close>; a
  writer answers with a count or a negative result.  What the clients (\<open>fdstream.hpp\<close>,
  \<open>read_fully\<close>, \<open>restartable_write_error\<close>) need is stated by the locales
  \<open>byte_source\<close> and \<open>byte_sink\<close>; a pipe whose writers are gone, and a pipe that takes
  bytes piecemeal, both with an arbitrary schedule of short transfers and signals,
  interpret them.
\<close>

datatype 'b rres = Got "'b list" | Fail int

datatype wres = Wrote nat | Wfail int

type_synonym ('w, 'b) reader = "'w \<Rightarrow> nat \<Rightarrow> 'b rres \<times> 'w"
type_synonym ('w, 'b) writer = "'w \<Rightarrow> 'b list \<Rightarrow> wres \<times> 'w"

locale byte_source =
  fixes rd :: "('w, 'b) reader"
    and pending :: "'w \<Rightarrow> 'b list"
    and intr :: "'w \<Rightarrow> nat"
  assumes rd_got: "rd w n = (Got bs, w') \<Longrightarrow>
      pending w = bs @ pending w' \<and> length bs \<le> n \<and> intr w' \<le> intr w"
    and rd_eof: "0 < n \<Longrightarrow> rd w n = (Got [], w') \<Longrightarrow> pending w = []"
    and rd_fail: "rd w n = (Fail e, w') \<Longrightarrow>
      e = EINTR \<and> pending w' = pending w \<and> intr w' < intr w"
begin

lemma rd_quiet:
  assumes "intr w = 0"
  shows "\<exists>bs w'. rd w n = (Got bs, w') \<and> pending w = bs @ pending w' \<and> length bs \<le> n \<and> intr w' = 0"
proof (cases "rd w n")
  case (Pair r w')
  then show ?thesis using rd_got rd_fail assms by (cases r) (force, fastforce)
qed

end

locale byte_sink =
  fixes wr :: "('w, 'b) writer"
    and sunk :: "'w \<Rightarrow> 'b list"
    and wintr :: "'w \<Rightarrow> nat"
  assumes wr_ok: "wr w bs = (Wrote n, w') \<Longrightarrow>
      n \<le> length bs \<and> sunk w' = sunk w @ take n bs \<and> wintr w' \<le> wintr w"
    and wr_fail: "wr w bs = (Wfail e, w') \<Longrightarrow>
      sunk w' = sunk w \<and> wintr w' \<le> wintr w \<and> (e = EINTR \<longrightarrow> wintr w' < wintr w)"

text \<open>The \<open>ssize_t\<close> that \<open>write\<close> returns.\<close>

fun wret :: "wres \<Rightarrow> int" where
  "wret (Wrote n) = int n"
| "wret (Wfail e) = -1"

section \<open>A pipe whose write ends are closed\<close>

text \<open>
  The bytes still in the pipe and a schedule: \<open>None\<close> is a signal that interrupts the
  call, \<open>Some k\<close> a transfer of at most \<open>k + 1\<close> bytes; when the schedule is used up,
  every call transfers what was asked for.
\<close>

type_synonym 'b rpipe = "'b list \<times> nat option list"

fun pipe_read :: "('b rpipe, 'b) reader" where
  "pipe_read (content, []) n = (Got (take n content), (drop n content, []))"
| "pipe_read (content, None # s) n = (Fail EINTR, (content, s))"
| "pipe_read (content, Some k # s) n =
     (Got (take (min n (Suc k)) content), (drop (min n (Suc k)) content, s))"

definition pipe_intr :: "'b rpipe \<Rightarrow> nat" where
  "pipe_intr w = length (filter (\<lambda>x. x = None) (snd w))"

interpretation rpipe: byte_source pipe_read fst pipe_intr
proof unfold_locales
  fix w :: "'b rpipe" and n bs w'
  assume "pipe_read w n = (Got bs, w')"
  then show "fst w = bs @ fst w' \<and> length bs \<le> n \<and> pipe_intr w' \<le> pipe_intr w"
    by (cases "(w, n)" rule: pipe_read.cases) (auto simp: pipe_intr_def)
next
  fix w :: "'b rpipe" and n w'
  assume "0 < n" "pipe_read w n = (Got [], w')"
  then show "fst w = []"
    by (cases "(w, n)" rule: pipe_read.cases) (auto simp: min_def split: if_splits)
next
  fix w :: "'b rpipe" and n e w'
  assume "pipe_read w n = (Fail e, w')"
  then show "e = EINTR \<and> fst w' = fst w \<and> pipe_intr w' < pipe_intr w"
    by (cases "(w, n)" rule: pipe_read.cases) (auto simp: pipe_intr_def)
qed

section \<open>A pipe that takes bytes piecemeal\<close>

text \<open>
  What has been written and a schedule: \<open>Inl e\<close> is a call that fails with \<open>e\<close>,
  \<open>Inr k\<close> a transfer of at most \<open>k\<close> bytes.
\<close>

type_synonym 'b wpipe = "'b list \<times> (int + nat) list"

fun pipe_write :: "('b wpipe, 'b) writer" where
  "pipe_write (out, []) bs = (Wrote (length bs), (out @ bs, []))"
| "pipe_write (out, Inl e # s) bs = (Wfail e, (out, s))"
| "pipe_write (out, Inr k # s) bs = (Wrote (length (take k bs)), (out @ take k bs, s))"

definition wpipe_intr :: "'b wpipe \<Rightarrow> nat" where
  "wpipe_intr w = length (filter (\<lambda>x. x = Inl EINTR) (snd w))"

interpretation wpipe: byte_sink pipe_write fst wpipe_intr
proof unfold_locales
  fix w :: "'b wpipe" and bs n w'
  assume "pipe_write w bs = (Wrote n, w')"
  then show "n \<le> length bs \<and> fst w' = fst w @ take n bs \<and> wpipe_intr w' \<le> wpipe_intr w"
    by (cases "(w, bs)" rule: pipe_write.cases) (auto simp: wpipe_intr_def min_def)
next
  fix w :: "'b wpipe" and bs e w'
  assume "pipe_write w bs = (Wfail e, w')"
  then show "fst w' = fst w \<and> wpipe_intr w' \<le> wpipe_intr w \<and> (e = EINTR \<longrightarrow> wpipe_intr w' < wpipe_intr w)"
    by (cases "(w, bs)" rule: pipe_write.cases) (auto simp: wpipe_intr_def)
qed

end
