(* ===== verification/Fd_Stream.thy ===== *)
theory Fd_Stream
  imports Byte_Io "HOL-Library.Sublist"
begin

text \<open>
  The stream buffers of \<open>include/mozart++/mpp_foundation/fdstream.hpp\<close>: \<open>fdoutbuf\<close>
  writes straight to a descriptor and can be invalidated; \<open>fdinbuf\<close> reads blocks of at
  most \<open>BUFFER_SIZE\<close> characters behind a put-back area of \<open>PUTBACK_SIZE\<close>.  The
  descriptor is the reader or writer parameter; the three get pointers are indices into
  the character array.
\<close>

section \<open>fdoutbuf\<close>

record fdoutbuf =
  out_valid :: bool

definition fdoutbuf_new :: fdoutbuf where
  "fdoutbuf_new = \<lparr>out_valid = True\<rparr>"

definition invalidate :: "fdoutbuf \<Rightarrow> fdoutbuf" where
  "invalidate b = b\<lparr>out_valid := False\<rparr>"

text \<open>\<open>None\<close> is \<open>EOF\<close>, as argument and as result.\<close>

definition overflow :: "('w, char) writer \<Rightarrow> fdoutbuf \<Rightarrow> char option \<Rightarrow> 'w \<Rightarrow> char option \<times> 'w" where
  "overflow wr b c w =
     (if \<not> out_valid b then (None, w)
      else case c of
             None \<Rightarrow> (c, w)
           | Some z \<Rightarrow>
               (case wr w [z] of (r, w') \<Rightarrow> if wret r \<noteq> 1 then (None, w') else (c, w')))"

text \<open>
  The loop of \<open>xsputn\<close>; \<open>mx\<close> is the limit of one request (\<open>None\<close> on Unix, the
  largest \<open>DWORD\<close> on Windows).
\<close>

definition chunk_limit :: "nat option \<Rightarrow> nat \<Rightarrow> nat" where
  "chunk_limit mx chunk =
     (case mx of None \<Rightarrow> chunk | Some max_chunk \<Rightarrow> if chunk > max_chunk then max_chunk else chunk)"

definition win_max_chunk :: nat where
  "win_max_chunk = 2 ^ 32 - 1"

function xsputn_loop ::
  "('w, char) writer \<Rightarrow> nat option \<Rightarrow> string \<Rightarrow> nat \<Rightarrow> 'w \<Rightarrow> nat \<times> 'w" where
  "xsputn_loop wr mx s tot w =
     (if tot < length s then
        (case wr w (take (chunk_limit mx (length s - tot)) (drop tot s)) of
           (r, w') \<Rightarrow>
             if wret r \<le> 0 then (tot, w')
             else xsputn_loop wr mx s (tot + nat (wret r)) w')
      else (tot, w))"
  by pat_completeness auto
termination
  by (relation "measure (\<lambda>(wr, mx, s, tot, w). length s - tot)") auto

declare xsputn_loop.simps [simp del]

definition xsputn :: "('w, char) writer \<Rightarrow> nat option \<Rightarrow> fdoutbuf \<Rightarrow> string \<Rightarrow> 'w \<Rightarrow> nat \<times> 'w" where
  "xsputn wr mx b s w =
     (if \<not> out_valid b then (0, w)
      else if length s = 0 then (0, w)
      else xsputn_loop wr mx s 0 w)"

locale char_sink = byte_sink wr sunk wintr
  for wr :: "('w, char) writer" and sunk :: "'w \<Rightarrow> string" and wintr :: "'w \<Rightarrow> nat"
begin

lemma xsputn_loop_spec:
  assumes "xsputn_loop wr mx s tot w = (t, w')" and "tot \<le> length s"
  shows "tot \<le> t \<and> t \<le> length s \<and> sunk w' = sunk w @ take (t - tot) (drop tot s)
    \<and> (t < length s \<longrightarrow> (\<exists>w1 bs r. wr w1 bs = (r, w') \<and> wret r \<le> 0))"
  using assms
proof (induction "length s - tot" arbitrary: tot w rule: less_induct)
  case less
  show ?case
  proof (cases "tot < length s")
    case False
    with less.prems show ?thesis by (subst (asm) xsputn_loop.simps) auto
  next
    case True
    define bs where "bs = take (chunk_limit mx (length s - tot)) (drop tot s)"
    obtain r w1 where w1: "wr w bs = (r, w1)" by fastforce
    show ?thesis
    proof (cases "wret r \<le> 0")
      case True
      have "sunk w1 = sunk w"
      proof (cases r)
        case (Wrote n)
        with True wr_ok[OF w1[unfolded Wrote]] show ?thesis by simp
      next
        case (Wfail e)
        with wr_fail[OF w1[unfolded Wfail]] show ?thesis by simp
      qed
      moreover have "t = tot" "w' = w1"
        using less.prems \<open>tot < length s\<close> True w1
        by (subst (asm) xsputn_loop.simps, simp add: bs_def)+
      ultimately show ?thesis using less.prems w1 True by auto
    next
      case False
      then obtain n where r: "r = Wrote n" and n: "0 < n" by (cases r) auto
      note k = wr_ok[OF w1[unfolded r]]
      have nl: "n \<le> length s - tot" using k by (simp add: bs_def)
      have tk: "take n bs = take n (drop tot s)" using k by (simp add: bs_def)
      have "xsputn_loop wr mx s (tot + n) w1 = (t, w')"
        using less.prems \<open>tot < length s\<close> False w1
        by (subst (asm) xsputn_loop.simps) (simp add: bs_def r)
      from less.hyps[OF _ this] n nl True
      have h: "tot + n \<le> t" "t \<le> length s" "sunk w' = sunk w1 @ take (t - (tot + n)) (drop (tot + n) s)"
        "t < length s \<longrightarrow> (\<exists>w1 bs r. wr w1 bs = (r, w') \<and> wret r \<le> 0)"
        by auto
      have "take (t - tot) (drop tot s) = take n (drop tot s) @ take (t - (tot + n)) (drop (tot + n) s)"
        using h(1) take_add[of n "t - (tot + n)" "drop tot s"] by (simp add: add.commute)
      with h k tk show ?thesis by simp
    qed
  qed
qed

text \<open>
  What \<open>xsputn\<close> returns is the number of characters that reached the descriptor, in
  order; a short count means that a write failed or took nothing.
\<close>

lemma xsputn_spec:
  assumes "xsputn wr mx b s w = (t, w')"
  shows "t \<le> length s \<and> sunk w' = sunk w @ take t s
    \<and> (out_valid b \<and> t < length s \<longrightarrow> (\<exists>w1 bs r. wr w1 bs = (r, w') \<and> wret r \<le> 0))"
  using assms xsputn_loop_spec[of mx s 0 w t w']
  by (auto simp: xsputn_def split: if_splits)

end

lemma invalidated_refuses:
  "xsputn wr mx (invalidate b) s w = (0, w)"
  "overflow wr (invalidate b) c w = (None, w)"
  by (simp_all add: xsputn_def overflow_def invalidate_def)

interpretation char_pipe: char_sink pipe_write fst wpipe_intr
  by unfold_locales

section \<open>fdinbuf\<close>

abbreviation PUTBACK_SIZE :: nat where "PUTBACK_SIZE \<equiv> 4"
abbreviation BUFFER_SIZE :: nat where "BUFFER_SIZE \<equiv> 1024"

record fdinbuf =
  buffer :: string
  eback :: nat
  gptr :: nat
  egptr :: nat

definition fdinbuf_new :: fdinbuf where
  "fdinbuf_new = \<lparr>buffer = replicate (BUFFER_SIZE + PUTBACK_SIZE) (CHR 0x00),
     eback = PUTBACK_SIZE, gptr = PUTBACK_SIZE, egptr = PUTBACK_SIZE\<rparr>"

definition underflow :: "('w, char) reader \<Rightarrow> fdinbuf \<Rightarrow> 'w \<Rightarrow> char option \<times> fdinbuf \<times> 'w" where
  "underflow rd b w =
     (if gptr b < egptr b then (Some (buffer b ! gptr b), b, w)
      else
        let size = gptr b - eback b;
            backSize = (if size > PUTBACK_SIZE then PUTBACK_SIZE else size);
            moved = write_at (PUTBACK_SIZE - backSize)
                      (take backSize (drop (gptr b - backSize) (buffer b))) (buffer b)
        in case rd w BUFFER_SIZE of
             (Fail e, w') \<Rightarrow> (None, b\<lparr>buffer := moved\<rparr>, w')
           | (Got bs, w') \<Rightarrow>
               if length bs = 0 then (None, b\<lparr>buffer := moved\<rparr>, w')
               else
                 let b' = b\<lparr>buffer := write_at PUTBACK_SIZE bs moved,
                            eback := PUTBACK_SIZE - backSize,
                            gptr := PUTBACK_SIZE,
                            egptr := PUTBACK_SIZE + length bs\<rparr>
                 in (Some (buffer b' ! gptr b'), b', w'))"

text \<open>
  What \<open>std::streambuf\<close> and \<open>operator<<(streambuf *)\<close> do with it: \<open>sbumpc\<close> takes one
  character, and \<open>ss << rdbuf()\<close> takes characters until end of file.
\<close>

definition sbumpc :: "('w, char) reader \<Rightarrow> fdinbuf \<Rightarrow> 'w \<Rightarrow> char option \<times> fdinbuf \<times> 'w" where
  "sbumpc rd b w =
     (case underflow rd b w of
        (None, b', w') \<Rightarrow> (None, b', w')
      | (Some c, b', w') \<Rightarrow> (Some c, b'\<lparr>gptr := gptr b' + 1\<rparr>, w'))"

fun take_chars :: "('w, char) reader \<Rightarrow> nat \<Rightarrow> fdinbuf \<Rightarrow> 'w \<Rightarrow> string \<times> fdinbuf \<times> 'w" where
  "take_chars rd 0 b w = ([], b, w)"
| "take_chars rd (Suc n) b w =
     (case sbumpc rd b w of
        (None, b', w') \<Rightarrow> ([], b', w')
      | (Some c, b', w') \<Rightarrow> (case take_chars rd n b' w' of (cs, r) \<Rightarrow> (c # cs, r)))"

partial_function (option) read_all ::
  "('w, char) reader \<Rightarrow> string \<Rightarrow> fdinbuf \<Rightarrow> 'w \<Rightarrow> (string \<times> fdinbuf \<times> 'w) option" where
  "read_all rd acc b w =
     (case sbumpc rd b w of
        (None, b', w') \<Rightarrow> Some (acc, b', w')
      | (Some c, b', w') \<Rightarrow> read_all rd (acc @ [c]) b' w')"

text \<open>The characters before the read position, which can be put back, and those after it.\<close>

definition back_area :: "fdinbuf \<Rightarrow> string" where
  "back_area b = take (gptr b - eback b) (drop (eback b) (buffer b))"

definition unread :: "fdinbuf \<Rightarrow> string" where
  "unread b = take (egptr b - gptr b) (drop (gptr b) (buffer b))"

definition fdinbuf_ok :: "fdinbuf \<Rightarrow> bool" where
  "fdinbuf_ok b \<longleftrightarrow> length (buffer b) = BUFFER_SIZE + PUTBACK_SIZE \<and>
     eback b \<le> PUTBACK_SIZE \<and> PUTBACK_SIZE \<le> gptr b \<and> gptr b \<le> egptr b \<and>
     egptr b \<le> BUFFER_SIZE + PUTBACK_SIZE"

lemma fdinbuf_ok_new: "fdinbuf_ok fdinbuf_new"
  by (simp add: fdinbuf_ok_def fdinbuf_new_def)

lemma new_areas [simp]: "back_area fdinbuf_new = []" "unread fdinbuf_new = []"
  by (simp_all add: back_area_def unread_def fdinbuf_new_def)

lemma unread_Nil_iff: "fdinbuf_ok b \<Longrightarrow> unread b = [] \<longleftrightarrow> gptr b = egptr b"
  by (auto simp: unread_def fdinbuf_ok_def)

text \<open>Taking a character that is already in the buffer.\<close>

lemma sbumpc_buffered:
  assumes "fdinbuf_ok b" and "gptr b < egptr b"
  shows "\<exists>c. sbumpc rd b w = (Some c, b\<lparr>gptr := gptr b + 1\<rparr>, w) \<and>
    fdinbuf_ok (b\<lparr>gptr := gptr b + 1\<rparr>) \<and>
    unread b = c # unread (b\<lparr>gptr := gptr b + 1\<rparr>) \<and>
    back_area (b\<lparr>gptr := gptr b + 1\<rparr>) = back_area b @ [c]"
proof -
  have l: "gptr b < length (buffer b)" "eback b \<le> gptr b"
    using assms by (auto simp: fdinbuf_ok_def)
  have d: "drop (gptr b) (buffer b) = buffer b ! gptr b # drop (Suc (gptr b)) (buffer b)"
    using l(1) by (simp add: Cons_nth_drop_Suc)
  have "unread b = buffer b ! gptr b # unread (b\<lparr>gptr := gptr b + 1\<rparr>)"
    using assms(2) by (simp add: unread_def d take_Suc Suc_diff_Suc [symmetric])
  moreover have "back_area (b\<lparr>gptr := gptr b + 1\<rparr>) = back_area b @ [buffer b ! gptr b]"
    using l by (simp add: back_area_def Suc_diff_le take_Suc_conv_app_nth)
  ultimately show ?thesis
    using assms by (auto simp: sbumpc_def underflow_def fdinbuf_ok_def)
qed

text \<open>A refill keeps the last characters of the back area, at most four.\<close>

lemma underflow_refill:
  assumes ok: "fdinbuf_ok b" and e: "gptr b = egptr b" and rd: "rd w BUFFER_SIZE = (Got bs, w')"
    and bs: "bs \<noteq> []" "length bs \<le> BUFFER_SIZE"
  shows "\<exists>b'. underflow rd b w = (Some (hd bs), b', w') \<and> fdinbuf_ok b' \<and> gptr b' < egptr b' \<and>
    unread b' = bs \<and>
    back_area b' = drop (length (back_area b) - min PUTBACK_SIZE (length (back_area b))) (back_area b)"
proof -
  define k where "k = min PUTBACK_SIZE (gptr b - eback b)"
  define m where "m = write_at (PUTBACK_SIZE - k) (take k (drop (gptr b - k) (buffer b))) (buffer b)"
  define b' where "b' = b\<lparr>buffer := write_at PUTBACK_SIZE bs m, eback := PUTBACK_SIZE - k,
    gptr := PUTBACK_SIZE, egptr := PUTBACK_SIZE + length bs\<rparr>"
  have g: "gptr b \<le> length (buffer b)" "k \<le> gptr b" "k \<le> PUTBACK_SIZE" "eback b \<le> gptr b"
      "length (buffer b) = 1028"
    using ok by (auto simp: fdinbuf_ok_def k_def)
  have tk: "length (take k (drop (gptr b - k) (buffer b))) = k" using g by simp
  have lm: "length m = 1028" using g tk by (simp add: m_def)
  have lb: "length (write_at PUTBACK_SIZE bs m) = 1028" using bs lm by simp
  have u: "unread b' = bs"
    using lm bs by (simp add: unread_def b'_def write_at_def)
  have "back_area b' = drop (PUTBACK_SIZE - k) (take PUTBACK_SIZE m)"
    using g lm by (simp add: back_area_def b'_def write_at_def take_drop)
  also have "\<dots> = take k (drop (gptr b - k) (buffer b))"
    using g tk by (simp add: m_def write_at_def)
  also have "\<dots> = drop (gptr b - eback b - k) (back_area b)"
    using g by (simp add: back_area_def drop_take k_def min_def)
  finally have ba: "back_area b' = drop (gptr b - eback b - k) (back_area b)" .
  have lba: "length (back_area b) = gptr b - eback b" using g by (simp add: back_area_def)
  have "underflow rd b w = (Some (write_at PUTBACK_SIZE bs m ! PUTBACK_SIZE), b', w')"
    using e rd bs by (simp add: underflow_def Let_def b'_def m_def k_def min_def)
  moreover have "write_at PUTBACK_SIZE bs m ! PUTBACK_SIZE = hd bs"
    using lm bs by (cases bs) (simp_all add: write_at_def nth_append)
  moreover have "fdinbuf_ok b'" "gptr b' < egptr b'"
    using lb bs by (auto simp: fdinbuf_ok_def b'_def)
  ultimately show ?thesis using u ba lba by (auto simp: k_def)
qed

section \<open>The buffer as a view of the descriptor\<close>

text \<open>
  \<open>seen\<close> are the characters taken so far: the back area holds the last ones of them, and
  at least the last four.
\<close>

definition back_ok :: "string \<Rightarrow> fdinbuf \<Rightarrow> bool" where
  "back_ok seen b \<longleftrightarrow>
     suffix (back_area b) seen \<and> min PUTBACK_SIZE (length seen) \<le> length (back_area b)"

lemma back_ok_snoc: "back_ok seen b \<Longrightarrow> back_area b' = back_area b @ [c] \<Longrightarrow> back_ok (seen @ [c]) b'"
  by (auto simp: back_ok_def suffix_def split: if_splits)

lemma back_ok_refill:
  assumes "back_ok seen b"
    and "back_area b' = drop (length (back_area b) - min PUTBACK_SIZE (length (back_area b))) (back_area b)"
  shows "back_ok seen b'"
proof -
  have "suffix (back_area b') (back_area b)" using assms(2) by (simp add: suffix_drop)
  with assms show ?thesis by (auto simp: back_ok_def intro: suffix_order.trans)
qed

locale char_source = byte_source rd pending intr
  for rd :: "('w, char) reader" and pending :: "'w \<Rightarrow> string" and intr :: "'w \<Rightarrow> nat"
begin

lemma sbumpc_end:
  assumes "fdinbuf_ok b" "intr w = 0" "unread b @ pending w = []"
  shows "\<exists>b' w'. sbumpc rd b w = (None, b', w') \<and> pending w' = [] \<and> intr w' = 0"
proof -
  have e: "\<not> gptr b < egptr b" using assms unread_Nil_iff by auto
  obtain bs w' where "rd w BUFFER_SIZE = (Got bs, w')" "pending w = bs @ pending w'" "intr w' = 0"
    using rd_quiet[OF assms(2)] by blast
  with e assms(3) show ?thesis by (simp add: sbumpc_def underflow_def Let_def)
qed

lemma sbumpc_next:
  assumes ok: "fdinbuf_ok b" and q: "intr w = 0" and "back_ok seen b"
    and nx: "unread b @ pending w = c # cs"
  shows "\<exists>b' w'. sbumpc rd b w = (Some c, b', w') \<and> unread b' @ pending w' = cs \<and>
    fdinbuf_ok b' \<and> intr w' = 0 \<and> back_ok (seen @ [c]) b'"
proof (cases "gptr b < egptr b")
  case True
  from sbumpc_buffered[OF ok True, of rd w] assms show ?thesis
    by (auto intro: back_ok_snoc)
next
  case False
  then have e: "gptr b = egptr b" and u: "unread b = []" using ok unread_Nil_iff[OF ok]
    by (auto simp: fdinbuf_ok_def)
  obtain bs w' where r: "rd w BUFFER_SIZE = (Got bs, w')" and p: "pending w = bs @ pending w'"
    and l: "length bs \<le> BUFFER_SIZE" and q': "intr w' = 0"
    using rd_quiet[OF q] by blast
  have ne: "bs \<noteq> []" using rd_eof[of BUFFER_SIZE w w'] r nx u by auto
  obtain b1 where b1: "underflow rd b w = (Some (hd bs), b1, w')" "fdinbuf_ok b1" "gptr b1 < egptr b1"
    "unread b1 = bs"
    "back_area b1 = drop (length (back_area b) - min PUTBACK_SIZE (length (back_area b))) (back_area b)"
    using underflow_refill[of b rd w bs w'] ok e r ne l by blast
  have ok1: "back_ok seen b1" using assms(3) b1(5) by (rule back_ok_refill)
  obtain d where d: "fdinbuf_ok (b1\<lparr>gptr := gptr b1 + 1\<rparr>)"
    "unread b1 = d # unread (b1\<lparr>gptr := gptr b1 + 1\<rparr>)"
    "back_area (b1\<lparr>gptr := gptr b1 + 1\<rparr>) = back_area b1 @ [d]"
    using sbumpc_buffered[OF b1(2,3), of rd w'] by blast
  have "d = c" "hd bs = c" "unread (b1\<lparr>gptr := gptr b1 + 1\<rparr>) @ pending w' = cs"
    using d(2) b1(4) nx u p ne by auto
  moreover have "back_ok (seen @ [d]) (b1\<lparr>gptr := gptr b1 + 1\<rparr>)"
    using ok1 d(3) by (rule back_ok_snoc)
  moreover have "sbumpc rd b w = (Some (hd bs), b1\<lparr>gptr := gptr b1 + 1\<rparr>, w')"
    using b1(1) by (simp add: sbumpc_def)
  ultimately show ?thesis using d(1) q' by auto
qed

lemma take_chars_spec:
  assumes "fdinbuf_ok b" "intr w = 0" "back_ok seen b"
    and "n \<le> length (unread b @ pending w)"
    and "take_chars rd n b w = (cs, b', w')"
  shows "cs = take n (unread b @ pending w) \<and> unread b' @ pending w' = drop n (unread b @ pending w)
    \<and> fdinbuf_ok b' \<and> intr w' = 0 \<and> back_ok (seen @ cs) b'"
  using assms
proof (induction n arbitrary: seen b w cs)
  case 0
  then show ?case by simp
next
  case (Suc n)
  then obtain d ds where nx: "unread b @ pending w = d # ds" by (cases "unread b @ pending w") auto
  obtain b1 w1 where s: "sbumpc rd b w = (Some d, b1, w1)" and u: "unread b1 @ pending w1 = ds"
    and ok: "fdinbuf_ok b1" "intr w1 = 0" "back_ok (seen @ [d]) b1"
    using sbumpc_next[OF Suc.prems(1-3) nx] by blast
  obtain cs1 where t: "take_chars rd n b1 w1 = (cs1, b', w')" and cs: "cs = d # cs1"
    using Suc.prems(5) s by (auto split: prod.splits)
  have "n \<le> length (unread b1 @ pending w1)" using Suc.prems(4) nx u by simp
  from Suc.IH[OF ok this t] show ?case using cs nx u by auto
qed

lemma read_all_spec:
  assumes "fdinbuf_ok b" "intr w = 0" "back_ok seen b"
  shows "\<exists>b' w'. read_all rd acc b w = Some (acc @ unread b @ pending w, b', w') \<and> pending w' = []"
  using assms
proof (induction "unread b @ pending w" arbitrary: seen acc b w)
  case Nil
  from sbumpc_end[OF Nil.prems(1,2) Nil.hyps[symmetric]] Nil.hyps show ?case
    by (subst read_all.simps) auto
next
  case (Cons c cs)
  obtain b1 w1 where s: "sbumpc rd b w = (Some c, b1, w1)" and u: "unread b1 @ pending w1 = cs"
    and ok: "fdinbuf_ok b1" "intr w1 = 0" "back_ok (seen @ [c]) b1"
    using sbumpc_next[OF Cons.prems Cons.hyps(2)[symmetric]] by blast
  from Cons.hyps(1)[OF u[symmetric] ok, of "acc @ [c]"] obtain b' w' where
    "read_all rd (acc @ [c]) b1 w1 = Some ((acc @ [c]) @ unread b1 @ pending w1, b', w')"
    "pending w' = []" by blast
  with s u Cons.hyps(2) show ?case by (subst read_all.simps) auto
qed

end

lemma back_ok_new: "back_ok [] fdinbuf_new"
  by (simp add: back_ok_def)

interpretation char_rpipe: char_source pipe_read fst pipe_intr
  by unfold_locales

section \<open>Properties\<close>

text \<open>
  C28.  Collecting a stream through \<open>fdinbuf\<close> returns exactly the bytes of the
  descriptor: for every reader that meets the contract of \<open>read\<close> and is not interrupted,
  \<open>ss << rdbuf()\<close> on a new buffer ends, and what it collected is everything that was
  pending, whatever the sizes of the individual reads.
\<close>

theorem read_all_collects:
  assumes "char_source rd pending intr" and "intr w = 0"
  shows "\<exists>b' w'. read_all rd [] fdinbuf_new w = Some (pending w, b', w') \<and> pending w' = []"
proof -
  have "\<exists>b' w'. read_all rd [] fdinbuf_new w = Some ([] @ unread fdinbuf_new @ pending w, b', w') \<and> pending w' = []"
    by (rule char_source.read_all_spec[OF assms(1), OF fdinbuf_ok_new assms(2) back_ok_new])
  then show ?thesis by (simp only: new_areas append_Nil)
qed

theorem read_all_collects_witness:
  "\<exists>b' w'. read_all pipe_read [] fdinbuf_new (''hello'', [Some 1, Some 0]) = Some (''hello'', b', w')
     \<and> fst w' = []"
proof -
  have i: "pipe_intr (''hello'', [Some 1, Some 0]) = 0" by (simp add: pipe_intr_def)
  show ?thesis using read_all_collects[OF char_rpipe.char_source_axioms, OF i] by (simp only: fst_conv)
qed

text \<open>
  The put-back guarantee: after \<open>n\<close> characters have been taken (and none was
  missing), the characters taken are the first \<open>n\<close> bytes, and the area before the read
  position holds the last of them in order, at least \<open>min 4 n\<close>, across every refill.
\<close>

theorem putback_guarantee:
  assumes "char_source rd pending intr" and "intr w = 0" and "n \<le> length (pending w)"
    and "take_chars rd n fdinbuf_new w = (cs, b', w')"
  shows "cs = take n (pending w) \<and> suffix (back_area b') cs \<and> min 4 n \<le> length (back_area b')
    \<and> unread b' @ pending w' = drop n (pending w)"
proof -
  have "n \<le> length (unread fdinbuf_new @ pending w)" using assms(3) by simp
  from char_source.take_chars_spec[OF assms(1), OF fdinbuf_ok_new assms(2) back_ok_new this assms(4)] assms(3)
  show ?thesis by (auto simp: back_ok_def)
qed

theorem putback_guarantee_witness:
  "\<exists>cs b' w'. take_chars pipe_read 3 fdinbuf_new (''abcde'', [Some 1, Some 1]) = (cs, b', w')
     \<and> cs = take 3 ''abcde'' \<and> suffix (back_area b') cs \<and> min 4 3 \<le> length (back_area b')
     \<and> unread b' @ fst w' = drop 3 ''abcde''"
proof -
  obtain cs b' w' where t: "take_chars pipe_read 3 fdinbuf_new (''abcde'', [Some 1, Some 1]) = (cs, b', w')"
    using prod_cases3 by blast
  have i: "pipe_intr (''abcde'', [Some 1, Some 1]) = 0" by (simp add: pipe_intr_def)
  have l: "3 \<le> length (fst (''abcde'', [Some (1::nat), Some 1]))" by simp
  show ?thesis using t putback_guarantee[OF char_rpipe.char_source_axioms, OF i l t, unfolded fst_conv] by blast
qed

text \<open>
  A read that ends the stream moves the put-back area but not the get pointers, so after
  end of file only the characters of the last block are where the pointers say: with
  blocks \<open>abcd\<close> and \<open>ef\<close>, the area of six characters reads \<open>cdefef\<close>.
\<close>

lemma putback_after_eof:
  "(case take_chars pipe_read 7 fdinbuf_new (''abcdef'', [Some 3, Some 1]) of
      (cs, b, w) \<Rightarrow> cs = ''abcdef'' \<and> back_area b = ''cdefef'')"
  by code_simp

text \<open>
  What \<open>xsputn\<close> returns is the number of characters that reached the descriptor,
  and they are a prefix of the argument, each written once and in order; a short count
  means that the last \<open>write\<close> failed or took nothing; an invalidated buffer writes
  nothing.
\<close>

theorem xsputn_writes_prefix:
  assumes "char_sink wr sunk wintr" and "xsputn wr mx b s w = (t, w')"
  shows "t \<le> length s \<and> sunk w' = sunk w @ take t s
    \<and> (out_valid b \<and> t < length s \<longrightarrow> (\<exists>w1 bs r. wr w1 bs = (r, w') \<and> wret r \<le> 0))
    \<and> (\<not> out_valid b \<longrightarrow> t = 0 \<and> w' = w)"
  using char_sink.xsputn_spec[OF assms(1), OF assms(2)] assms(2) by (auto simp: xsputn_def)

theorem xsputn_writes_prefix_witness:
  "\<exists>t w'. xsputn pipe_write None fdoutbuf_new ''hello'' ([], [Inr 2, Inl 32]) = (t, w')
     \<and> t \<le> length ''hello'' \<and> fst w' = [] @ take t ''hello''"
proof -
  obtain t w' where x: "xsputn pipe_write None fdoutbuf_new ''hello'' ([], [Inr 2, Inl 32]) = (t, w')"
    by (cases "xsputn pipe_write None fdoutbuf_new ''hello'' ([], [Inr 2, Inl 32])") auto
  show ?thesis using x xsputn_writes_prefix[OF char_pipe.char_sink_axioms, OF x] by auto
qed

end
