(* ===== verification/Win_Io.thy ===== *)
theory Win_Io
  imports Fd_Stream
begin

text \<open>
  \<open>read\<close> and \<open>write\<close> of \<open>include/mozart++/mpp_foundation/io.hpp\<close> on Windows, and the stream
  buffers over them.  The locales \<open>write_pipe\<close> and \<open>read_pipe\<close> state what \<open>WriteFile\<close> and
  \<open>ReadFile\<close> promise on a pipe; they give the contracts that the stream buffers use.
\<close>

section \<open>read and write over ReadFile and WriteFile\<close>

text \<open>
  \<open>ReadFile\<close> gives the bytes it read or fails; \<open>WriteFile\<close> gives the number of bytes it
  wrote or fails.  Neither sets \<open>errno\<close>: a failure is -1 with no code.
\<close>

type_synonym 'w read_file = "'w \<Rightarrow> nat \<Rightarrow> string option \<times> 'w"
type_synonym 'w write_file = "'w \<Rightarrow> string \<Rightarrow> nat option \<times> 'w"

abbreviation MAXDWORD :: nat where "MAXDWORD \<equiv> 2 ^ 32 - 1"

abbreviation no_errno :: int where "no_errno \<equiv> 0"

definition win_read :: "'w read_file \<Rightarrow> ('w, char) reader" where
  "win_read ReadFile w count =
     (if count > MAXDWORD then (Fail no_errno, w)
      else case ReadFile w count of
             (Some dwRead, w') \<Rightarrow> (Got dwRead, w')
           | (None, w') \<Rightarrow> (Fail no_errno, w'))"

definition win_write :: "'w write_file \<Rightarrow> ('w, char) writer" where
  "win_write WriteFile w bs =
     (if length bs > MAXDWORD then (Wfail no_errno, w)
      else case WriteFile w bs of
             (Some dwWritten, w') \<Rightarrow> (Wrote dwWritten, w')
           | (None, w') \<Rightarrow> (Wfail no_errno, w'))"

section \<open>Writing\<close>

text \<open>\<open>WriteFile\<close> on a pipe: it writes a prefix of what it is given, or fails and writes nothing.\<close>

locale write_pipe =
  fixes WriteFile :: "'w write_file"
    and sunk :: "'w \<Rightarrow> string"
  assumes wf_ok: "WriteFile w bs = (Some n, w') \<Longrightarrow> n \<le> length bs \<and> sunk w' = sunk w @ take n bs"
    and wf_fail: "WriteFile w bs = (None, w') \<Longrightarrow> sunk w' = sunk w"

sublocale write_pipe \<subseteq> char_sink "win_write WriteFile" sunk "\<lambda>_. 0"
  by unfold_locales (auto simp: win_write_def dest: wf_ok wf_fail split: if_splits prod.splits option.splits)

text \<open>A pipe with the room that it has for each call, and \<open>None\<close> for a reader that is gone.\<close>

fun pipe_WriteFile :: "(string \<times> nat option list) write_file" where
  "pipe_WriteFile (out, []) bs = (Some (length bs), (out @ bs, []))"
| "pipe_WriteFile (out, None # room) bs = (None, (out, None # room))"
| "pipe_WriteFile (out, Some k # room) bs = (Some (length (take k bs)), (out @ take k bs, room))"

interpretation wpw: write_pipe pipe_WriteFile fst
proof unfold_locales
  fix w w' :: "string \<times> nat option list" and bs n
  assume "pipe_WriteFile w bs = (Some n, w')"
  then show "n \<le> length bs \<and> fst w' = fst w @ take n bs"
    by (cases "(w, bs)" rule: pipe_WriteFile.cases) (auto simp: min_def)
next
  fix w w' :: "string \<times> nat option list" and bs
  assume "pipe_WriteFile w bs = (None, w')"
  then show "fst w' = fst w" by (cases "(w, bs)" rule: pipe_WriteFile.cases) auto
qed

section \<open>Reading\<close>

text \<open>
  \<open>ReadFile\<close> on an anonymous pipe fails at the end, when every writer is gone
  (\<open>ERROR_BROKEN_PIPE\<close>), where \<open>read\<close> of Unix returns no bytes.
\<close>

locale read_pipe =
  fixes ReadFile :: "'w read_file"
    and pending :: "'w \<Rightarrow> string"
  assumes rf_ok: "ReadFile w n = (Some bs, w') \<Longrightarrow> pending w = bs @ pending w' \<and> length bs \<le> n"
    and rf_zero: "0 < n \<Longrightarrow> ReadFile w n = (Some [], w') \<Longrightarrow> pending w = []"
    and rf_broken: "ReadFile w n = (None, w') \<Longrightarrow> pending w = [] \<and> pending w' = []"

text \<open>To the stream buffer, a failure is the end of the file.\<close>

definition at_eof :: "'w read_file \<Rightarrow> ('w, char) reader" where
  "at_eof ReadFile w n = (case ReadFile w n of (Some bs, w') \<Rightarrow> (Got bs, w') | (None, w') \<Rightarrow> (Got [], w'))"

sublocale read_pipe \<subseteq> ends: char_source "at_eof ReadFile" pending "\<lambda>_. 0"
  by unfold_locales
    (auto simp: at_eof_def dest: rf_ok rf_zero rf_broken split: prod.splits option.splits)

lemma underflow_at_eof: "underflow (win_read ReadFile) b w = underflow (at_eof ReadFile) b w"
  by (simp add: underflow_def win_read_def at_eof_def Let_def split: prod.split option.split)

lemma sbumpc_at_eof: "sbumpc (win_read ReadFile) = sbumpc (at_eof ReadFile)"
  by (intro ext) (simp add: sbumpc_def underflow_at_eof)

fun pipe_ReadFile :: "(string \<times> nat list) read_file" where
  "pipe_ReadFile ([], s) n = (None, ([], s))"
| "pipe_ReadFile (content, []) n = (Some (take n content), (drop n content, []))"
| "pipe_ReadFile (content, k # s) n =
     (Some (take (min n (Suc k)) content), (drop (min n (Suc k)) content, s))"

interpretation rpw: read_pipe pipe_ReadFile fst
proof unfold_locales
  fix w w' :: "string \<times> nat list" and n bs
  assume "pipe_ReadFile w n = (Some bs, w')"
  then show "fst w = bs @ fst w' \<and> length bs \<le> n"
    by (cases "(w, n)" rule: pipe_ReadFile.cases) auto
next
  fix w w' :: "string \<times> nat list" and n :: nat
  assume "0 < n" "pipe_ReadFile w n = (Some [], w')"
  then show "fst w = []" by (cases "(w, n)" rule: pipe_ReadFile.cases) (auto simp: min_def split: if_splits)
next
  fix w w' :: "string \<times> nat list" and n
  assume "pipe_ReadFile w n = (None, w')"
  then show "fst w = [] \<and> fst w' = []" by (cases "(w, n)" rule: pipe_ReadFile.cases) auto
qed

context read_pipe
begin

lemma win_read_all:
  assumes "fdinbuf_ok b" "back_ok seen b"
  shows "\<exists>b' w'. read_all (win_read ReadFile) acc b w = Some (acc @ unread b @ pending w, b', w') \<and> pending w' = []"
  using assms
proof (induction "unread b @ pending w" arbitrary: seen acc b w)
  case Nil
  from ends.sbumpc_end[OF Nil.prems(1) refl Nil.hyps[symmetric]] Nil.hyps show ?case
    by (subst read_all.simps) (auto simp: sbumpc_at_eof)
next
  case (Cons c cs)
  obtain b1 w1 where s: "sbumpc (at_eof ReadFile) b w = (Some c, b1, w1)" and u: "unread b1 @ pending w1 = cs"
    and ok: "fdinbuf_ok b1" "back_ok (seen @ [c]) b1"
    using ends.sbumpc_next[OF Cons.prems(1) refl Cons.prems(2) Cons.hyps(2)[symmetric]] by blast
  from Cons.hyps(1)[OF u[symmetric] ok, of "acc @ [c]"] s u Cons.hyps(2) show ?case
    by (subst read_all.simps) (auto simp: sbumpc_at_eof)
qed

end

section \<open>Properties\<close>

text \<open>
  On Windows too, collecting a stream yields exactly what was in the pipe.  The end is a failed
  read there: the -1 that the source calls an error, to be told from the 0 of the end of file,
  is how every pipe ends.
\<close>

theorem win_read_all_collects:
  assumes "read_pipe ReadFile pending"
  shows "\<exists>b' w'. read_all (win_read ReadFile) [] fdinbuf_new w = Some (pending w, b', w') \<and> pending w' = []"
  using read_pipe.win_read_all[OF assms fdinbuf_ok_new back_ok_new, of "[]" w] by simp

lemma win_xsputn_loop:
  assumes "\<And>w bs. length bs \<le> MAXDWORD \<Longrightarrow> \<exists>w'. WriteFile w bs = (Some (length bs), w') \<and> sunk w' = sunk w @ bs"
    and "tot \<le> length s"
  shows "\<exists>w'. xsputn_loop (win_write WriteFile) (Some win_max_chunk) s tot w = (length s, w') \<and>
    sunk w' = sunk w @ drop tot s"
  using assms(2)
proof (induction "length s - tot" arbitrary: tot w rule: less_induct)
  case less
  show ?case
  proof (cases "tot < length s")
    case False
    with less.prems show ?thesis by (subst xsputn_loop.simps) simp
  next
    case True
    define bs where "bs = take (chunk_limit (Some win_max_chunk) (length s - tot)) (drop tot s)"
    have l: "length bs = min win_max_chunk (length s - tot)" by (simp add: bs_def chunk_limit_def min_def)
    then have "length bs \<le> MAXDWORD" "0 < length bs" using True by (simp_all add: win_max_chunk_def)
    with assms(1)[of bs w] obtain w1 where w1: "win_write WriteFile w bs = (Wrote (length bs), w1)" "sunk w1 = sunk w @ bs"
      by (auto simp: win_write_def)
    have "tot + length bs \<le> length s" using l True by simp
    have "length s - (tot + length bs) < length s - tot" 
      using True \<open>0 < length bs\<close> by linarith
    from less.hyps[OF this \<open>tot + length bs \<le> length s\<close>, of w1] obtain w' where
      w': "xsputn_loop (win_write WriteFile) (Some win_max_chunk) s (tot + length bs) w1 = (length s, w')"
        "sunk w' = sunk w1 @ drop (tot + length bs) s" by auto
    have "take k xs @ drop (length (take k xs)) xs = xs" for k and xs :: string
      by (cases "k \<le> length xs") simp_all
    then have "bs @ drop (length bs) (drop tot s) = drop tot s" unfolding bs_def by blast
    then have "bs @ drop (tot + length bs) s = drop tot s" by (simp add: add.commute)
    then have "sunk w' = sunk w @ drop tot s" using w1(2) w'(2) by simp
    with True w1(1) \<open>0 < length bs\<close> w'(1) show ?thesis
      by (subst xsputn_loop.simps) (simp add: bs_def[symmetric])
  qed
qed

text \<open>
  On Windows a text of any length is written completely when the pipe takes what it is
  given, because no request is larger than \<open>WriteFile\<close> can take; without the limit, a text that is
  longer than the largest \<open>DWORD\<close> would not be written at all.
\<close>

theorem win_xsputn_any_length:
  assumes "\<And>w bs. length bs \<le> MAXDWORD \<Longrightarrow> \<exists>w'. WriteFile w bs = (Some (length bs), w') \<and> sunk w' = sunk w @ bs"
  shows "(\<exists>w'. xsputn (win_write WriteFile) (Some win_max_chunk) fdoutbuf_new s w = (length s, w') \<and> sunk w' = sunk w @ s) \<and>
    (length s > MAXDWORD \<longrightarrow> xsputn (win_write WriteFile) None fdoutbuf_new s w = (0, w))"
proof
  show "\<exists>w'. xsputn (win_write WriteFile) (Some win_max_chunk) fdoutbuf_new s w = (length s, w') \<and> sunk w' = sunk w @ s"
    using win_xsputn_loop[of WriteFile sunk 0 s w, OF assms] by (simp add: xsputn_def fdoutbuf_new_def)
  show "length s > MAXDWORD \<longrightarrow> xsputn (win_write WriteFile) None fdoutbuf_new s w = (0, w)"
    by (auto simp: xsputn_def fdoutbuf_new_def win_write_def chunk_limit_def xsputn_loop.simps)
qed

definition roomy_WriteFile :: "string write_file" where
  "roomy_WriteFile w bs = (Some (length bs), w @ bs)"

theorem win_xsputn_any_length_witness:
  "\<exists>w'. xsputn (win_write roomy_WriteFile) (Some win_max_chunk) fdoutbuf_new ''text'' ''some '' = (4, w') \<and> w' = ''some text''"
proof -
  have "\<exists>w'. roomy_WriteFile w bs = (Some (length bs), w') \<and> id w' = id w @ bs" for w bs
    by (simp add: roomy_WriteFile_def)
  from win_xsputn_any_length[of roomy_WriteFile id, OF this, of "''text''" "''some ''"] show ?thesis by auto
qed

end
