(* ===== verification/Type_Lists.thy ===== *)
theory Type_Lists
  imports Prelude
begin

text \<open>
  The templates of \<open>include/mozart++/mpp_core/type_traits.hpp\<close> and \<open>function.hpp\<close>, which
  compute with types while the program is compiled: they are functional programs, and the model
  runs them on types as data.  A template that has no matching specialisation, which is an error
  of the compiler, is \<open>None\<close>.
\<close>

section \<open>Types\<close>

datatype ctype = Named string | Pointer ctype | Const ctype | Array ctype nat | Lref ctype | Rref ctype

fun remove_reference :: "ctype \<Rightarrow> ctype" where
  "remove_reference (Lref t) = t"
| "remove_reference (Rref t) = t"
| "remove_reference t = t"

fun remove_const :: "ctype \<Rightarrow> ctype" where
  "remove_const (Const t) = t"
| "remove_const t = t"

text \<open>\<open>std::decay_t\<close> turns an array into a pointer to its elements.\<close>

definition decay :: "ctype \<Rightarrow> ctype" where
  "decay t = (case remove_reference t of Array e n \<Rightarrow> Pointer e | u \<Rightarrow> remove_const u)"

text \<open>\<open>typeid\<close> ignores references and outer qualifiers; those of an array are its elements'.\<close>

definition typeid :: "ctype \<Rightarrow> ctype" where
  "typeid t = (case remove_reference t of Array e n \<Rightarrow> Array (remove_const e) n | u \<Rightarrow> remove_const u)"

section \<open>Integer sequences and lists of types\<close>

text \<open>\<open>make_sequence<N, seq...>\<close> inherits from \<open>make_sequence<N - 1, N - 1, seq...>\<close>.\<close>

fun make_sequence :: "nat \<Rightarrow> nat list \<Rightarrow> nat list" where
  "make_sequence 0 sq = sq"
| "make_sequence (Suc n) sq = make_sequence n (n # sq)"

abbreviation make_sequence_t :: "nat \<Rightarrow> nat list" where
  "make_sequence_t n \<equiv> make_sequence n []"

lemma make_sequence_upt: "make_sequence n sq = [0..<n] @ sq"
  by (induction n arbitrary: sq) simp_all

definition tl_cons :: "'t \<Rightarrow> 't list \<Rightarrow> 't list" where
  "tl_cons t ts = t # ts"

fun tl_head :: "'t list \<Rightarrow> 't option" where
  "tl_head (t # ts) = Some t"
| "tl_head [] = None"

fun tl_tail :: "'t list \<Rightarrow> 't list option" where
  "tl_tail (t # ts) = Some ts"
| "tl_tail [] = None"

definition tl_concat :: "'t list \<Rightarrow> 't list \<Rightarrow> 't list" where
  "tl_concat ts us = ts @ us"

definition tl_size :: "'t list \<Rightarrow> nat" where
  "tl_size ts = length ts"

definition tl_empty :: "'t list \<Rightarrow> bool" where
  "tl_empty ts \<longleftrightarrow> tl_size ts = 0"

fun tl_visit :: "'t list \<Rightarrow> nat \<Rightarrow> 't option" where
  "tl_visit ts 0 = tl_head ts"
| "tl_visit ts (Suc i) = (case tl_tail ts of None \<Rightarrow> None | Some us \<Rightarrow> tl_visit us i)"

text \<open>\<open>visit\<close> is well formed exactly for the indices below the size, and a concatenation is visited piece by piece.\<close>

lemma tl_visit_nth: "tl_visit ts i = (if i < tl_size ts then Some (ts ! i) else None)"
proof (induction ts i rule: tl_visit.induct)
  case (1 ts)
  then show ?case by (cases ts) (simp_all add: tl_size_def)
next
  case (2 ts i)
  then show ?case by (cases ts) (simp_all add: tl_size_def)
qed

lemma tl_visit_concat:
  "tl_visit (tl_concat ts us) i = (if i < tl_size ts then tl_visit ts i else tl_visit us (i - tl_size ts))"
  by (auto simp: tl_visit_nth tl_concat_def tl_size_def nth_append)

section \<open>What can be called\<close>

text \<open>
  A function type, with \<open>const\<close> behind it or not, a pointer, a method of a class, and a class
  with its call operator: whether it is \<open>const\<close>, its result and its parameters.  \<open>None\<close> stands
  for a class without exactly one call operator.
\<close>

datatype callable =
  Function ctype "ctype list"
| Function_const ctype "ctype list"
| Pointer_to callable
| Method ctype ctype "ctype list"
| Method_const ctype ctype "ctype list"
| Class "(bool \<times> ctype \<times> ctype list) option"

abbreviation decayed_arg_types :: "ctype list \<Rightarrow> ctype list" where
  "decayed_arg_types args \<equiv> map decay args"

text \<open>Only a \<open>const\<close> call operator is recognised.\<close>

definition functor_parser :: "(bool \<times> ctype \<times> ctype list) option \<Rightarrow> (ctype \<times> ctype list) option" where
  "functor_parser op = (case op of Some (True, r, args) \<Rightarrow> Some (r, args) | _ \<Rightarrow> None)"

function function_parser :: "callable \<Rightarrow> (ctype \<times> ctype list) option" where
  "function_parser (Class op) = functor_parser op"
| "function_parser (Pointer_to f) = function_parser f"
| "function_parser (Method cls r args) = function_parser (Function r (Lref cls # args))"
| "function_parser (Method_const cls r args) = function_parser (Function_const r (Lref (Const cls) # args))"
| "function_parser (Function r args) = function_parser (Function_const r args)"
| "function_parser (Function_const r args) = Some (r, args)"
  by pat_completeness auto

text \<open>How many specialisations are still to be passed.\<close>

fun parser_steps :: "callable \<Rightarrow> nat" where
  "parser_steps (Pointer_to f) = Suc (parser_steps f)"
| "parser_steps (Method _ _ _) = 2"
| "parser_steps (Method_const _ _ _) = 1"
| "parser_steps (Function _ _) = 1"
| "parser_steps _ = 0"

termination function_parser
  by (relation "measure parser_steps") simp_all

text \<open>\<open>make_function\<close> wraps anything that can be called in a \<open>std::function\<close>, a class whose call operator is \<open>const\<close>.\<close>

definition make_function :: "callable \<Rightarrow> callable option" where
  "make_function f = map_option (\<lambda>(r, args). Class (Some (True, r, args))) (function_parser f)"

text \<open>The wrapper has the result and the parameters of what it wraps, and wrapping it again changes nothing.\<close>

lemma make_function_parses: "make_function f = Some g \<Longrightarrow> function_parser g = function_parser f"
  by (auto simp: make_function_def functor_parser_def)

lemma make_function_again: "make_function f = Some g \<Longrightarrow> make_function g = Some g"
  by (auto simp: make_function_def functor_parser_def)

lemma make_function_refused: "make_function f = None \<longleftrightarrow> function_parser f = None"
  by (simp add: make_function_def)

end
