(* ===== verification/Emitter.thy ===== *)
theory Emitter
  imports Type_Lists
begin

text \<open>
  The event emitters of \<open>include/mozart++/mpp_core/event_emitter.hpp\<close>, the fast one and the
  attentive one, and \<open>throw_ex\<close>, through which every exception of the library is raised.
  Argument types are compared at run time; \<open>Type_Lists\<close> has the C++ types as data and the
  templates by which the type of a handler is found.
\<close>

section \<open>Handlers\<close>

text \<open>
  A handler: the parameter types of the function and its body, which gets the arguments
  and the state of the program and may throw.
\<close>

record ('v, 's) handler =
  params :: "ctype list"
  body :: "'v list \<Rightarrow> 's \<Rightarrow> exn option \<times> 's"

type_synonym ('v, 's) emitter = "string \<rightharpoonup> ('v, 's) handler list"

definition register :: "string \<Rightarrow> ('v, 's) handler \<Rightarrow> ('v, 's) emitter \<Rightarrow> ('v, 's) emitter" where
  "register name h em = em(name \<mapsto> (case em name of None \<Rightarrow> [] | Some hs \<Rightarrow> hs) @ [h])"

text \<open>
  \<open>on\<close> wraps the handler by \<open>make_function\<close> and takes the parameters of the wrapper; a handler
  that the templates do not accept is refused by the compiler.
\<close>

definition on_event ::
  "string \<Rightarrow> callable \<Rightarrow> ('v list \<Rightarrow> 's \<Rightarrow> exn option \<times> 's) \<Rightarrow> ('v, 's) emitter \<Rightarrow> ('v, 's) emitter option" where
  "on_event name f b em =
     (case make_function f of
        None \<Rightarrow> None
      | Some wrapper \<Rightarrow>
          map_option (\<lambda>(r, args). register name \<lparr>params = args, body = b\<rparr> em) (function_parser wrapper))"

lemma on_event_iff:
  "on_event name f b em = Some em' \<longleftrightarrow>
   (\<exists>r args. function_parser f = Some (r, args) \<and> em' = register name \<lparr>params = args, body = b\<rparr> em)"
  using make_function_refused[of f]
  by (cases "make_function f") (auto simp: on_event_def make_function_parses split: prod.split)

definition unregister_event :: "string \<Rightarrow> ('v, 's) emitter \<Rightarrow> ('v, 's) emitter" where
  "unregister_event name em = em(name := None)"

text \<open>
  How the loop over the handlers ends: at the end, with an exception that \<open>throw_ex\<close> is to
  raise, with an exception out of a handler, with the end of the program when a handler
  throws out of a \<open>noexcept\<close> function, or with an access to an argument that is not there.
\<close>

datatype outcome = Done | Refused exn | Raised exn | Terminated | Wild

section \<open>The fast emitter\<close>

record ('v, 's) handler_container =
  args_count :: nat
  args_info :: "ctype list"
  fast_handler :: "('v, 's) handler"

definition handler_container_new :: "('v, 's) handler \<Rightarrow> ('v, 's) handler_container" where
  "handler_container_new h =
    \<lparr>args_count = tl_size (decayed_arg_types (params h)),
     args_info = decayed_arg_types (params h), fast_handler = h\<rparr>"

definition callable_ptr :: "ctype list \<Rightarrow> ('v, 's) handler_container \<Rightarrow> ('v, 's) handler option" where
  "callable_ptr args c =
     (let callee_arg_types = decayed_arg_types args
      in if tl_empty callee_arg_types then (if args_count c = 0 then Some (fast_handler c) else None)
         else if args_info c = callee_arg_types then Some (fast_handler c) else None)"

definition mismatched :: exn where
  "mismatched = Runtime_error ''Invalid call to event handler: mismatched argument list''"

text \<open>
  The loop forwards the arguments to every handler: one that the caller gave as an rvalue, whose type is not
  an lvalue reference, is moved into the parameter of the call, so the next handler finds what the move left
  of it, \<open>moved\<close>.
\<close>

fun is_lref :: "ctype \<Rightarrow> bool" where
  "is_lref (Lref t) = True"
| "is_lref _ = False"

definition forwarded :: "(ctype \<Rightarrow> 'v \<Rightarrow> 'v) \<Rightarrow> ctype list \<Rightarrow> 'v list \<Rightarrow> 'v list" where
  "forwarded moved args vals = map2 (\<lambda>t v. if is_lref t then v else moved t v) args vals"

fun run_fast ::
  "(ctype \<Rightarrow> 'v \<Rightarrow> 'v) \<Rightarrow> ('v, 's) handler list \<Rightarrow> ctype list \<Rightarrow> 'v list \<Rightarrow> 's \<Rightarrow> outcome \<times> 's" where
  "run_fast moved [] args vals s = (Done, s)"
| "run_fast moved (h # hs) args vals s =
     (case callable_ptr args (handler_container_new h) of
        None \<Rightarrow> (Refused mismatched, s)
      | Some fn \<Rightarrow>
          (case body fn vals s of
             (Some e, s') \<Rightarrow> (Raised e, s')
           | (None, s') \<Rightarrow> run_fast moved hs args (forwarded moved args vals) s'))"

definition emit_fast ::
  "(ctype \<Rightarrow> 'v \<Rightarrow> 'v) \<Rightarrow> ('v, 's) emitter \<Rightarrow> string \<Rightarrow> ctype list \<Rightarrow> 'v list \<Rightarrow> 's \<Rightarrow> outcome \<times> 's" where
  "emit_fast moved em name args vals s =
     (case em name of None \<Rightarrow> (Done, s) | Some hs \<Rightarrow> run_fast moved hs args vals s)"

section \<open>The attentive emitter\<close>

text \<open>
  \<open>cxx_demangle\<close> of \<open>src/core.cpp\<close>, over \<open>abi::__cxa_demangle\<close> (a null pointer is \<open>None\<close>), and the
  other one for the compiler of Microsoft, over \<open>UnDecorateSymbolName\<close>, which fills a buffer of 1024
  characters and answers how many there are, 0 when it fails.  Without a better name the name itself is
  the answer.
\<close>

definition cxx_demangle :: "(string \<Rightarrow> string option) \<Rightarrow> string \<Rightarrow> string" where
  "cxx_demangle cxa_demangle mangled = (case cxa_demangle mangled of Some s \<Rightarrow> s | None \<Rightarrow> mangled)"

definition msvc_demangle :: "(string \<Rightarrow> nat \<Rightarrow> nat \<times> string) \<Rightarrow> string \<Rightarrow> string" where
  "msvc_demangle UnDecorateSymbolName name =
     (case UnDecorateSymbolName name 1024 of (len, buffer) \<Rightarrow> if len > 0 then take len buffer else name)"

text \<open>In the following \<open>demangle\<close> is one of the two, after \<open>name\<close> of a \<open>std::type_index\<close>.\<close>

definition convert_typeinfo :: "ctype list \<Rightarrow> ctype list" where
  "convert_typeinfo args = map typeid args"

fun check_typeinfo :: "(ctype \<Rightarrow> string) \<Rightarrow> nat \<Rightarrow> ctype list \<Rightarrow> ctype list \<Rightarrow> exn option" where
  "check_typeinfo demangle idx [] arr = None"
| "check_typeinfo demangle idx (t # args) arr =
     (if arr ! idx \<noteq> typeid t
      then Some (Runtime_error (''Wrong argument. Expect '' @ [CHR 0x22] @ demangle (arr ! idx) @ [CHR 0x22] @
                   '', provided '' @ [CHR 0x22] @ demangle (typeid t)))
      else check_typeinfo demangle (idx + 1) args arr)"

text \<open>
  The arguments travel through an array of pointers: \<open>expand_argument\<close> fills it, and a handler
  takes the entries of the sequence of its parameters.  \<open>None\<close> is an entry that is not filled.
\<close>

fun expand_argument :: "nat \<Rightarrow> 'v list \<Rightarrow> 'v option list \<Rightarrow> 'v option list" where
  "expand_argument pos [] data = data"
| "expand_argument pos (v # vals) data = expand_argument (pos + 1) vals (data[pos := Some v])"

definition get_argument :: "nat \<Rightarrow> 'v option list \<Rightarrow> 'v option" where
  "get_argument n data = (if n < length data then data ! n else None)"

fun call_impl :: "nat list \<Rightarrow> 'v option list \<Rightarrow> 'v list option" where
  "call_impl [] data = Some []"
| "call_impl (n # sq) data =
     (case get_argument n data of None \<Rightarrow> None | Some v \<Rightarrow> map_option (\<lambda>vs. v # vs) (call_impl sq data))"

text \<open>
  \<open>on_impl\<close> keeps the handler in an \<open>event_impl\<close>, whose base class has the types; \<open>call_on\<close>
  calls it with the arguments that the array points to.
\<close>

record ('v, 's) event_impl =
  ev_types :: "ctype list"
  ev_func :: "('v, 's) handler"

definition event_impl_new :: "('v, 's) handler \<Rightarrow> ('v, 's) event_impl" where
  "event_impl_new func = \<lparr>ev_types = convert_typeinfo (params func), ev_func = func\<rparr>"

definition call_on :: "'v option list \<Rightarrow> ('v, 's) event_impl \<Rightarrow> 's \<Rightarrow> outcome \<times> 's" where
  "call_on data it s =
     (case call_impl (make_sequence_t (length (params (ev_func it)))) data of
        None \<Rightarrow> (Wild, s)
      | Some vals \<Rightarrow>
          (case body (ev_func it) vals s of
             (Some e, s') \<Rightarrow> (Terminated, s')
           | (None, s') \<Rightarrow> (Done, s')))"

fun run_attentive ::
  "(ctype \<Rightarrow> string) \<Rightarrow> ('v, 's) handler list \<Rightarrow> ctype list \<Rightarrow> 'v option list \<Rightarrow> 's \<Rightarrow> outcome \<times> 's" where
  "run_attentive demangle [] args data s = (Done, s)"
| "run_attentive demangle (h # hs) args data s =
     (let it = event_impl_new h
      in if length args \<noteq> length (ev_types it)
         then (Refused (Runtime_error ''Invalid call to event handler: Wrong size of arguments.''), s)
         else case check_typeinfo demangle 0 args (ev_types it) of
                Some e \<Rightarrow> (Refused e, s)
              | None \<Rightarrow>
                  (case call_on data it s of
                     (Done, s') \<Rightarrow> run_attentive demangle hs args data s'
                   | r \<Rightarrow> r))"

definition emit_attentive ::
  "(ctype \<Rightarrow> string) \<Rightarrow> ('v, 's) emitter \<Rightarrow> string \<Rightarrow> ctype list \<Rightarrow> 'v list \<Rightarrow> 's \<Rightarrow> outcome \<times> 's" where
  "emit_attentive demangle em name args vals s =
     (case em name of
        None \<Rightarrow> (Done, s)
      | Some hs \<Rightarrow> run_attentive demangle hs args (expand_argument 0 vals (replicate (length args) None)) s)"

section \<open>Raising an exception\<close>

text \<open>
  \<open>throw_ex\<close> emits the event \<open>throw_ex\<close> of \<open>core_event\<close> with the exception, an lvalue, and then
  throws it; nothing is moved out of the exception.  A refused call raises its own exception by \<open>throw_ex\<close> again.  \<open>None\<close>: it does not
  return and throws nothing.
\<close>

definition runtime_error_ref :: ctype where
  "runtime_error_ref = Lref (Named ''mpp::runtime_error'')"

partial_function (option) throw_ex :: "(exn, 's) emitter \<Rightarrow> exn \<Rightarrow> 's \<Rightarrow> (exn \<times> 's) option" where
  "throw_ex core exception s =
     (case emit_fast (\<lambda>_ e. e) core ''throw_ex'' [runtime_error_ref] [exception] s of
        (Done, s') \<Rightarrow> Some (exception, s')
      | (Raised e, s') \<Rightarrow> Some (e, s')
      | (Refused e, s') \<Rightarrow> throw_ex core e s'
      | (Terminated, s') \<Rightarrow> None
      | (Wild, s') \<Rightarrow> None)"

definition emit :: "(ctype \<Rightarrow> 'v \<Rightarrow> 'v) \<Rightarrow> (exn, 's) emitter \<Rightarrow> ('v, 's) emitter \<Rightarrow> string \<Rightarrow> ctype list \<Rightarrow> 'v list \<Rightarrow> 's \<Rightarrow>
  (exn option \<times> 's) option" where
  "emit moved core em name args vals s =
     (case emit_fast moved em name args vals s of
        (Done, s') \<Rightarrow> Some (None, s')
      | (Raised e, s') \<Rightarrow> Some (Some e, s')
      | (Refused e, s') \<Rightarrow> (case throw_ex core e s' of None \<Rightarrow> None | Some (e', s'') \<Rightarrow> Some (Some e', s''))
      | (Terminated, s') \<Rightarrow> None
      | (Wild, s') \<Rightarrow> None)"

section \<open>When a call is accepted\<close>

definition fits :: "ctype list \<Rightarrow> ('v, 's) handler \<Rightarrow> bool" where
  "fits args h \<longleftrightarrow> map decay (params h) = map decay args"

lemma callable_ptr_iff: "callable_ptr args (handler_container_new h) = (if fits args h then Some h else None)"
  by (auto simp: callable_ptr_def handler_container_new_def fits_def tl_empty_def tl_size_def Let_def)

lemma check_typeinfo_None:
  "idx + length args \<le> length arr \<Longrightarrow>
   check_typeinfo demangle idx args arr = None \<longleftrightarrow> take (length args) (drop idx arr) = map typeid args"
proof (induction demangle idx args arr rule: check_typeinfo.induct)
  case (2 demangle idx t args arr)
  then have "drop idx arr = arr ! idx # drop (Suc idx) arr" by (simp add: Cons_nth_drop_Suc)
  with 2 show ?case by simp
qed simp

text \<open>Every handler with as many parameters gets the arguments, in order.\<close>

lemma expand_argument_prefix:
  "expand_argument (length xs) vals (xs @ replicate (length vals) None) = xs @ map Some vals"
proof (induction vals arbitrary: xs)
  case (Cons v vals)
  from Cons.IH[of "xs @ [Some v]"] show ?case by (simp add: list_update_append)
qed simp

lemma call_impl_map: "\<forall>n \<in> set sq. n < length vals \<Longrightarrow> call_impl sq (map Some vals) = Some (map (\<lambda>n. vals ! n) sq)"
  by (induction sq) (simp_all add: get_argument_def)

lemma call_on_expanded:
  "call_impl (make_sequence_t (length vals)) (expand_argument 0 vals (replicate (length vals) None)) = Some vals"
  using expand_argument_prefix[of "[]" vals] call_impl_map[of "[0..<length vals]" vals]
  by (simp add: make_sequence_upt map_nth)

text \<open>No arrays, also behind a reference: then both emitters compare the same types.\<close>

definition no_array :: "ctype \<Rightarrow> bool" where
  "no_array t = (case remove_reference t of Array e n \<Rightarrow> False | _ \<Rightarrow> True)"

lemma typeid_decay: "no_array t \<Longrightarrow> typeid t = decay t"
  by (simp add: no_array_def typeid_def decay_def split: ctype.splits)

lemma attentive_fits:
  assumes "\<forall>t \<in> set args \<union> set (params h). no_array t"
  shows "length args = length (convert_typeinfo (params h)) \<and>
      check_typeinfo demangle 0 args (convert_typeinfo (params h)) = None \<longleftrightarrow> fits args h"
proof -
  have "map typeid args = map decay args" "map typeid (params h) = map decay (params h)"
    using assms by (auto simp: typeid_decay)
  note eqs = this
  show ?thesis
  proof (cases "length args = length (params h)")
    case True
    then have "check_typeinfo demangle 0 args (map typeid (params h)) = None \<longleftrightarrow> map typeid (params h) = map typeid args"
      using check_typeinfo_None[of 0 args "map typeid (params h)" demangle] by simp
    then show ?thesis using True by (simp only: convert_typeinfo_def fits_def eqs length_map simp_thms)
  next
    case False
    then show ?thesis by (auto simp: convert_typeinfo_def fits_def dest: map_eq_imp_length_eq)
  qed
qed

text \<open>A string literal is an array for the attentive emitter and a pointer for the fast one.\<close>

lemma literal_only_fast:
  assumes "params h = [Pointer (Const (Named ''char''))]"
    and "args = [Lref (Array (Const (Named ''char'')) n)]"
  shows "callable_ptr args (handler_container_new h) = Some h \<and>
    check_typeinfo demangle 0 args (convert_typeinfo (params h)) \<noteq> None"
  using assms by (simp add: callable_ptr_def handler_container_new_def decay_def convert_typeinfo_def typeid_def
    tl_empty_def tl_size_def)

lemma run_fast_Cons:
  "run_fast moved (h # hs) args vals s =
     (if \<not> fits args h then (Refused mismatched, s)
      else case body h vals s of
             (Some e, s') \<Rightarrow> (Raised e, s') | (None, s') \<Rightarrow> run_fast moved hs args (forwarded moved args vals) s')"
  by (simp add: callable_ptr_iff)

definition quiet :: "('v, 's) handler \<Rightarrow> bool" where
  "quiet h \<longleftrightarrow> (\<forall>vals s. fst (body h vals s) = None)"

lemma quiet_body: "quiet h \<Longrightarrow> \<exists>s'. body h vals s = (None, s')"
  by (metis quiet_def prod.collapse)

text \<open>What a refusal is in either emitter.\<close>

fun refused :: "outcome \<Rightarrow> bool" where
  "refused (Refused e) = True"
| "refused _ = False"

text \<open>The handlers that run, up to the first one that does not fit.\<close>

fun run_bodies :: "('v, 's) handler list \<Rightarrow> 'v list \<Rightarrow> 's \<Rightarrow> 's" where
  "run_bodies [] vals s = s"
| "run_bodies (h # hs) vals s = run_bodies hs vals (snd (body h vals s))"

lemma forwarded_same:
  assumes "length vals = length args" and "\<forall>(t, v) \<in> set (zip args vals). is_lref t \<or> moved t v = v"
  shows "forwarded moved args vals = vals"
proof -
  have "map2 (\<lambda>t v. if is_lref t then v else moved t v) args vals = map snd (zip args vals)"
    using assms(2) by (intro map_cong) auto
  then show ?thesis using assms(1) by (simp add: forwarded_def)
qed

lemma run_fast_quiet:
  assumes "\<forall>h \<in> set hs. quiet h" and "forwarded moved args vals = vals"
  shows "run_fast moved hs args vals s =
    (if \<forall>h \<in> set hs. fits args h then Done else Refused mismatched,
     run_bodies (takeWhile (fits args) hs) vals s)"
  using assms(1)
proof (induction hs arbitrary: s)
  case (Cons h hs)
  then obtain s' where q: "body h vals s = (None, s')" using quiet_body[of h vals s] by auto
  show ?case
  proof (cases "fits args h")
    case True
    then have "run_fast moved (h # hs) args vals s = run_fast moved hs args vals s'"
      unfolding run_fast_Cons by (simp add: q assms(2))
    with Cons True q show ?thesis by (simp del: run_fast.simps)
  next
    case False
    then show ?thesis by (simp add: run_fast_Cons del: run_fast.simps)
  qed
qed simp

lemma run_attentive_quiet:
  assumes "\<forall>h \<in> set hs. quiet h" and "\<forall>h \<in> set hs. \<forall>t \<in> set args \<union> set (params h). no_array t"
    and "data = expand_argument 0 vals (replicate (length args) None)" and "length vals = length args"
  shows "snd (run_attentive demangle hs args data s) = run_bodies (takeWhile (fits args) hs) vals s \<and>
    (if \<forall>h \<in> set hs. fits args h then fst (run_attentive demangle hs args data s) = Done
     else refused (fst (run_attentive demangle hs args data s)))"
  using assms(1,2)
proof (induction hs arbitrary: s)
  case (Cons h hs)
  then obtain s' where q: "body h vals s = (None, s')" using quiet_body[of h vals s] by auto
  have f: "length args = length (convert_typeinfo (params h)) \<and>
      check_typeinfo demangle 0 args (convert_typeinfo (params h)) = None \<longleftrightarrow> fits args h"
    using Cons.prems(2) by (intro attentive_fits) simp
  show ?case
  proof (cases "fits args h")
    case True
    then have "length (params h) = length vals"
      using assms(4) by (auto simp: fits_def dest: map_eq_imp_length_eq)
    then have "call_impl (make_sequence_t (length (params h))) data = Some vals"
      using call_on_expanded[of vals] assms(3,4) by simp
    then have "call_on data (event_impl_new h) s = (Done, s')" by (simp add: call_on_def event_impl_new_def q)
    then have "run_attentive demangle (h # hs) args data s = run_attentive demangle hs args data s'"
      using f True by (simp add: event_impl_new_def Let_def)
    with Cons True q show ?thesis by (simp del: run_attentive.simps)
  next
    case False
    then have "length args \<noteq> length (convert_typeinfo (params h)) \<or>
        (\<exists>e. check_typeinfo demangle 0 args (convert_typeinfo (params h)) = Some e)" using f by auto
    then have "\<exists>e. run_attentive demangle (h # hs) args data s = (Refused e, s)" by (auto simp: event_impl_new_def Let_def)
    with False show ?thesis by auto
  qed
qed simp

section \<open>Properties\<close>

text \<open>
  C27. The two emitters agree: for handlers that do not throw, types without arrays and arguments that are
  lvalues or that a move leaves as they are, they run the same handlers on the same arguments and
  accept or refuse the same calls.  Only the text of the refusal differs.
\<close>

theorem emitters_agree:
  assumes "\<forall>h \<in> set (case em name of None \<Rightarrow> [] | Some hs \<Rightarrow> hs).
      quiet h \<and> (\<forall>t \<in> set args \<union> set (params h). no_array t)"
    and "length vals = length args" and "\<forall>(t, v) \<in> set (zip args vals). is_lref t \<or> moved t v = v"
  shows "snd (emit_fast moved em name args vals s) = snd (emit_attentive demangle em name args vals s) \<and>
    (fst (emit_fast moved em name args vals s) = Done \<longleftrightarrow> fst (emit_attentive demangle em name args vals s) = Done) \<and>
    (refused (fst (emit_fast moved em name args vals s)) \<longleftrightarrow> refused (fst (emit_attentive demangle em name args vals s)))"
proof (cases "em name")
  case None
  then show ?thesis by (simp add: emit_fast_def emit_attentive_def)
next
  case (Some hs)
  with assms(1) have q: "\<forall>h \<in> set hs. quiet h" and a: "\<forall>h \<in> set hs. \<forall>t \<in> set args \<union> set (params h). no_array t" by auto
  note k = forwarded_same[OF assms(2,3)]
  from run_fast_quiet[OF q k] run_attentive_quiet[OF q a refl assms(2), of demangle s] Some show ?thesis
    by (cases "\<forall>h \<in> set hs. fits args h")
      (auto simp: emit_fast_def emit_attentive_def elim: refused.elims)
qed

definition demo_handler :: "(nat, nat list) handler" where
  "demo_handler = \<lparr>params = [Lref (Const (Named ''int''))], body = (\<lambda>vs log. (None, vs @ log))\<rparr>"

theorem emitters_agree_witness:
  "snd (emit_attentive (\<lambda>t. []) (register ''e'' demo_handler Map.empty) ''e'' [Lref (Named ''int'')] [5] []) = [5]"
  using emitters_agree[of "register ''e'' demo_handler Map.empty" "''e''" "[Lref (Named ''int'')]" "[5]" "\<lambda>_ _. 0" "[]" "\<lambda>t. []"]
  by (simp add: register_def demo_handler_def quiet_def no_array_def emit_fast_def callable_ptr_def
    handler_container_new_def decay_def tl_empty_def tl_size_def)

text \<open>
  An rvalue that two handlers take: in the release build the second one gets what the first call left of it,
  in the debug build both get the argument.
\<close>

theorem second_handler_gets_moved:
  assumes "params h1 = [t]" and "params h2 = [t]" and "\<not> is_lref t" and "no_array t" and "quiet h1" and "quiet h2"
    and "em name = Some [h1, h2]"
  shows "snd (emit_fast moved em name [t] [v] s) = snd (body h2 [moved t v] (snd (body h1 [v] s))) \<and>
    snd (emit_attentive demangle em name [t] [v] s) = snd (body h2 [v] (snd (body h1 [v] s)))"
proof -
  obtain s1 where 1: "body h1 [v] s = (None, s1)" using quiet_body[OF assms(5)] by blast
  obtain s2 where 2: "body h2 [moved t v] s1 = (None, s2)" using quiet_body[OF assms(6)] by blast
  have "fits [t] h1" "fits [t] h2" using assms(1,2) by (simp_all add: fits_def)
  then have "snd (emit_fast moved em name [t] [v] s) = s2"
    using assms(3,7) 1 2 by (simp add: emit_fast_def callable_ptr_iff forwarded_def)
  moreover have "snd (emit_attentive demangle em name [t] [v] s) = run_bodies (takeWhile (fits [t]) [h1, h2]) [v] s"
    using run_attentive_quiet[of "[h1, h2]" "[t]" _ "[v]" demangle s] assms by (simp add: emit_attentive_def del: run_attentive.simps)
  ultimately show ?thesis using \<open>fits [t] h1\<close> \<open>fits [t] h2\<close> 1 2 by simp
qed

definition demo_log :: "(string, string list) handler" where
  "demo_log = \<lparr>params = [Named ''std::string''], body = (\<lambda>vs log. (None, log @ vs))\<rparr>"

theorem second_handler_gets_moved_witness:
  "snd (emit_fast (\<lambda>_ _. []) [''e'' \<mapsto> [demo_log, demo_log]] ''e'' [Named ''std::string''] [''abc''] []) = [''abc'', []]"
proof -
  let ?t = "Named ''std::string''"
  have d: "params demo_log = [?t]" "quiet demo_log" "body demo_log vs log = (None, log @ vs)" for vs log
    by (simp_all add: demo_log_def quiet_def)
  have "\<not> is_lref ?t" "no_array ?t" by (simp_all add: no_array_def)
  from second_handler_gets_moved[OF d(1) d(1) this d(2) d(2), of "[''e'' \<mapsto> [demo_log, demo_log]]" "''e''" "\<lambda>_ _. []" "''abc''" "[]"]
  show ?thesis by (simp add: d(3))
qed

lemma thrown_stays: "forwarded (\<lambda>_ e. e) [runtime_error_ref] [e] = [e]"
  by (simp add: forwarded_def)

lemma throw_ex_fits:
  "throw_ex core e s = Some r \<Longrightarrow> \<forall>h \<in> set hs. quiet h \<Longrightarrow> core ''throw_ex'' = Some hs \<Longrightarrow>
   \<forall>h \<in> set hs. fits [runtime_error_ref] h"
proof (induction rule: throw_ex.raw_induct[rotated 1, consumes 1])
  case (1 throw core e s r)
  show ?case
  proof (rule ccontr)
    assume n: "\<not> (\<forall>h \<in> set hs. fits [runtime_error_ref] h)"
    then obtain s' where "emit_fast (\<lambda>_ e. e) core ''throw_ex'' [runtime_error_ref] [e] s = (Refused mismatched, s')"
      using run_fast_quiet[OF 1(3) thrown_stays] 1(4) by (simp add: emit_fast_def)
    with 1(2) have "throw core mismatched s' = Some r" by simp
    from 1(1)[OF this 1(3,4)] n show False by blast
  qed
qed



end
