(* ===== verification/Proc_Stat.thy ===== *)
theory Proc_Stat
  imports Prelude
begin

text \<open>
  \<open>get_process_start_time\<close> of \<open>src/process_unix_wait.cpp\<close>: the start time by which a
  process identifier that was reused is told from the process that was started.  On Linux
  it is field 22 of \<open>/proc/<pid>/stat\<close>, found by counting spaces after the last closing
  parenthesis; on Darwin it comes from \<open>sysctl\<close>.
\<close>

abbreviation nul :: char where "nul \<equiv> CHR 0x00"
abbreviation space :: char where "space \<equiv> CHR '' ''"
abbreviation paren :: char where "paren \<equiv> CHR '')''"

text \<open>What follows the last occurrence of a character (\<open>strrchr\<close>), if there is one.\<close>

definition after_last :: "char \<Rightarrow> string \<Rightarrow> string option" where
  "after_last c s = (if c \<in> set s then Some (rev (takeWhile (\<lambda>x. x \<noteq> c) (rev s))) else None)"

text \<open>What follows the next space (\<open>strchr\<close> and the increment), \<open>n\<close> times.\<close>

fun skip_fields :: "nat \<Rightarrow> string \<Rightarrow> string option" where
  "skip_fields 0 p = Some p"
| "skip_fields (Suc n) p =
     (case dropWhile (\<lambda>x. x \<noteq> space) p of
        [] \<Rightarrow> None
      | _ # p' \<Rightarrow> skip_fields n p')"

text \<open>
  \<open>content\<close> is what the file holds (\<open>None\<close>: it cannot be opened).  The buffer keeps its
  first 1023 bytes, and the string functions stop at the first NUL.  After the last
  parenthesis the pointer is moved by two; when the parenthesis is the last character that
  is behind the terminating NUL, where the buffer is not initialised: no value.
\<close>

definition get_process_start_time :: "string option \<Rightarrow> nat option" where
  "get_process_start_time content =
     (case content of
        None \<Rightarrow> Some 0
      | Some file \<Rightarrow>
          (let bytes = take 1023 file;
               buf = takeWhile (\<lambda>x. x \<noteq> nul) bytes
           in if length bytes = 0 then Some 0
              else case after_last paren buf of
                     None \<Rightarrow> Some 0
                   | Some [] \<Rightarrow> None
                   | Some (_ # p) \<Rightarrow>
                       (case skip_fields 19 p of
                          None \<Rightarrow> Some 0
                        | Some q \<Rightarrow> Some (strtoull q))))"

definition darwin_start_time :: "(64 word \<times> 64 word) option \<Rightarrow> 64 word" where
  "darwin_start_time kp =
     (case kp of None \<Rightarrow> 0 | Some (sec, usec) \<Rightarrow> sec * 1000000 + usec)"

section \<open>The fields of a stat line\<close>

fun join_fields :: "string list \<Rightarrow> string" where
  "join_fields [] = []"
| "join_fields [x] = x"
| "join_fields (x # y # xs) = x @ space # join_fields (y # xs)"

definition stat_line :: "string \<Rightarrow> string \<Rightarrow> string list \<Rightarrow> string" where
  "stat_line pid comm fields = pid @ '' ('' @ comm @ '') '' @ join_fields fields"

lemma after_last_append: "c \<notin> set t \<Longrightarrow> after_last c (s @ c # t) = Some t"
proof -
  assume "c \<notin> set t"
  then have "takeWhile (\<lambda>x. x \<noteq> c) (rev t @ c # rev s) = rev t" by simp
  then show ?thesis by (simp add: after_last_def)
qed

lemma set_join_fields: "set (join_fields fs) \<subseteq> insert space (\<Union> (set ` set fs))"
  by (induction fs rule: join_fields.induct) auto

lemma skip_fields_join:
  "n < length fs \<Longrightarrow> (\<forall>f \<in> set fs. space \<notin> set f) \<Longrightarrow>
   skip_fields n (join_fields fs) = Some (join_fields (drop n fs))"
proof (induction n arbitrary: fs)
  case (Suc n)
  then obtain f g gs where fs: "fs = f # g # gs" by (cases fs; cases "tl fs") auto
  with Suc.prems have "dropWhile (\<lambda>x. x \<noteq> space) (f @ space # join_fields (g # gs)) =
      space # join_fields (g # gs)" by simp
  with Suc.IH[of "g # gs"] Suc.prems show ?case by (simp add: fs)
qed simp

lemma join_fields_nth:
  "n < length fs \<Longrightarrow> \<exists>t. join_fields (drop n fs) = fs ! n @ t \<and> (t = [] \<or> hd t = space)"
  using Cons_nth_drop_Suc[of n fs, symmetric] by (cases "drop (Suc n) fs") auto

section \<open>Properties\<close>

text \<open>
  Whatever the command name contains, spaces and parentheses included, the value is
  field 22 of the line, provided the line fits in the buffer, the fields contain neither a
  parenthesis nor a space, and the field is a decimal number below \<open>2^64\<close>.
\<close>

theorem start_time_is_field_22:
  assumes "length (stat_line pid comm fields) \<le> 1023" and "20 < length fields"
    and "\<forall>f \<in> set fields. f \<noteq> [] \<and> space \<notin> set f \<and> paren \<notin> set f \<and> nul \<notin> set f"
    and "nul \<notin> set pid" and "nul \<notin> set comm"
    and "\<forall>c \<in> set (fields ! 19). is_digit c" and "digits_val (fields ! 19) < 2 ^ 64"
  shows "get_process_start_time (Some (stat_line pid comm fields)) = Some (digits_val (fields ! 19))"
proof -
  let ?s = "stat_line pid comm fields" and ?j = "join_fields fields"
  have j: "paren \<notin> set ?j" "nul \<notin> set ?j"
    using set_join_fields[of fields] assms(3) by auto
  have s: "?s = (pid @ '' ('' @ comm) @ paren # space # ?j" by (simp add: stat_line_def)
  have "nul \<notin> set ?s" using j assms(4,5) by (simp add: stat_line_def)
  then have buf: "takeWhile (\<lambda>x. x \<noteq> nul) ?s = ?s"
    by (simp add: takeWhile_eq_all_conv) metis
  have al: "after_last paren ?s = Some (space # ?j)"
    unfolding s using j by (intro after_last_append) simp
  have sk: "skip_fields 19 ?j = Some (join_fields (drop 19 fields))"
    using assms(2,3) by (intro skip_fields_join) auto
  obtain t where t: "join_fields (drop 19 fields) = fields ! 19 @ t" "t = [] \<or> hd t = space"
    using join_fields_nth[of 19 fields] assms(2) by auto
  have "19 < length fields" using assms(2) by simp
  then have ne: "fields ! 19 \<noteq> []" using assms(3) nth_mem by blast
  have "t \<noteq> []"
  proof -
    obtain a b c where d: "drop 19 fields = a # b # c"
      using assms(2) by (cases "drop 19 fields" rule: join_fields.cases) (auto dest: arg_cong[of _ _ length])
    then have "fields ! 19 = a" using \<open>19 < length fields\<close> by (metis nth_via_drop)
    with d t(1) show ?thesis by auto
  qed
  with t(2) obtain t' where t': "t = space # t'" by (cases t) auto
  have "strtoull (fields ! 19 @ space # t') = digits_val (fields ! 19)"
    using ne assms(6,7) by (intro strtoull_digits) (simp_all add: is_digit_def)
  moreover have "?s \<noteq> []" by (simp add: stat_line_def)
  ultimately show ?thesis
    using assms(1) by (simp add: get_process_start_time_def buf al sk t t' Let_def)
qed

theorem start_time_is_field_22_witness:
  "get_process_start_time (Some (stat_line ''77'' ''a) b (c''
     ([''S''] @ replicate 18 ''0'' @ [''4711'', ''9'']))) = Some 4711"
proof -
  let ?f = "[''S''] @ replicate 18 ''0'' @ [''4711'', ''9'']"
  have n: "?f ! 19 = ''4711''" by (simp add: nth_append)
  have d: "digits_val ''4711'' = 4711" by code_simp
  have "get_process_start_time (Some (stat_line ''77'' ''a) b (c'' ?f)) = Some (digits_val (?f ! 19))"
  proof (rule start_time_is_field_22)
    show "length (stat_line ''77'' ''a) b (c'' ?f) \<le> 1023" by code_simp
    show "\<forall>c \<in> set (?f ! 19). is_digit c" unfolding n by code_simp
    show "digits_val (?f ! 19) < 2 ^ 64" unfolding n d by simp
  qed auto
  with n d show ?thesis by simp
qed

end
