(* ===== verification/Wait_Unix.thy ===== *)
theory Wait_Unix
  imports Builder Proc_Stat
begin

text \<open>
  Waiting for a child and terminating it on Unix (\<open>src/process_unix_wait.cpp\<close>):
  \<open>poll_process_status\<close>, \<open>wait_for\<close>, \<open>wait_timeout_ms\<close>, \<open>process_exited\<close>,
  \<open>terminate_process\<close> and \<open>terminate_process_tree\<close>, over the system calls
  \<open>waitid\<close> and \<open>nanosleep\<close>.
\<close>

section \<open>The system calls\<close>

text \<open>
  \<open>waitid\<close> fails with an \<open>errno\<close> or fills in \<open>si_code\<close> and \<open>si_status\<close> (both zero
  with \<open>WNOHANG\<close> when the child has not ended).  The source calls it in three ways:
  blocking, looking without reaping, and reaping without blocking; the blocking call may
  never return.  \<open>nanosleep\<close> takes and returns seconds and nanoseconds.
\<close>

datatype wid = Wid int int | Wid_err int

datatype nap = Nap_ok | Nap_fail int "int \<times> int"

record 'w wait_host =
  h_block :: "int \<Rightarrow> 'w \<Rightarrow> (wid \<times> 'w) option"
  h_peek :: "int \<Rightarrow> 'w \<Rightarrow> wid \<times> 'w"
  h_reap :: "int \<Rightarrow> 'w \<Rightarrow> wid \<times> 'w"
  h_nap :: "int \<times> int \<Rightarrow> 'w \<Rightarrow> nap \<times> 'w"

abbreviation CLD_EXITED :: int where "CLD_EXITED \<equiv> 1"
abbreviation CLD_KILLED :: int where "CLD_KILLED \<equiv> 2"
abbreviation CLD_DUMPED :: int where "CLD_DUMPED \<equiv> 3"

section \<open>The operations\<close>

definition exit_value :: "int \<Rightarrow> int \<Rightarrow> int option" where
  "exit_value si_code si_status =
     (if si_code = CLD_EXITED then Some si_status
      else if si_code = CLD_KILLED \<or> si_code = CLD_DUMPED then Some (128 + si_status)
      else None)"

text \<open>The optional status, the value of \<open>errno\<close> after the call, and the new world.\<close>

definition poll_process_status :: "'w wait_host \<Rightarrow> int \<Rightarrow> 'w \<Rightarrow> int option \<times> int \<times> 'w" where
  "poll_process_status H pid w =
     (case h_peek H pid w of
        (Wid_err e, w') \<Rightarrow> (None, e, w')
      | (Wid si_code si_status, w') \<Rightarrow> (exit_value si_code si_status, 0, w'))"

partial_function (option) wait_for :: "'w wait_host \<Rightarrow> int \<Rightarrow> 'w \<Rightarrow> (int \<times> 'w) option" where
  "wait_for H pid w =
     (case h_block H pid w of
        None \<Rightarrow> None
      | Some (Wid_err e, w') \<Rightarrow>
          (if e = EINTR then wait_for H pid w'
           else if e = ECHILD then Some (0, w') else Some (-1, w'))
      | Some (Wid si_code si_status, w') \<Rightarrow>
          (case exit_value si_code si_status of
             Some v \<Rightarrow> Some (v, w')
           | None \<Rightarrow> wait_for H pid w'))"

text \<open>
  The loop polls once more after the time is used up; so each round polls first and then
  sleeps or gives up.  The result of \<open>wait_timeout_ms\<close>: the returned flag with the value of the reference
  \<open>exit_code\<close>, or undefined behaviour when an \<open>int64_t\<close> computation overflows.
\<close>

datatype 'w waited = Waited bool int 'w | Overflow

definition poll_once :: "'w wait_host \<Rightarrow> int \<Rightarrow> 'w \<Rightarrow> (int \<times> 'w) option \<times> 'w" where
  "poll_once H pid w =
     (case poll_process_status H pid w of
        (Some status, _, w') \<Rightarrow> (Some (status, snd (h_reap H pid w')), w')
      | (None, errno, w') \<Rightarrow> if errno = ECHILD then (Some (0, w'), w') else (None, w'))"

definition slept_ns :: "int \<Rightarrow> nap \<Rightarrow> int option" where
  "slept_ns poll_ns r =
     (case r of
        Nap_fail e (tv_sec, tv_nsec) \<Rightarrow>
          (if e = EINTR then
             (case chk64 (tv_sec * 1000000000) of
                None \<Rightarrow> None
              | Some s \<Rightarrow>
                  (case chk64 (s + tv_nsec) of
                     None \<Rightarrow> None
                   | Some intr_ns \<Rightarrow> chk64 (poll_ns - intr_ns)))
           else Some poll_ns)
      | Nap_ok \<Rightarrow> Some poll_ns)"

partial_function (option) wait_loop ::
  "'w wait_host \<Rightarrow> int \<Rightarrow> int \<Rightarrow> int \<Rightarrow> int \<Rightarrow> 'w \<Rightarrow> 'w waited option" where
  "wait_loop H pid poll_ns remaining_ns exit_code w =
     (case poll_once H pid w of
        (Some (status, w'), _) \<Rightarrow> Some (Waited True status w')
      | (None, w1) \<Rightarrow>
          (if remaining_ns > 0 then
             (case h_nap H (poll_ns div 1000000000, poll_ns mod 1000000000) w1 of
                (r, w2) \<Rightarrow>
                  (case slept_ns poll_ns r of
                     None \<Rightarrow> Some Overflow
                   | Some d \<Rightarrow>
                       (case chk64 (remaining_ns - d) of
                          None \<Rightarrow> Some Overflow
                        | Some remaining' \<Rightarrow> wait_loop H pid poll_ns remaining' exit_code w2)))
           else Some (Waited False exit_code w1)))"

definition wait_timeout_ms ::
  "'w wait_host \<Rightarrow> process_info \<Rightarrow> int \<Rightarrow> int \<Rightarrow> int \<Rightarrow> 'w \<Rightarrow> 'w waited option" where
  "wait_timeout_ms H info timeout_ms exit_code poll_interval_ms w =
     (if timeout_ms < 0 then
        (case wait_for H (pi_pid info) w of None \<Rightarrow> None | Some (code, w') \<Rightarrow> Some (Waited True code w'))
      else
        (case (chk64 (max 1 poll_interval_ms * 1000000), chk64 (timeout_ms * 1000000)) of
           (Some poll_ns, Some remaining_ns) \<Rightarrow> wait_loop H (pi_pid info) poll_ns remaining_ns exit_code w
         | _ \<Rightarrow> Some Overflow))"

text \<open>
  \<open>sigchld\<close> is what \<open>sigaction\<close> reports: failure, or whether the handler is
  \<open>SIG_IGN\<close>; \<open>stat\<close> is the text of \<open>/proc/<pid>/stat\<close>.
\<close>

definition process_exited ::
  "'w wait_host \<Rightarrow> bool option \<Rightarrow> (int \<Rightarrow> string option) \<Rightarrow> process_info \<Rightarrow> 'w \<Rightarrow> bool result \<times> 'w" where
  "process_exited H sigchld stat info w =
     (case poll_process_status H (pi_pid info) w of
        (Some _, _, w') \<Rightarrow> (Inr True, w')
      | (None, errno, w') \<Rightarrow>
          if errno = ECHILD then
            (case sigchld of
               None \<Rightarrow> (Inl (Runtime_error ''should not reach here''), w')
             | Some ignored \<Rightarrow>
                 if ignored then
                   (if pi_start_time info > 0 then
                      (let current = get_process_start_time (stat (pi_pid info))
                       in if current = Some 0 \<or> current \<noteq> Some (pi_start_time info)
                          then (Inr True, w') else (Inr True, w'))
                    else (Inr True, w'))
                 else (Inr True, w'))
          else (Inr False, w'))"

abbreviation SIGKILL :: int where "SIGKILL \<equiv> 9"
abbreviation SIGTERM :: int where "SIGTERM \<equiv> 15"

text \<open>The calls of \<open>kill\<close>, as pairs of the first argument and the signal.\<close>

definition terminate_process :: "process_info \<Rightarrow> bool \<Rightarrow> (int \<times> int) list" where
  "terminate_process info force = [(pi_pid info, if force then SIGKILL else SIGTERM)]"

definition terminate_process_tree ::
  "'w wait_host \<Rightarrow> bool option \<Rightarrow> (int \<Rightarrow> string option) \<Rightarrow> process_info \<Rightarrow> bool \<Rightarrow> 'w \<Rightarrow>
   (int \<times> int) list result \<times> 'w" where
  "terminate_process_tree H sigchld stat info force w =
     (case process_exited H sigchld stat info w of
        (Inl e, w') \<Rightarrow> (Inl e, w')
      | (Inr True, w') \<Rightarrow> (Inr [], w')
      | (Inr False, w') \<Rightarrow>
          let sig = (if force then SIGKILL else SIGTERM);
              pid = pi_pid info;
              current = get_process_start_time (stat pid)
          in if pi_start_time info > 0 \<and> (current = Some 0 \<or> current \<noteq> Some (pi_start_time info))
             then (Inr (if pid > 0 then [(pid, sig)] else []), w')
             else (Inr (if pid > 0 then [(- pid, sig)] else []), w'))"

definition get_pid :: "process_info \<Rightarrow> int" where
  "get_pid info = to_int32 (pi_pid info)"

section \<open>What the code relies on\<close>

text \<open>
  The state of the child as \<open>waitid\<close> shows it: running, ended and not yet reaped, or
  reaped.  \<open>fate\<close> is how the child ends, if it ever does; \<open>sole\<close> says that no other
  thread waits for it; \<open>sigs\<close> bounds the interruptions that are still to come.  The
  calls on other processes are not described.
\<close>

datatype pstat = Running | Ended int int | Gone

text \<open>The shell's convention: the exit status, or 128 plus the number of the signal.\<close>

definition reported_code :: "int \<Rightarrow> int \<Rightarrow> int" where
  "reported_code c st = (if c = CLD_EXITED then st else 128 + st)"

text \<open>
  What the timed wait can return when it starts in \<open>w\<close>; \<open>limit\<close> is the time before
  which it does not give up.
\<close>

definition timed_result ::
  "('w \<Rightarrow> pstat) \<Rightarrow> (int \<times> int) option \<Rightarrow> bool \<Rightarrow> ('w \<Rightarrow> int) \<Rightarrow> int \<Rightarrow> int \<Rightarrow> 'w waited \<Rightarrow> bool" where
  "timed_result status fate sole clock limit exit_code res \<longleftrightarrow>
     (case res of
        Overflow \<Rightarrow> False
      | Waited True v w' \<Rightarrow>
          status w' = Gone \<and>
          (case fate of None \<Rightarrow> \<not> sole \<and> v = 0
           | Some (c, st) \<Rightarrow> v = reported_code c st \<or> \<not> sole \<and> v = 0)
      | Waited False v w' \<Rightarrow> status w' = Running \<and> v = exit_code \<and> limit \<le> clock w')"

lemma timed_result_earlier:
  "timed_result status fate sole clock limit exit_code res \<Longrightarrow> limit' \<le> limit \<Longrightarrow>
   timed_result status fate sole clock limit' exit_code res"
  unfolding timed_result_def by (cases res) (auto split: bool.split)

locale child_waits =
  fixes H :: "'w wait_host" and pid :: int
    and status :: "'w \<Rightarrow> pstat" and fate :: "'w \<Rightarrow> (int \<times> int) option"
    and sole :: "'w \<Rightarrow> bool" and sigs :: "'w \<Rightarrow> nat" and clock :: "'w \<Rightarrow> int"
  assumes ended_fate: "status w = Ended c st \<Longrightarrow> fate w = Some (c, st)"
    and fate_code: "fate w = Some (c, st) \<Longrightarrow> c = CLD_EXITED \<or> c = CLD_KILLED \<or> c = CLD_DUMPED"
    and peek: "h_peek H pid w =
      ((case status w of Running \<Rightarrow> Wid 0 0 | Ended c st \<Rightarrow> Wid c st | Gone \<Rightarrow> Wid_err ECHILD), w)"
    and reap: "status w = Ended c st \<Longrightarrow> h_reap H pid w = (Wid c st, w') \<Longrightarrow>
      status w' = Gone \<and> clock w' = clock w"
    and reap_result: "status w = Ended c st \<Longrightarrow> fst (h_reap H pid w) = Wid c st"
    and block_gone: "status w = Gone \<Longrightarrow> h_block H pid w = Some (Wid_err ECHILD, w)"
    and block_ended: "status w = Ended c st \<Longrightarrow> \<exists>w'. h_block H pid w = Some (Wid c st, w') \<and> status w' = Gone"
    and block_running: "status w = Running \<Longrightarrow> h_block H pid w = Some (r, w') \<Longrightarrow>
      (r = Wid_err EINTR \<and> sigs w' < sigs w \<and> fate w' = fate w \<and> sole w' = sole w \<and> (sole w \<longrightarrow> status w' \<noteq> Gone)) \<or>
      (\<exists>c st. fate w = Some (c, st) \<and> status w' = Gone \<and>
         (r = Wid c st \<or> r = Wid_err ECHILD \<and> \<not> sole w))"
    and block_returns: "fate w \<noteq> None \<Longrightarrow> h_block H pid w \<noteq> None"
    and nap_ok: "0 \<le> sec \<Longrightarrow> 0 \<le> nsec \<Longrightarrow> h_nap H (sec, nsec) w = (Nap_ok, w') \<Longrightarrow>
      clock w + (sec * 1000000000 + nsec) \<le> clock w' \<and> sigs w' \<le> sigs w"
    and nap_fail: "0 \<le> sec \<Longrightarrow> 0 \<le> nsec \<Longrightarrow> h_nap H (sec, nsec) w = (Nap_fail e (rs, rn), w') \<Longrightarrow>
      e = EINTR \<and> 0 \<le> rs \<and> 0 \<le> rn \<and> rs * 1000000000 + rn \<le> sec * 1000000000 + nsec \<and>
      clock w + (sec * 1000000000 + nsec) - (rs * 1000000000 + rn) \<le> clock w' \<and> sigs w' < sigs w"
    and nap_keeps: "h_nap H t w = (n, w') \<Longrightarrow>
      fate w' = fate w \<and> sole w' = sole w \<and> (sole w \<and> status w \<noteq> Gone \<longrightarrow> status w' \<noteq> Gone)"
begin

text \<open>The exit code that the code computes for the way the child ends.\<close>

lemma fate_value: "fate w = Some (c, st) \<Longrightarrow> exit_value c st = Some (reported_code c st)"
  using fate_code by (auto simp: exit_value_def reported_code_def)

lemma poll_status:
  "poll_process_status H pid w =
     (case status w of
        Running \<Rightarrow> (None, 0, w) | Ended c st \<Rightarrow> (exit_value c st, 0, w) | Gone \<Rightarrow> (None, ECHILD, w))"
  by (simp add: poll_process_status_def peek exit_value_def split: pstat.split)

lemma wait_for_gone: "status w = Gone \<Longrightarrow> wait_for H pid w = Some (0, w)"
  by (subst wait_for.simps) (simp add: block_gone)

lemma wait_for_sole:
  assumes "sole w" and "status w \<noteq> Gone" and "fate w = Some (c, st)"
  shows "\<exists>w'. wait_for H pid w = Some (reported_code c st, w') \<and> status w' = Gone"
  using assms
proof (induction "sigs w" arbitrary: w rule: less_induct)
  case less
  note v = fate_value[OF less.prems(3)]
  show ?case
  proof (cases "status w")
    case Running
    obtain r w1 where b: "h_block H pid w = Some (r, w1)"
      using block_returns[of w] less.prems(3) by auto
    from block_running[OF Running b] less.prems consider
        "r = Wid_err EINTR" "sigs w1 < sigs w" "fate w1 = fate w" "sole w1" "status w1 \<noteq> Gone"
      | "r = Wid c st" "status w1 = Gone" by auto
    then show ?thesis
    proof cases
      case 1
      with less.hyps[of w1] less.prems b show ?thesis by (subst wait_for.simps) simp
    next
      case 2
      with b v show ?thesis by (subst wait_for.simps) simp
    qed
  next
    case (Ended c' st')
    with ended_fate[OF this] less.prems(3) have "c' = c" "st' = st" by simp_all
    with block_ended[OF Ended] v show ?thesis by (subst wait_for.simps) auto
  next
    case Gone
    with less.prems(2) show ?thesis by simp
  qed
qed

text \<open>One round of the timed wait.\<close>

lemma poll_once_status:
  "case status w of
     Running \<Rightarrow> poll_once H pid w = (None, w)
   | Ended c st \<Rightarrow> (\<exists>w'. poll_once H pid w = (Some (reported_code c st, w'), w)
        \<and> status w' = Gone \<and> clock w' = clock w)
   | Gone \<Rightarrow> poll_once H pid w = (Some (0, w), w)"
proof (cases "status w")
  case (Ended c st)
  obtain w' where "h_reap H pid w = (Wid c st, w')"
    using reap_result[OF Ended] by (metis prod.collapse)
  with reap[OF Ended this] Ended fate_value[OF ended_fate[OF Ended]] show ?thesis
    by (simp add: poll_once_def poll_status)
qed (simp_all add: poll_once_def poll_status)

lemma slept_ns_bounds:
  assumes "h_nap H (poll_ns div 1000000000, poll_ns mod 1000000000) w = (n, w')"
    and "0 < poll_ns" and "in_int64 poll_ns"
  shows "\<exists>d. slept_ns poll_ns n = Some d \<and> 0 \<le> d \<and> d \<le> poll_ns \<and> clock w + d \<le> clock w' \<and>
     sigs w' \<le> sigs w \<and> (d = poll_ns \<or> sigs w' < sigs w)"
proof (cases n)
  case Nap_ok
  have "poll_ns div 1000000000 * 1000000000 + poll_ns mod 1000000000 = poll_ns" by simp
  with nap_ok[OF _ _ assms(1)[unfolded Nap_ok]] assms(2) Nap_ok show ?thesis
    by (simp add: slept_ns_def pos_imp_zdiv_nonneg_iff)
next
  case (Nap_fail e rem)
  obtain rs rn where rem: "rem = (rs, rn)" by fastforce
  have p: "poll_ns div 1000000000 * 1000000000 + poll_ns mod 1000000000 = poll_ns" by simp
  have "e = EINTR \<and> 0 \<le> rs \<and> 0 \<le> rn \<and> rs * 1000000000 + rn \<le> poll_ns \<and>
      clock w + poll_ns - (rs * 1000000000 + rn) \<le> clock w' \<and> sigs w' < sigs w"
    using nap_fail[OF _ _ assms(1)[unfolded Nap_fail rem]] assms(2) p
    by (simp add: pos_imp_zdiv_nonneg_iff)
  moreover from this have "in_int64 (rs * 1000000000)" "in_int64 (rs * 1000000000 + rn)"
    "in_int64 (poll_ns - (rs * 1000000000 + rn))"
    using assms(2,3) by (auto simp: in_int64_def)
  ultimately show ?thesis by (auto simp: slept_ns_def Nap_fail rem)
qed

lemma wait_loop_result:
  assumes "0 < poll_ns" and "in_int64 poll_ns" and "remaining_ns \<le> 2 ^ 62" and "- poll_ns \<le> remaining_ns"
    and "poll_ns \<le> 2 ^ 62" and "sole w \<Longrightarrow> status w \<noteq> Gone"
  shows "\<exists>res. wait_loop H pid poll_ns remaining_ns exit_code w = Some res \<and>
     timed_result status (fate w) (sole w) clock (clock w + remaining_ns) exit_code res"
  using assms(3,4,6)
proof (induction "nat (remaining_ns + poll_ns) + sigs w" arbitrary: remaining_ns w rule: less_induct)
  case less
  show ?case
  proof (cases "status w")
    case Running
    with poll_once_status[of w] have p: "poll_once H pid w = (None, w)" by simp
    show ?thesis
    proof (cases "remaining_ns > 0")
      case False
      with p Running show ?thesis
        by (subst wait_loop.simps) (simp add: timed_result_def)
    next
      case True
      obtain n w2 where n: "h_nap H (poll_ns div 1000000000, poll_ns mod 1000000000) w = (n, w2)" by fastforce
      from slept_ns_bounds[OF n assms(1,2)] obtain d where d: "slept_ns poll_ns n = Some d" "0 \<le> d"
        "d \<le> poll_ns" "clock w + d \<le> clock w2" "sigs w2 \<le> sigs w" "d = poll_ns \<or> sigs w2 < sigs w" by blast
      note k = nap_keeps[OF n]
      let ?r = "remaining_ns - d"
      have r: "?r \<le> 2 ^ 62" "- poll_ns \<le> ?r" using d True less.prems by auto
      then have c: "chk64 ?r = Some ?r" using assms(5) by (simp add: chk64_def in_int64_def)
      have "nat (?r + poll_ns) + sigs w2 < nat (remaining_ns + poll_ns) + sigs w"
        using d True assms(1) by auto
      from less.hyps[OF this r] k Running obtain res where
        res: "wait_loop H pid poll_ns ?r exit_code w2 = Some res"
          "timed_result status (fate w2) (sole w2) clock (clock w2 + ?r) exit_code res" by auto
      have "timed_result status (fate w) (sole w) clock (clock w + remaining_ns) exit_code res"
        using timed_result_earlier[OF res(2)] k d(4) by simp
      with res(1) p n d(1) c True show ?thesis by (subst wait_loop.simps) simp
    qed
  next
    case (Ended c st)
    with poll_once_status[of w] obtain w' where
      "poll_once H pid w = (Some (reported_code c st, w'), w)" "status w' = Gone" by auto
    with ended_fate[OF Ended] show ?thesis by (subst wait_loop.simps) (simp add: timed_result_def)
  next
    case Gone
    with poll_once_status[of w] less.prems(3) have "poll_once H pid w = (Some (0, w), w)" "\<not> sole w" by auto
    with Gone show ?thesis
      by (subst wait_loop.simps) (auto simp: timed_result_def split: option.split)
  qed
qed

text \<open>No overflow for any \<open>int\<close> arguments.\<close>

lemma wait_timeout_result:
  assumes "pi_pid info = pid" and "0 \<le> timeout_ms" and "in_int32 timeout_ms" and "in_int32 poll_interval_ms"
    and "sole w \<Longrightarrow> status w \<noteq> Gone"
  shows "\<exists>res. wait_timeout_ms H info timeout_ms exit_code poll_interval_ms w = Some res \<and>
     timed_result status (fate w) (sole w) clock (clock w + timeout_ms * 1000000) exit_code res"
proof -
  let ?p = "max 1 poll_interval_ms * 1000000"
  have b: "0 < ?p" "in_int64 ?p" "?p \<le> 2 ^ 62" "in_int64 (timeout_ms * 1000000)"
    "timeout_ms * 1000000 \<le> 2 ^ 62" "- ?p \<le> timeout_ms * 1000000"
    using assms(2-4) by (auto simp: in_int64_def in_int32_def max_def)
  show ?thesis
    using wait_loop_result[OF b(1,2,5,6,3), of w exit_code] assms(1,2,5) b(2,4)
    by (simp add: wait_timeout_ms_def)
qed

end

section \<open>A child on a machine with a clock\<close>

text \<open>
  The child ends at a fixed time or never; signals interrupt the sleeping and blocking calls
  by a schedule (\<open>Some k\<close>: after \<open>k\<close> nanoseconds); \<open>pw_rival\<close> says that another
  thread is blocked in \<open>waitid\<close> on the child and reaps it as soon as it ends.
\<close>

datatype cause = Exited int | Killed int | Dumped int

fun cause_wid :: "cause \<Rightarrow> int \<times> int" where
  "cause_wid (Exited n) = (CLD_EXITED, n)"
| "cause_wid (Killed n) = (CLD_KILLED, n)"
| "cause_wid (Dumped n) = (CLD_DUMPED, n)"

fun cause_code :: "cause \<Rightarrow> int" where
  "cause_code (Exited n) = n"
| "cause_code (Killed n) = 128 + n"
| "cause_code (Dumped n) = 128 + n"

record pworld =
  pw_clock :: int
  pw_life :: "(int \<times> cause) option"
  pw_reaped :: bool
  pw_rival :: bool
  pw_intr :: "int option list"

definition pw_ended :: "pworld \<Rightarrow> cause option" where
  "pw_ended w = (case pw_life w of None \<Rightarrow> None | Some (t, c) \<Rightarrow> if t \<le> pw_clock w then Some c else None)"

definition pw_status :: "pworld \<Rightarrow> pstat" where
  "pw_status w =
     (if pw_reaped w then Gone
      else case pw_ended w of
             None \<Rightarrow> Running
           | Some c \<Rightarrow> if pw_rival w then Gone else Ended (fst (cause_wid c)) (snd (cause_wid c)))"

definition pw_fate :: "pworld \<Rightarrow> (int \<times> int) option" where
  "pw_fate w = map_option (\<lambda>(t, c). cause_wid c) (pw_life w)"

definition pw_sigs :: "pworld \<Rightarrow> nat" where
  "pw_sigs w = length (pw_intr w)"

definition pw_show :: "pworld \<Rightarrow> wid" where
  "pw_show w = (case pw_status w of Running \<Rightarrow> Wid 0 0 | Ended c st \<Rightarrow> Wid c st | Gone \<Rightarrow> Wid_err ECHILD)"

definition pw_finish :: "pworld \<Rightarrow> (wid \<times> pworld) option" where
  "pw_finish w =
     (case pw_life w of
        None \<Rightarrow> None
      | Some (t, c) \<Rightarrow>
          Some (if pw_rival w then Wid_err ECHILD else Wid (fst (cause_wid c)) (snd (cause_wid c)),
                w\<lparr>pw_clock := max t (pw_clock w), pw_reaped := True\<rparr>))"

definition pw_block :: "int \<Rightarrow> pworld \<Rightarrow> (wid \<times> pworld) option" where
  "pw_block pid w =
     (case pw_status w of
        Gone \<Rightarrow> Some (Wid_err ECHILD, w)
      | Ended c st \<Rightarrow> Some (Wid c st, w\<lparr>pw_reaped := True\<rparr>)
      | Running \<Rightarrow>
          (case pw_intr w of
             Some k # rest \<Rightarrow>
               (let w' = w\<lparr>pw_clock := pw_clock w + max 0 k, pw_intr := rest\<rparr>
                in if pw_ended w' = None then Some (Wid_err EINTR, w') else pw_finish w)
           | _ \<Rightarrow> pw_finish w))"

definition pw_nap :: "int \<times> int \<Rightarrow> pworld \<Rightarrow> nap \<times> pworld" where
  "pw_nap t w =
     (let d = fst t * 1000000000 + snd t
      in case pw_intr w of
           Some k # rest \<Rightarrow>
             (let slept = min (max 0 k) d; left = d - slept
              in (Nap_fail EINTR (left div 1000000000, left mod 1000000000),
                  w\<lparr>pw_clock := pw_clock w + slept, pw_intr := rest\<rparr>))
         | _ \<Rightarrow> (Nap_ok, w\<lparr>pw_clock := pw_clock w + d, pw_intr := tl (pw_intr w)\<rparr>))"

definition pw_host :: "pworld wait_host" where
  "pw_host = \<lparr>h_block = pw_block, h_peek = (\<lambda>pid w. (pw_show w, w)),
     h_reap = (\<lambda>pid w. (pw_show w, if pw_status w = Running then w else w\<lparr>pw_reaped := True\<rparr>)), h_nap = pw_nap\<rparr>"

lemma pw_status_reaped [simp]: "pw_reaped w \<Longrightarrow> pw_status w = Gone"
  by (simp add: pw_status_def)

lemma pw_not_gone: "\<not> pw_rival w \<Longrightarrow> \<not> pw_reaped w \<Longrightarrow> pw_status w \<noteq> Gone"
  by (simp add: pw_status_def split: option.split)

lemma pw_gone: "pw_status w = Gone \<Longrightarrow> \<not> pw_rival w \<Longrightarrow> pw_reaped w"
  using pw_not_gone by blast

lemma pw_status_Ended: "pw_status w = Ended c st \<Longrightarrow> pw_fate w = Some (c, st)"
  by (auto simp: pw_status_def pw_fate_def pw_ended_def split: option.splits if_splits)

lemma pw_finish_SomeD:
  "pw_finish w = Some (r, w') \<Longrightarrow> \<exists>c st. pw_fate w = Some (c, st) \<and> pw_status w' = Gone \<and>
     (r = Wid c st \<or> r = Wid_err ECHILD \<and> pw_rival w)"
  by (auto simp: pw_finish_def pw_fate_def split: option.splits if_splits)

lemma pw_block_running:
  assumes "pw_status w = Running" and "pw_block pid w = Some (r, w')"
  shows "(r = Wid_err EINTR \<and> pw_sigs w' < pw_sigs w \<and> pw_fate w' = pw_fate w \<and>
      pw_rival w' = pw_rival w \<and> (\<not> pw_rival w \<longrightarrow> pw_status w' \<noteq> Gone)) \<or>
    (\<exists>c st. pw_fate w = Some (c, st) \<and> pw_status w' = Gone \<and> (r = Wid c st \<or> r = Wid_err ECHILD \<and> pw_rival w))"
proof (cases "pw_finish w = Some (r, w')")
  case True
  from pw_finish_SomeD[OF this] show ?thesis by blast
next
  case False
  with assms obtain k rest where i: "pw_intr w = Some k # rest" and r: "r = Wid_err EINTR"
    and w': "w' = w\<lparr>pw_clock := pw_clock w + max 0 k, pw_intr := rest\<rparr>"
    by (auto simp: pw_block_def Let_def split: list.splits option.splits if_splits)
  have "\<not> pw_reaped w" using assms(1) by (auto simp: pw_status_def)
  then have "\<not> pw_rival w \<longrightarrow> pw_status w' \<noteq> Gone" using pw_not_gone[of w'] by (simp add: w')
  with i r w' show ?thesis by (simp add: pw_sigs_def pw_fate_def)
qed

lemma pw_nap_result:
  assumes "pw_nap (sec, nsec) w = (n, w')" and "0 \<le> sec * 1000000000 + nsec"
  shows "case n of
      Nap_ok \<Rightarrow> pw_clock w' = pw_clock w + (sec * 1000000000 + nsec) \<and> pw_sigs w' \<le> pw_sigs w
    | Nap_fail e (rs, rn) \<Rightarrow> e = EINTR \<and> 0 \<le> rs \<and> 0 \<le> rn \<and> rs * 1000000000 + rn \<le> sec * 1000000000 + nsec \<and>
        pw_clock w' = pw_clock w + (sec * 1000000000 + nsec) - (rs * 1000000000 + rn) \<and> pw_sigs w' < pw_sigs w"
proof -
  let ?d = "sec * 1000000000 + nsec"
  have q: "l div 1000000000 * 1000000000 = l - l mod 1000000000" for l :: int
    by (simp add: minus_mod_eq_div_mult)
  show ?thesis
  proof (cases "\<exists>k rest. pw_intr w = Some k # rest")
    case True
    then obtain k rest where i: "pw_intr w = Some k # rest" by blast
    let ?s = "min (max 0 k) ?d"
    let ?l = "?d - ?s"
    have n: "n = Nap_fail EINTR (?l div 1000000000, ?l mod 1000000000)"
      and w': "w' = w\<lparr>pw_clock := pw_clock w + ?s, pw_intr := rest\<rparr>"
      using assms(1) i by (auto simp: pw_nap_def Let_def)
    define l where "l = ?d - ?s"
    have l: "0 \<le> l" "l \<le> ?d" "?s = ?d - l" using assms(2) by (auto simp: l_def)
    show ?thesis unfolding n w' l_def[symmetric] l(3)
      using l(1,2) by (simp add: q pos_imp_zdiv_nonneg_iff pw_sigs_def i)
  next
    case False
    then have "n = Nap_ok" "w' = w\<lparr>pw_clock := pw_clock w + ?d, pw_intr := tl (pw_intr w)\<rparr>"
      using assms(1) by (auto simp: pw_nap_def Let_def split: list.splits option.splits)
    then show ?thesis by (simp add: pw_sigs_def)
  qed
qed

lemma pw_nap_keeps:
  assumes "pw_nap t w = (n, w')"
  shows "pw_life w' = pw_life w \<and> pw_rival w' = pw_rival w \<and> pw_reaped w' = pw_reaped w"
  using assms by (auto simp: pw_nap_def Let_def split: list.splits option.splits)

interpretation pw: child_waits pw_host pid pw_status pw_fate "\<lambda>w. \<not> pw_rival w" pw_sigs pw_clock for pid
proof unfold_locales
  fix w c st assume "pw_fate w = Some (c, st)"
  then obtain x where "cause_wid x = (c, st)" by (auto simp: pw_fate_def)
  then show "c = CLD_EXITED \<or> c = CLD_KILLED \<or> c = CLD_DUMPED" by (cases x) auto
next
  fix w r w' assume "pw_status w = Running" and "h_block pw_host pid w = Some (r, w')"
  with pw_block_running[of w pid r w'] show "(r = Wid_err EINTR \<and> pw_sigs w' < pw_sigs w \<and> pw_fate w' = pw_fate w \<and>
      (\<not> pw_rival w') = (\<not> pw_rival w) \<and> (\<not> pw_rival w \<longrightarrow> pw_status w' \<noteq> Gone)) \<or>
    (\<exists>c st. pw_fate w = Some (c, st) \<and> pw_status w' = Gone \<and> (r = Wid c st \<or> r = Wid_err ECHILD \<and> \<not> \<not> pw_rival w))"
    by (simp add: pw_host_def)
next
  fix w assume "pw_fate w \<noteq> None"
  then have "pw_finish w \<noteq> None" by (auto simp: pw_fate_def pw_finish_def)
  then show "h_block pw_host pid w \<noteq> None"
    by (auto simp: pw_host_def pw_block_def Let_def split: pstat.split list.split option.split)
next
  fix sec nsec :: int and w w' assume "0 \<le> sec" "0 \<le> nsec" "h_nap pw_host (sec, nsec) w = (Nap_ok, w')"
  with pw_nap_result[of sec nsec w Nap_ok w']
  show "pw_clock w + (sec * 1000000000 + nsec) \<le> pw_clock w' \<and> pw_sigs w' \<le> pw_sigs w"
    by (simp add: pw_host_def)
next
  fix sec nsec :: int and w w' e rs rn
  assume "0 \<le> sec" "0 \<le> nsec" "h_nap pw_host (sec, nsec) w = (Nap_fail e (rs, rn), w')"
  with pw_nap_result[of sec nsec w "Nap_fail e (rs, rn)" w']
  show "e = EINTR \<and> 0 \<le> rs \<and> 0 \<le> rn \<and> rs * 1000000000 + rn \<le> sec * 1000000000 + nsec \<and>
      pw_clock w + (sec * 1000000000 + nsec) - (rs * 1000000000 + rn) \<le> pw_clock w' \<and> pw_sigs w' < pw_sigs w"
    by (simp add: pw_host_def)
next
  fix t w n w' assume "h_nap pw_host t w = (n, w')"
  then have k: "pw_life w' = pw_life w" "pw_rival w' = pw_rival w" "pw_reaped w' = pw_reaped w"
    using pw_nap_keeps[of t w n w'] by (simp_all add: pw_host_def)
  show "pw_fate w' = pw_fate w \<and> (\<not> pw_rival w') = (\<not> pw_rival w) \<and>
      (\<not> pw_rival w \<and> pw_status w \<noteq> Gone \<longrightarrow> pw_status w' \<noteq> Gone)"
    using pw_not_gone[of w'] k by (auto simp: pw_fate_def)
qed (auto simp: pw_host_def pw_block_def pw_show_def pw_status_Ended)

section \<open>Properties\<close>

lemma cause_reported: "reported_code (fst (cause_wid c)) (snd (cause_wid c)) = cause_code c"
  by (cases c) (simp_all add: reported_code_def)

lemma cause_reported_eq: "cause_wid c = (x, y) \<Longrightarrow> reported_code x y = cause_code c"
  using cause_reported[of c] by simp

lemma pw_fate_life: "pw_life w = Some (t, c) \<Longrightarrow> pw_fate w = Some (fst (cause_wid c), snd (cause_wid c))"
  by (simp add: pw_fate_def)

text \<open>
  \<open>wait_for\<close> returns as soon as the child ends, however many signals interrupt it,
  with the exit status or 128 plus the signal, and reaps the child; so a second wait finds
  no child and returns 0.
\<close>

theorem wait_for_reports_once:
  assumes "pw_life w = Some (t, c)" and "\<not> pw_rival w" and "\<not> pw_reaped w"
  shows "\<exists>w'. wait_for pw_host pid w = Some (cause_code c, w') \<and> wait_for pw_host pid w' = Some (0, w')"
proof -
  from pw.wait_for_sole[OF assms(2) pw_not_gone[OF assms(2,3)] pw_fate_life[OF assms(1)], of pid]
  obtain w' where "wait_for pw_host pid w = Some (cause_code c, w')" "pw_status w' = Gone"
    by (auto simp: cause_reported)
  with pw.wait_for_gone show ?thesis by blast
qed

definition demo_world :: pworld where
  "demo_world = \<lparr>pw_clock = 0, pw_life = Some (7000000, Killed 9), pw_reaped = False, pw_rival = False,
     pw_intr = [Some 10, None, Some 2000000]\<rparr>"

theorem wait_for_reports_once_witness:
  "\<exists>w'. wait_for pw_host 5 demo_world = Some (137, w') \<and> wait_for pw_host 5 w' = Some (0, w')"
  using wait_for_reports_once[of demo_world 7000000 "Killed 9" 5] by (simp add: demo_world_def)



text \<open>
  The case of the other waiter: when the child has ended and another thread, such as
  the one that \<open>begin_wait\<close> starts, has reaped it, the timed wait reports exit code 0,
  whatever the child's own code was.
\<close>

theorem wait_timeout_loses_code:
  assumes "pw_life w = Some (t, c)" and "t \<le> pw_clock w" and "pw_rival w"
    and "0 \<le> timeout_ms" and "in_int32 timeout_ms" and "in_int32 poll_interval_ms"
  shows "wait_timeout_ms pw_host info timeout_ms exit_code poll_interval_ms w = Some (Waited True 0 w)"
proof -
  have "pw_status w = Gone" using assms(1-3) by (simp add: pw_status_def pw_ended_def)
  with pw.poll_once_status[of "pi_pid info" w] have "poll_once pw_host (pi_pid info) w = (Some (0, w), w)" by simp
  moreover have "in_int64 (max 1 poll_interval_ms * 1000000)" "in_int64 (timeout_ms * 1000000)"
    using assms(4-6) by (auto simp: in_int32_def in_int64_def max_def)
  ultimately show ?thesis using assms(4)
    by (simp add: wait_timeout_ms_def) (subst wait_loop.simps, simp)
qed

theorem wait_timeout_loses_code_witness:
  "wait_timeout_ms pw_host process_info_new 0 77 1 (demo_world\<lparr>pw_clock := 8000000, pw_rival := True\<rparr>) =
     Some (Waited True 0 (demo_world\<lparr>pw_clock := 8000000, pw_rival := True\<rparr>))"
  by (rule wait_timeout_loses_code[where t = 7000000 and c = "Killed 9"])
    (simp_all add: demo_world_def in_int32_def)

lemma process_exited_eq:
  "process_exited pw_host sigchld stat info w =
     (if pw_status w = Gone \<and> sigchld = None then Inl (Runtime_error ''should not reach here'')
      else Inr (pw_status w \<noteq> Running), w)"
proof -
  have "exit_value c st \<noteq> None" if "pw_status w = Ended c st" for c st
    using pw.fate_value[OF pw_status_Ended[OF that]] by simp
  then show ?thesis
    by (auto simp: process_exited_def pw.poll_status Let_def split: pstat.split option.split)
qed

text \<open>
  \<open>process_exited\<close> answers true exactly when the child has ended or is gone, without
  reaping it; the handler of \<open>SIGCHLD\<close> and the start time make no difference to the
  answer, except for the exception when \<open>sigaction\<close> fails for a child that is gone.
\<close>

theorem process_exited_iff:
  "process_exited pw_host sigchld stat info w =
     (if pw_status w = Gone \<and> sigchld = None then Inl (Runtime_error ''should not reach here'')
      else Inr (pw_status w \<noteq> Running), w)"
  by (rule process_exited_eq)

text \<open>
  The tree is signalled only while the child is known to be the process that was
  started: a child that has ended or is gone gets no signal, a running one whose recorded
  start time is not confirmed gets the signal alone, and its whole process group gets it
  otherwise.
\<close>

lemma terminate_tree_calls:
  assumes "0 < pi_pid info" and "sigchld \<noteq> None"
  shows "terminate_process_tree pw_host sigchld stat info force w =
    (Inr (if pw_status w \<noteq> Running then []
          else [(if 0 < pi_start_time info \<and> get_process_start_time (stat (pi_pid info)) \<noteq> Some (pi_start_time info)
                 then pi_pid info else - pi_pid info,
                 if force then SIGKILL else SIGTERM)]), w)"
proof -
  have "process_exited pw_host sigchld stat info w = (Inr (pw_status w \<noteq> Running), w)"
    using assms(2) by (simp add: process_exited_eq)
  then show ?thesis using assms(1)
    by (auto simp: terminate_process_tree_def Let_def split: bool.split)
qed

end
