(* ===== verification/Proc_Group.thy ===== *)
theory Proc_Group
  imports Wait_Unix
begin

text \<open>
  The process group of a child: \<open>setpgid\<close> in \<open>child_proc\<close> and in
  \<open>create_process_impl\<close> (\<open>src/process_unix.cpp\<close>), which race, and what
  \<open>terminate_process_tree\<close> (\<open>src/process_unix_wait.cpp\<close>) then reaches with the number of
  the group.
\<close>

section \<open>Processes, groups and sessions\<close>

text \<open>
  A process that the system knows, also one that has ended and is not reaped;
  \<open>tk_execed\<close>: it has called \<open>execve\<close> since it was forked.
\<close>

record task =
  tk_parent :: int
  tk_session :: int
  tk_group :: int
  tk_execed :: bool
  tk_ended :: bool

type_synonym tasks = "int \<Rightarrow> task option"

abbreviation ESRCH :: int where "ESRCH \<equiv> 3"
abbreviation EPERM :: int where "EPERM \<equiv> 1"

definition group_in_session :: "tasks \<Rightarrow> int \<Rightarrow> int \<Rightarrow> bool" where
  "group_in_session ps g sid \<longleftrightarrow> (\<exists>q u. ps q = Some u \<and> tk_group u = g \<and> tk_session u = sid)"

text \<open>
  \<open>setpgid(pid, pgid)\<close> called by \<open>self\<close>, with the errors of POSIX: only oneself and one's
  children, no child that has executed a program, no leader of a session, and no group of
  another session.
\<close>

definition sys_setpgid :: "int \<Rightarrow> int \<Rightarrow> int \<Rightarrow> tasks \<Rightarrow> int option \<times> tasks" where
  "sys_setpgid self pid0 pgid0 ps =
     (let pid = (if pid0 = 0 then self else pid0);
          pgid = (if pgid0 = 0 then pid else pgid0)
      in case (ps self, ps pid) of
           (Some me, Some t) \<Rightarrow>
             if pid \<noteq> self \<and> tk_parent t \<noteq> self then (Some ESRCH, ps)
             else if pid \<noteq> self \<and> tk_execed t then (Some EACCES, ps)
             else if tk_session t = pid \<or> tk_session t \<noteq> tk_session me then (Some EPERM, ps)
             else if pgid \<noteq> pid \<and> \<not> group_in_session ps pgid (tk_session me) then (Some EPERM, ps)
             else (None, ps(pid \<mapsto> t\<lparr>tk_group := pgid\<rparr>))
         | _ \<Rightarrow> (Some ESRCH, ps))"

text \<open>
  \<open>fork\<close> gives a number that no process, group or session has; everything else is
  inherited.
\<close>

definition fresh_pid :: "int \<Rightarrow> tasks \<Rightarrow> bool" where
  "fresh_pid q ps \<longleftrightarrow> 1 < q \<and> ps q = None \<and> (\<forall>p t. ps p = Some t \<longrightarrow> tk_group t \<noteq> q \<and> tk_session t \<noteq> q)"

definition fork_task :: "int \<Rightarrow> task \<Rightarrow> int \<Rightarrow> tasks \<Rightarrow> tasks" where
  "fork_task p t q ps = ps(q \<mapsto> t\<lparr>tk_parent := p, tk_execed := False\<rparr>)"

definition alive :: "tasks \<Rightarrow> int \<Rightarrow> bool" where
  "alive ps q \<longleftrightarrow> (case ps q of None \<Rightarrow> False | Some t \<Rightarrow> \<not> tk_ended t)"

text \<open>
  A process ends: its children get another parent.
\<close>

definition end_task :: "int \<Rightarrow> tasks \<Rightarrow> tasks" where
  "end_task p ps = (\<lambda>q. map_option (\<lambda>t. t\<lparr>tk_ended := tk_ended t \<or> q = p,
     tk_parent := if tk_parent t = p then 1 else tk_parent t\<rparr>) (ps q))"

text \<open>The processes that \<open>kill(a, sig)\<close> signals, called by \<open>self\<close>.\<close>

definition kill_targets :: "int \<Rightarrow> int \<Rightarrow> tasks \<Rightarrow> int set" where
  "kill_targets self a ps =
     {q. alive ps q \<and>
         (if 0 < a then q = a
          else if a = 0 then map_option tk_group (ps q) = map_option tk_group (ps self)
          else if a = -1 then True
          else map_option tk_group (ps q) = Some (- a))}"

section \<open>The two calls of the code and their interleavings\<close>

text \<open>The first statement of \<open>child_proc\<close>, and that of the branch of the parent.\<close>

definition child_setpgid :: "int \<Rightarrow> tasks \<Rightarrow> tasks" where
  "child_setpgid pid ps = snd (sys_setpgid pid 0 0 ps)"

definition parent_setpgid :: "int \<Rightarrow> int \<Rightarrow> tasks \<Rightarrow> tasks" where
  "parent_setpgid me pid ps = snd (sys_setpgid me pid pid ps)"

text \<open>
  How far the child and the parent are.  \<open>pg_tree\<close> holds the child and every process that one of
  them has forked, until it is reaped.
\<close>

datatype child_at = Forked | Grouped | In_program

datatype parent_at = Before_setpgid | Reading | Returned

record pg_state =
  pg_tasks :: tasks
  pg_child :: child_at
  pg_parent :: parent_at
  pg_tree :: "int set"

definition after_fork :: "int \<Rightarrow> int \<Rightarrow> tasks \<Rightarrow> pg_state" where
  "after_fork me pid ps =
     \<lparr>pg_tasks = (case ps me of None \<Rightarrow> ps | Some m \<Rightarrow> fork_task me m pid ps),
      pg_child = Forked, pg_parent = Before_setpgid, pg_tree = {pid}\<rparr>"

text \<open>
  One step of any process: the child sets its group, then executes the program; the parent
  sets the group of the child, then reads the failure pipe, which ends when the child has executed
  the program or is gone.  Any process but the program itself may end, ended ones are reaped,
  every process may fork, and those outside the tree may move to groups other than the child's.
\<close>

inductive pg_step :: "int \<Rightarrow> int \<Rightarrow> pg_state \<Rightarrow> pg_state \<Rightarrow> bool" for me pid where
  child_group: "pg_child s = Forked \<Longrightarrow> pid \<in> pg_tree s \<Longrightarrow> alive (pg_tasks s) pid \<Longrightarrow>
    pg_step me pid s (s\<lparr>pg_tasks := child_setpgid pid (pg_tasks s), pg_child := Grouped\<rparr>)"
| child_exec: "pg_child s = Grouped \<Longrightarrow> pid \<in> pg_tree s \<Longrightarrow> pg_tasks s pid = Some t \<Longrightarrow> \<not> tk_ended t \<Longrightarrow>
    pg_step me pid s (s\<lparr>pg_tasks := (pg_tasks s)(pid \<mapsto> t\<lparr>tk_execed := True\<rparr>), pg_child := In_program\<rparr>)"
| parent_group: "pg_parent s = Before_setpgid \<Longrightarrow>
    pg_step me pid s (s\<lparr>pg_tasks := parent_setpgid me pid (pg_tasks s), pg_parent := Reading\<rparr>)"
| parent_returns: "pg_parent s = Reading \<Longrightarrow> pg_child s = In_program \<or> \<not> (pid \<in> pg_tree s \<and> alive (pg_tasks s) pid) \<Longrightarrow>
    pg_step me pid s (s\<lparr>pg_parent := Returned\<rparr>)"
| forks: "pg_tasks s p = Some t \<Longrightarrow> \<not> tk_ended t \<Longrightarrow> p \<in> pg_tree s \<Longrightarrow> pg_child s = In_program \<Longrightarrow> fresh_pid q (pg_tasks s) \<Longrightarrow>
    pg_step me pid s (s\<lparr>pg_tasks := fork_task p t q (pg_tasks s), pg_tree := insert q (pg_tree s)\<rparr>)"
| forks_other: "pg_tasks s p = Some t \<Longrightarrow> \<not> tk_ended t \<Longrightarrow> p \<notin> pg_tree s \<Longrightarrow> fresh_pid q (pg_tasks s) \<Longrightarrow>
    pg_step me pid s (s\<lparr>pg_tasks := fork_task p t q (pg_tasks s)\<rparr>)"
| moves_other: "p \<notin> pg_tree s \<Longrightarrow> q \<notin> pg_tree s \<Longrightarrow> q \<noteq> 0 \<Longrightarrow> g \<noteq> 0 \<Longrightarrow> g \<noteq> pid \<or> q = pid \<Longrightarrow>
    pg_step me pid s (s\<lparr>pg_tasks := snd (sys_setpgid p q g (pg_tasks s))\<rparr>)"
| ends: "p \<noteq> me \<Longrightarrow> pg_step me pid s (s\<lparr>pg_tasks := end_task p (pg_tasks s)\<rparr>)"
| reaped: "pg_tasks s p = Some t \<Longrightarrow> tk_ended t \<Longrightarrow>
    pg_step me pid s (s\<lparr>pg_tasks := (pg_tasks s)(p := None), pg_tree := pg_tree s - {p}\<rparr>)"

section \<open>The group of the child\<close>

lemma setpgid_effect:
  "snd (sys_setpgid self q g ps) = ps \<or>
   (\<exists>t. ps (if q = 0 then self else q) = Some t \<and>
      snd (sys_setpgid self q g ps) = ps((if q = 0 then self else q) \<mapsto>
        t\<lparr>tk_group := if g = 0 then (if q = 0 then self else q) else g\<rparr>))"
  unfolding sys_setpgid_def Let_def by (cases "ps self"; cases "ps (if q = 0 then self else q)") simp_all

lemma child_setpgid_eq:
  "ps pid = Some t \<Longrightarrow> tk_session t \<noteq> pid \<Longrightarrow> child_setpgid pid ps = ps(pid \<mapsto> t\<lparr>tk_group := pid\<rparr>)"
  by (simp add: child_setpgid_def sys_setpgid_def)

text \<open>
  The call of the parent changes nothing after that of the child, and after the program has been
  executed it is refused.
\<close>

lemma parent_setpgid_late:
  assumes "pid \<noteq> 0" and "ps pid = Some t" and "tk_group t = pid"
  shows "parent_setpgid me pid ps = ps"
proof -
  have "t\<lparr>tk_group := pid\<rparr> = t" using assms(3) by simp
  then show ?thesis using assms(1,2) setpgid_effect[of me pid pid ps]
    by (auto simp: parent_setpgid_def fun_upd_idem)
qed

lemma parent_setpgid_refused:
  "pid \<noteq> 0 \<Longrightarrow> ps pid = Some t \<Longrightarrow> pid \<noteq> me \<Longrightarrow> tk_execed t \<Longrightarrow> parent_setpgid me pid ps = ps"
  by (auto simp: parent_setpgid_def sys_setpgid_def Let_def split: option.split)

definition pg_inv :: "int \<Rightarrow> int \<Rightarrow> pg_state \<Rightarrow> bool" where
  "pg_inv me pid s \<longleftrightarrow>
     1 < pid \<and> alive (pg_tasks s) me \<and> me \<notin> pg_tree s \<and>
     (\<forall>q\<in>pg_tree s. \<exists>t. pg_tasks s q = Some t \<and> (pg_child s \<noteq> Forked \<longrightarrow> tk_group t = pid)) \<and>
     (pg_tree s \<noteq> {} \<longrightarrow> (\<forall>q t. pg_tasks s q = Some t \<and> (tk_group t = pid \<or> q = pid) \<longrightarrow> q \<in> pg_tree s)) \<and>
     (pg_child s = Forked \<longrightarrow> pg_tree s \<subseteq> {pid} \<and>
        (\<forall>t. pid \<in> pg_tree s \<and> pg_tasks s pid = Some t \<longrightarrow> tk_session t \<noteq> pid)) \<and>
     (pg_parent s = Returned \<longrightarrow> pg_child s = In_program \<or> \<not> (pid \<in> pg_tree s \<and> alive (pg_tasks s) pid))"

lemma pg_invI:
  assumes "1 < pid" and "alive (pg_tasks s) me" and "me \<notin> pg_tree s"
    and "\<And>q. q \<in> pg_tree s \<Longrightarrow> \<exists>t. pg_tasks s q = Some t \<and> (pg_child s \<noteq> Forked \<longrightarrow> tk_group t = pid)"
    and "\<And>q t. pg_tree s \<noteq> {} \<Longrightarrow> pg_tasks s q = Some t \<Longrightarrow> tk_group t = pid \<or> q = pid \<Longrightarrow> q \<in> pg_tree s"
    and "pg_child s = Forked \<Longrightarrow> pg_tree s \<subseteq> {pid}"
    and "\<And>t. pg_child s = Forked \<Longrightarrow> pid \<in> pg_tree s \<Longrightarrow> pg_tasks s pid = Some t \<Longrightarrow> tk_session t \<noteq> pid"
    and "pg_parent s = Returned \<Longrightarrow> pg_child s \<noteq> In_program \<Longrightarrow> pid \<in> pg_tree s \<Longrightarrow> \<not> alive (pg_tasks s) pid"
  shows "pg_inv me pid s"
  unfolding pg_inv_def using assms by blast

lemma pg_inv_start:
  assumes "ps me = Some m" and "\<not> tk_ended m" and "fresh_pid pid ps"
  shows "pg_inv me pid (after_fork me pid ps)"
proof -
  have "me \<noteq> pid" using assms by (auto simp: fresh_pid_def)
  with assms show ?thesis
    by (auto simp: pg_inv_def after_fork_def fork_task_def fresh_pid_def alive_def)
qed

lemma alive_upd: "alive (ps(q \<mapsto> t)) p \<longleftrightarrow> (if p = q then \<not> tk_ended t else alive ps p)"
  by (simp add: alive_def)

lemma alive_Some: "ps p = Some t \<Longrightarrow> alive ps p \<longleftrightarrow> \<not> tk_ended t"
  by (simp add: alive_def)

lemma alive_regroup: "ps q = Some t \<Longrightarrow> alive (ps(q \<mapsto> t\<lparr>tk_group := g\<rparr>)) p \<longleftrightarrow> alive ps p"
  by (auto simp: alive_def)

lemma alive_end_task: "alive (end_task p ps) q \<longleftrightarrow> alive ps q \<and> q \<noteq> p"
  by (auto simp: alive_def end_task_def split: option.split)

lemma alive_fork: "fresh_pid q ps \<Longrightarrow> p \<noteq> q \<Longrightarrow> alive (fork_task r t q ps) p \<longleftrightarrow> alive ps p"
  by (simp add: alive_def fork_task_def)

lemma pg_inv_reading: "pg_inv me pid (s\<lparr>pg_tasks := ps\<rparr>) \<Longrightarrow> pg_inv me pid (s\<lparr>pg_tasks := ps, pg_parent := Reading\<rparr>)"
  by (simp add: pg_inv_def)

lemma pg_inv_regroup:
  assumes "pg_inv me pid s" and "pg_tasks s q = Some t"
    and "q \<in> pg_tree s \<and> g = pid \<or> q \<notin> pg_tree s \<and> (g \<noteq> pid \<or> q = pid)"
  shows "pg_inv me pid (s\<lparr>pg_tasks := (pg_tasks s)(q \<mapsto> t\<lparr>tk_group := g\<rparr>)\<rparr>)"
proof (rule pg_invI, goal_cases)
  case (4 r)
  with assms show ?case by (cases "r = q") (auto simp: pg_inv_def)
next
  case (5 r u)
  show ?case
  proof (cases "r = q")
    case True
    with assms 5 show ?thesis by (auto simp: pg_inv_def)
  next
    case False
    with assms(1) 5 show ?thesis by (auto simp: pg_inv_def)
  qed
next
  case (7 u)
  with assms(1,2) show ?case by (cases "q = pid") (auto simp: pg_inv_def)
qed (use assms(1,2) in \<open>simp_all add: pg_inv_def alive_regroup\<close>)

lemma fork_task_apply:
  "fork_task p t q ps r = (if r = q then Some (t\<lparr>tk_parent := p, tk_execed := False\<rparr>) else ps r)"
  by (simp add: fork_task_def)

text \<open>As long as some process of the tree is left, the number of the child is not given again.\<close>

lemma fresh_not_child:
  assumes "pg_inv me pid s" and "pg_tree s \<noteq> {}" and "fresh_pid q (pg_tasks s)"
  shows "q \<noteq> pid"
proof -
  from assms(1,2) obtain r t where "r \<in> pg_tree s" "pg_tasks s r = Some t" "tk_group t = pid \<or> r = pid"
    unfolding pg_inv_def by blast
  with assms(3) show ?thesis by (auto simp: fresh_pid_def)
qed

lemma pg_inv_forks:
  assumes forks: "pg_tasks s p = Some t" "p \<in> pg_tree s" "pg_child s = In_program" "fresh_pid q (pg_tasks s)" "pg_inv me pid s"
  shows "pg_inv me pid (s\<lparr>pg_tasks := fork_task p t q (pg_tasks s), pg_tree := insert q (pg_tree s)\<rparr>)"
proof -
  note i = forks(5)[unfolded pg_inv_def]
  from i forks have "tk_group t = pid" by (metis child_at.distinct(3) option.inject)
  have "q \<noteq> me" using i forks(4) by (auto simp: fresh_pid_def alive_def)
  show ?thesis
  proof (rule pg_invI, goal_cases)
    case (4 r)
    then show ?case using i \<open>tk_group t = pid\<close> forks(3) by (auto simp: fork_task_apply)
  next
    case (5 r v)
    then show ?case using i forks(2) by (auto simp: fork_task_apply split: if_splits)
  qed (use i forks(3,4) \<open>q \<noteq> me\<close> in \<open>simp_all add: alive_fork\<close>)
qed

lemma pg_inv_forks_other:
  assumes forks_other: "pg_tasks s p = Some t" "p \<notin> pg_tree s" "fresh_pid q (pg_tasks s)" "pg_inv me pid s"
  shows "pg_inv me pid (s\<lparr>pg_tasks := fork_task p t q (pg_tasks s)\<rparr>)"
proof -
  note i = forks_other(4)[unfolded pg_inv_def]
  have n: "pg_tasks s q = None" "q \<noteq> me" "q \<notin> pg_tree s"
    using i forks_other(3) by (auto simp: fresh_pid_def alive_def)
  show ?thesis
  proof (rule pg_invI, goal_cases)
    case (4 r)
    then have "r \<noteq> q" using n(3) by auto
    with 4 show ?case using i by (auto simp: fork_task_apply)
  next
    case (5 r v)
    show ?case
    proof (cases "r = q")
      case True
      with fresh_not_child[OF forks_other(4) _ forks_other(3)] 5 have "tk_group t = pid" by (auto simp: fork_task_apply)
      with i 5(1) forks_other(1,2) show ?thesis by auto
    next
      case False
      with i 5 show ?thesis by (auto simp: fork_task_apply)
    qed
  next
    case (7 u)
    then have "pid \<noteq> q" using n(3) by auto
    with i 7 show ?case by (simp add: fork_task_apply)
  next
    case 8
    then have "pid \<noteq> q" using n(3) by auto
    with i 8 show ?case by (simp add: alive_fork[OF forks_other(3)])
  qed (use i n(2) in \<open>simp_all add: alive_fork[OF forks_other(3)]\<close>)
qed

lemma pg_inv_ends:
  assumes ends: "p \<noteq> me" "pg_inv me pid s"
  shows "pg_inv me pid (s\<lparr>pg_tasks := end_task p (pg_tasks s)\<rparr>)"
proof -
  note i = ends(2)[unfolded pg_inv_def]
  have e: "end_task p (pg_tasks s) r = Some u \<Longrightarrow> \<exists>t. pg_tasks s r = Some t \<and> tk_group u = tk_group t \<and> tk_session u = tk_session t"
    for r u by (auto simp: end_task_def)
  show ?thesis
  proof (rule pg_invI, goal_cases)
    case (4 r)
    then have "r \<in> pg_tree s" by simp
    with i obtain t where "pg_tasks s r = Some t" "pg_child s \<noteq> Forked \<longrightarrow> tk_group t = pid" by blast
    then show ?case by (simp add: end_task_def)
  next
    case (5 r u)
    with e[of r u] i show ?case by auto
  next
    case (7 u)
    with e[of pid u] i show ?case by auto
  qed (use i ends(1) in \<open>simp_all add: alive_end_task\<close>)
qed

lemma pg_inv_reaped:
  assumes reaped: "pg_tasks s p = Some t" "tk_ended t" "pg_inv me pid s"
  shows "pg_inv me pid (s\<lparr>pg_tasks := (pg_tasks s)(p := None), pg_tree := pg_tree s - {p}\<rparr>)"
proof -
  note i = reaped(3)[unfolded pg_inv_def]
  have "p \<noteq> me" using i reaped(1,2) by (auto simp: alive_def)
  show ?thesis
  proof (rule pg_invI, goal_cases)
    case 2
    with i \<open>p \<noteq> me\<close> show ?case by (simp add: alive_def)
  next
    case (5 r u)
    then have "pg_tree s \<noteq> {}" by auto
    with i 5 show ?case by (auto split: if_splits)
  next
    case 8
    with i show ?case by (auto simp: alive_def)
  qed (use i in auto)
qed

lemma pg_step_inv:
  assumes "pg_step me pid s s'" and "pg_inv me pid s"
  shows "pg_inv me pid s'"
  using assms
proof (induction rule: pg_step.induct)
  case (child_group s)
  then obtain t where t: "pg_tasks s pid = Some t" "tk_session t \<noteq> pid" by (auto simp: pg_inv_def)
  with child_group show ?case
    by (auto simp: pg_inv_def child_setpgid_eq alive_regroup)
next
  case (child_exec s t)
  then show ?case by (auto simp: pg_inv_def alive_upd)
next
  case (parent_group s)
  then have "pid \<noteq> 0" by (auto simp: pg_inv_def)
  with setpgid_effect[of me pid pid "pg_tasks s"] consider "parent_setpgid me pid (pg_tasks s) = pg_tasks s"
    | t where "pg_tasks s pid = Some t" "parent_setpgid me pid (pg_tasks s) = (pg_tasks s)(pid \<mapsto> t\<lparr>tk_group := pid\<rparr>)"
    by (auto simp: parent_setpgid_def)
  then have "pg_inv me pid (s\<lparr>pg_tasks := parent_setpgid me pid (pg_tasks s)\<rparr>)"
  proof cases
    case 2
    with pg_inv_regroup[OF parent_group(2), of pid t pid] show ?thesis by simp
  qed (use parent_group(2) in simp)
  then show ?case by (rule pg_inv_reading)
next
  case (parent_returns s)
  then show ?case by (auto simp: pg_inv_def)
next
  case (forks s p t q)
  show ?case by (rule pg_inv_forks[OF forks(1,3-6)])
next
  case (forks_other s p t q)
  show ?case by (rule pg_inv_forks_other[OF forks_other(1,3-5)])
next
  case (moves_other p s q g)
  from setpgid_effect[of p q g "pg_tasks s"] moves_other(3,4) consider "snd (sys_setpgid p q g (pg_tasks s)) = pg_tasks s"
    | t where "pg_tasks s q = Some t" "snd (sys_setpgid p q g (pg_tasks s)) = (pg_tasks s)(q \<mapsto> t\<lparr>tk_group := g\<rparr>)"
    by auto
  then show ?case
  proof cases
    case 2
    with pg_inv_regroup[OF moves_other(6), of q t g] moves_other(2,5) show ?thesis by simp
  qed (use moves_other(6) in simp)
next
  case (ends p s)
  show ?case by (rule pg_inv_ends[OF ends])
next
  case (reaped s p t)
  show ?case by (rule pg_inv_reaped[OF reaped])
qed

lemma pg_reachable_inv:
  "(pg_step me pid)\<^sup>*\<^sup>* s s' \<Longrightarrow> pg_inv me pid s \<Longrightarrow> pg_inv me pid s'"
  by (induction rule: rtranclp_induct) (use pg_step_inv in blast)+

text \<open>While the child is there, the processes of its group are those of the tree.\<close>

lemma group_is_tree:
  assumes "pg_inv me pid s" and "pg_child s \<noteq> Forked" and "pg_tree s \<noteq> {}"
  shows "kill_targets me (- pid) (pg_tasks s) = {q \<in> pg_tree s. alive (pg_tasks s) q}"
proof -
  have "map_option tk_group (pg_tasks s q) = Some pid \<longleftrightarrow> q \<in> pg_tree s" for q
  proof
    assume "map_option tk_group (pg_tasks s q) = Some pid"
    with assms show "q \<in> pg_tree s" by (auto simp: pg_inv_def)
  next
    assume "q \<in> pg_tree s"
    with assms obtain t where "pg_tasks s q = Some t" "tk_group t = pid" unfolding pg_inv_def by blast
    then show "map_option tk_group (pg_tasks s q) = Some pid" by simp
  qed
  then show ?thesis using assms(1) by (auto simp: kill_targets_def pg_inv_def)
qed

text \<open>The calls of \<open>kill\<close> that \<open>terminate_process_tree\<close> makes, and whom they reach.\<close>

definition signalled :: "int \<Rightarrow> tasks \<Rightarrow> (int \<times> int) list \<Rightarrow> int set" where
  "signalled me ps calls = (\<Union>(a, sig)\<in>set calls. kill_targets me a ps)"

section \<open>Properties\<close>


text \<open>
  Process 10 forks 20; it sets the group of the child after the child has executed its program,
  which is refused.  The child forks 21 and 21 forks 22; 10 forks 30, and 21 ends.
\<close>

definition demo_me :: task where
  "demo_me = \<lparr>tk_parent = 1, tk_session = 10, tk_group = 10, tk_execed = True, tk_ended = False\<rparr>"

definition demo_child_task :: task where
  "demo_child_task = \<lparr>tk_parent = 10, tk_session = 10, tk_group = 20, tk_execed = True, tk_ended = False\<rparr>"

definition demo_tree :: pg_state where
  "demo_tree = \<lparr>pg_tasks = [10 \<mapsto> demo_me, 20 \<mapsto> demo_child_task,
       21 \<mapsto> demo_child_task\<lparr>tk_parent := 20, tk_execed := False, tk_ended := True\<rparr>,
       22 \<mapsto> demo_child_task\<lparr>tk_parent := 1, tk_execed := False\<rparr>,
       30 \<mapsto> demo_me\<lparr>tk_parent := 10, tk_execed := False\<rparr>],
     pg_child = In_program, pg_parent = Returned, pg_tree = {20, 21, 22}\<rparr>"

lemma demo_tree_reached: "(pg_step 10 20)\<^sup>*\<^sup>* (after_fork 10 20 [10 \<mapsto> demo_me]) demo_tree"
proof -
  let ?r = "\<lambda>m child parent tree. \<lparr>pg_tasks = m, pg_child = child, pg_parent = parent, pg_tree = tree\<rparr>"
  let ?c = demo_child_task
  let ?s0 = "?r [10 \<mapsto> demo_me, 20 \<mapsto> ?c\<lparr>tk_group := 10, tk_execed := False\<rparr>] Forked Before_setpgid {20}"
  let ?s1 = "?r [10 \<mapsto> demo_me, 20 \<mapsto> ?c\<lparr>tk_execed := False\<rparr>] Grouped Before_setpgid {20}"
  let ?s2 = "?r [10 \<mapsto> demo_me, 20 \<mapsto> ?c] In_program Before_setpgid {20}"
  let ?s3 = "?s2\<lparr>pg_parent := Reading\<rparr>"
  let ?s4 = "?s2\<lparr>pg_parent := Returned\<rparr>"
  let ?c1 = "?c\<lparr>tk_parent := 20, tk_execed := False\<rparr>"
  let ?c2 = "?c\<lparr>tk_parent := 21, tk_execed := False\<rparr>"
  let ?s5 = "?r [10 \<mapsto> demo_me, 20 \<mapsto> ?c, 21 \<mapsto> ?c1] In_program Returned {20, 21}"
  let ?s6 = "?r [10 \<mapsto> demo_me, 20 \<mapsto> ?c, 21 \<mapsto> ?c1, 22 \<mapsto> ?c2] In_program Returned {20, 21, 22}"
  let ?s7 = "?r [10 \<mapsto> demo_me, 20 \<mapsto> ?c, 21 \<mapsto> ?c1, 22 \<mapsto> ?c2,
      30 \<mapsto> demo_me\<lparr>tk_parent := 10, tk_execed := False\<rparr>] In_program Returned {20, 21, 22}"
  note d = demo_me_def demo_child_task_def
  have start: "after_fork 10 20 [10 \<mapsto> demo_me] = ?s0" by (simp add: after_fork_def fork_task_def d)
  have "child_setpgid 20 (pg_tasks ?s0) = pg_tasks ?s1" by (simp add: child_setpgid_eq d)
  then have "pg_step 10 20 ?s0 ?s1" using pg_step.child_group[of ?s0 20 10] by (simp add: alive_def d)
  moreover have "pg_step 10 20 ?s1 ?s2" using pg_step.child_exec[of ?s1 20 "?c\<lparr>tk_execed := False\<rparr>" 10] by (simp add: d)
  moreover have "pg_step 10 20 ?s2 ?s3" using pg_step.parent_group[of ?s2 10 20] parent_setpgid_refused[of 20 "pg_tasks ?s2" ?c 10]
    by (simp add: d)
  moreover have "pg_step 10 20 ?s3 ?s4" using pg_step.parent_returns[of ?s3 20 10] by simp
  moreover have "pg_step 10 20 ?s4 ?s5" using pg_step.forks[of ?s4 20 ?c 21 10 20]
    by (simp add: d fork_task_def fresh_pid_def insert_commute)
  moreover have "pg_step 10 20 ?s5 ?s6" using pg_step.forks[of ?s5 21 ?c1 22 10 20]
    by (simp add: d fork_task_def fresh_pid_def insert_commute)
  moreover have "pg_step 10 20 ?s6 ?s7" using pg_step.forks_other[of ?s6 10 demo_me 30 10 20]
    by (simp add: d fork_task_def fresh_pid_def)
  moreover have "end_task 21 (pg_tasks ?s7) = pg_tasks demo_tree"
    by (rule ext) (simp add: end_task_def demo_tree_def d)
  then have "pg_step 10 20 ?s7 demo_tree" using pg_step.ends[of 21 10 20 ?s7] by (simp add: demo_tree_def)
  ultimately show ?thesis unfolding start by (meson converse_rtranclp_into_rtranclp rtranclp.rtrancl_refl)
qed


end
