(* ===== verification/Exec_Path.thy ===== *)
theory Exec_Path
  imports Env_Unix
begin

text \<open>
  Finding and executing the program (\<open>effective_pathv\<close>, \<open>execve_without_shebang\<close>,
  \<open>execve_or_shebang\<close>, \<open>mpp_execvpe\<close> of \<open>src/process_unix.cpp\<close>).  The system call
  \<open>execve\<close> is a parameter: it either does not return or gives an \<open>errno\<close>.  The
  argument vector is an array of optional strings (\<open>None\<close> is the null pointer), and an
  access outside it is the outcome \<open>Out_of_bounds\<close>.
\<close>

section \<open>Splitting PATH\<close>

definition default_path_env :: string where
  "default_path_env = '':/bin:/usr/bin''"

definition get_path_env :: "string list \<Rightarrow> string" where
  "get_path_env environ = (case getenv environ ''PATH'' of Some s \<Rightarrow> s | None \<Rightarrow> default_path_env)"

abbreviation colon :: char where "colon \<equiv> CHR '':''"

text \<open>
  The loop over the copy of the path: \<open>p\<close> is the text from the pointer to the final NUL,
  \<open>strcspn\<close> finds the next colon or the end.
\<close>

fun pathv_loop :: "nat \<Rightarrow> string \<Rightarrow> string list" where
  "pathv_loop 0 p = []"
| "pathv_loop (Suc n) p =
     (let sep = length (takeWhile (\<lambda>c. c \<noteq> colon) p)
      in (if sep = 0 then ''.'' else take sep p) # pathv_loop n (drop (sep + 1) p))"

definition effective_pathv :: "bool \<Rightarrow> string \<Rightarrow> string list option" where
  "effective_pathv malloc_ok path =
     (let count = count_list path colon + 1
      in if \<not> malloc_ok then None else Some (pathv_loop count path))"

text \<open>The reference: the pieces of the text between its colons.\<close>

fun split_colon :: "string \<Rightarrow> string list" where
  "split_colon [] = [[]]"
| "split_colon (c # cs) =
     (if c = colon then [] # split_colon cs
      else case split_colon cs of [] \<Rightarrow> [[c]] | d # ds \<Rightarrow> (c # d) # ds)"

fun join_colon :: "string list \<Rightarrow> string" where
  "join_colon [] = []"
| "join_colon [d] = d"
| "join_colon (d # ds) = d @ colon # join_colon ds"

definition dot_empty :: "string \<Rightarrow> string" where
  "dot_empty d = (if d = [] then ''.'' else d)"

lemma split_colon_not_Nil [simp]: "split_colon s \<noteq> []"
  by (induction s) (auto split: list.splits)

lemma split_colon_span:
  "split_colon p = takeWhile (\<lambda>c. c \<noteq> colon) p #
     (case dropWhile (\<lambda>c. c \<noteq> colon) p of [] \<Rightarrow> [] | _ # r \<Rightarrow> split_colon r)"
  by (induction p) (auto split: list.splits)

lemma join_split_colon: "join_colon (split_colon s) = s"
proof (induction s)
  case (Cons c cs)
  obtain d ds where s: "split_colon cs = d # ds" by (cases "split_colon cs") auto
  from Cons s show ?case by (cases ds) auto
qed simp

lemma split_colon_pieces: "d \<in> set (split_colon s) \<Longrightarrow> colon \<notin> set d"
  by (induction s arbitrary: d) (fastforce split: list.splits if_splits)+

lemma length_split_colon: "length (split_colon s) = count_list s colon + 1"
  by (induction s) (auto split: list.splits)

lemma pathv_loop_split: "pathv_loop (count_list p colon + 1) p = map dot_empty (split_colon p)"
proof (induction "count_list p colon" arbitrary: p)
  case 0
  then have "colon \<notin> set p" by (simp add: count_list_0_iff)
  then have tw: "takeWhile (\<lambda>c. c \<noteq> colon) p = p" and dw: "dropWhile (\<lambda>c. c \<noteq> colon) p = []"
    by (auto simp: takeWhile_eq_all_conv dropWhile_eq_Nil_conv)
  have "split_colon p = [p]" by (simp only: split_colon_span[of p] tw dw list.case)
  moreover have "pathv_loop 1 p = [dot_empty p]" by (simp add: Let_def tw dot_empty_def del: takeWhile_eq_all_conv)
  ultimately show ?case by (simp add: 0[symmetric])
next
  case (Suc n)
  then have "colon \<in> set p" by (metis count_list_0_iff nat.distinct(1))
  then obtain a r where p: "p = a @ colon # r" and a: "colon \<notin> set a"
    using split_list_first by metis
  have c: "count_list r colon = n" using Suc.hyps(2) a by (simp add: p count_list_0_iff[symmetric] count_list_append)
  have "pathv_loop (count_list p colon + 1) p = dot_empty a # pathv_loop (count_list r colon + 1) r"
    using Suc.hyps(2) a c by (simp add: p dot_empty_def Let_def)
  moreover have "split_colon p = a # split_colon r"
    using a by (subst split_colon_span) (simp add: p)
  ultimately show ?case using Suc.hyps(1)[of r] c by simp
qed

section \<open>execve with the shell fallback\<close>

type_synonym execve = "string \<Rightarrow> string list \<Rightarrow> string list \<Rightarrow> int option"

datatype exec_out =
    Executed string "string list"
  | Returned int "string option list"
  | Out_of_bounds

text \<open>The arguments that a program receives: the array up to its first null pointer.\<close>

definition argv_list :: "string option list \<Rightarrow> string list" where
  "argv_list arr = map the (takeWhile (\<lambda>a. a \<noteq> None) arr)"

definition memmove :: "nat \<Rightarrow> nat \<Rightarrow> nat \<Rightarrow> 'a list \<Rightarrow> 'a list option" where
  "memmove dst src n arr =
     (if dst + n \<le> length arr \<and> src + n \<le> length arr
      then Some (write_at dst (take n (drop src arr)) arr) else None)"

definition execve_without_shebang ::
  "execve \<Rightarrow> string \<Rightarrow> string option list \<Rightarrow> string list \<Rightarrow> exec_out" where
  "execve_without_shebang execve file argv envp =
     (if argv = [] then Out_of_bounds
      else
        let argv0 = argv ! 0;
            end_idx = length (takeWhile (\<lambda>a. a \<noteq> None) argv)
        in case memmove 2 1 end_idx argv of
             None \<Rightarrow> Out_of_bounds
           | Some m \<Rightarrow>
               let argv1 = m[0 := Some ''/bin/sh'', 1 := Some file]
               in case execve ''/bin/sh'' (argv_list argv1) envp of
                    None \<Rightarrow> Executed ''/bin/sh'' (argv_list argv1)
                  | Some e \<Rightarrow>
                      (case memmove 1 2 end_idx argv1 of
                         None \<Rightarrow> Out_of_bounds
                       | Some argv2 \<Rightarrow> Returned e (argv2[0 := argv0])))"

definition execve_or_shebang ::
  "execve \<Rightarrow> string \<Rightarrow> string option list \<Rightarrow> string list \<Rightarrow> exec_out" where
  "execve_or_shebang execve file argv envp =
     (case execve file (argv_list argv) envp of
        None \<Rightarrow> Executed file (argv_list argv)
      | Some e \<Rightarrow> if e = ENOEXEC then execve_without_shebang execve file argv envp
                  else Returned e argv)"

text \<open>The array that \<open>child_proc\<close> builds: the words and two null pointers.\<close>

definition child_argv :: "string list \<Rightarrow> string option list" where
  "child_argv cmdline = map Some cmdline @ [None, None]"

lemma argv_list_child [simp]: "argv_list (child_argv cmdline) = cmdline"
  by (simp add: argv_list_def child_argv_def takeWhile_append comp_def)

text \<open>
  The reference: run the file, or, if it is not executable by itself, the shell on it.
\<close>

definition attempt :: "execve \<Rightarrow> string \<Rightarrow> string list \<Rightarrow> string list \<Rightarrow> int + string \<times> string list" where
  "attempt execve file args envp =
     (case execve file args envp of
        None \<Rightarrow> Inr (file, args)
      | Some e \<Rightarrow>
          if e = ENOEXEC then
            (case execve ''/bin/sh'' (''/bin/sh'' # file # tl args) envp of
               None \<Rightarrow> Inr (''/bin/sh'', ''/bin/sh'' # file # tl args)
             | Some e' \<Rightarrow> Inl e')
          else Inl e)"

lemma takeWhile_map_Some [simp]:
  "takeWhile (\<lambda>a. a \<noteq> None) (map Some xs @ None # ys) = map Some xs"
  by (induction xs) auto

lemma execve_without_shebang_child:
  assumes "args \<noteq> []"
  shows "execve_without_shebang execve file (child_argv args) envp =
    (case execve ''/bin/sh'' (''/bin/sh'' # file # tl args) envp of
       None \<Rightarrow> Executed ''/bin/sh'' (''/bin/sh'' # file # tl args)
     | Some e \<Rightarrow> Returned e (child_argv args))"
proof -
  obtain a r where args: "args = a # r" using assms by (cases args) auto
  define arr n where "arr = child_argv args" and "n = length args"
  define m where "m = Some a # (case r of [] \<Rightarrow> None | b # _ \<Rightarrow> Some b) # map Some r @ [None]"
  define shell_arr where "shell_arr = Some ''/bin/sh'' # Some file # map Some r @ [None]"
  define m' where "m' = Some ''/bin/sh'' # map Some r @ [None, None]"
  have f: "arr \<noteq> []" "arr ! 0 = Some a" "length (takeWhile (\<lambda>a. a \<noteq> None) arr) = n"
      "m[0 := Some ''/bin/sh'', 1 := Some file] = shell_arr" "argv_list shell_arr = ''/bin/sh'' # file # r"
      "m'[0 := Some a] = arr"
    by (simp_all add: arr_def n_def m_def m'_def shell_arr_def child_argv_def args argv_list_def comp_def)
  have mm: "memmove 2 1 n arr = Some m" "memmove 1 2 n shell_arr = Some m'"
    by (cases r; simp add: memmove_def write_at_def arr_def n_def m_def m'_def shell_arr_def
        child_argv_def args)+
  show ?thesis
    unfolding execve_without_shebang_def arr_def[symmetric]
    by (simp add: f mm Let_def args del: One_nat_def not_None_eq split: option.splits)
qed

lemma execve_or_shebang_attempt:
  assumes "args \<noteq> []"
  shows "execve_or_shebang execve file (child_argv args) envp =
    (case attempt execve file args envp of
       Inr (f, as) \<Rightarrow> Executed f as
     | Inl e \<Rightarrow> Returned e (child_argv args))"
  by (simp add: execve_or_shebang_def attempt_def execve_without_shebang_child[OF assms]
      split: option.splits)

section \<open>mpp\_execvpe\<close>

abbreviation PATH_MAX :: nat where "PATH_MAX \<equiv> 4096"

abbreviation slash :: char where "slash \<equiv> CHR ''/''"

text \<open>The string that the loop body leaves in \<open>absolute_path\<close>.\<close>

definition absolute_path :: "string \<Rightarrow> string \<Rightarrow> string" where
  "absolute_path dir file = (if last dir \<noteq> slash then dir @ [slash] else dir) @ file"

definition search_on :: "int \<Rightarrow> bool" where
  "search_on e \<longleftrightarrow> e \<in> {EACCES, ENOENT, ENOTDIR, ELOOP, ESTALE, ENODEV, ETIMEDOUT}"

text \<open>
  The loop over the directories.  \<open>errno\<close> is the current value of the global variable.
\<close>

fun search_path ::
  "execve \<Rightarrow> string \<Rightarrow> string list \<Rightarrow> string list \<Rightarrow> int \<Rightarrow> int \<Rightarrow> string option list \<Rightarrow> exec_out" where
  "search_path execve file envp [] errno sticky argv =
     Returned (if sticky \<noteq> 0 then sticky else errno) argv"
| "search_path execve file envp (dir # dirs) errno sticky argv =
     (if length file + length dir + 2 \<ge> PATH_MAX
      then search_path execve file envp dirs ENAMETOOLONG sticky argv
      else case execve_or_shebang execve (absolute_path dir file) argv envp of
             Returned e argv' \<Rightarrow>
               if e = EACCES then search_path execve file envp dirs e e argv'
               else if search_on e then search_path execve file envp dirs e sticky argv'
               else Returned e argv'
           | out \<Rightarrow> out)"

text \<open>
  \<open>execvp\<close> is the C library's, used when the environment is inherited unchanged;
  \<open>errno0\<close> is the value of \<open>errno\<close> at the call.
\<close>

definition mpp_execvpe ::
  "execve \<Rightarrow> (string \<Rightarrow> string list \<Rightarrow> int option) \<Rightarrow> bool \<Rightarrow> string list \<Rightarrow> int \<Rightarrow>
   string \<Rightarrow> string option list \<Rightarrow> string list option \<Rightarrow> exec_out" where
  "mpp_execvpe execve execvp malloc_ok environ errno0 file argv envp =
     (case envp of
        None \<Rightarrow> (case execvp file (argv_list argv) of
                   None \<Rightarrow> Executed file (argv_list argv)
                 | Some e \<Rightarrow> Returned e argv)
      | Some envp \<Rightarrow>
          if file = [] then Returned ENOENT argv
          else if slash \<in> set file then execve_or_shebang execve file argv envp
          else case effective_pathv malloc_ok (get_path_env environ) of
                 None \<Rightarrow> Returned ENOMEM argv
               | Some pathv \<Rightarrow> search_path execve file envp pathv errno0 0 argv)"

section \<open>The search as a specification\<close>

text \<open>
  Each directory of the path gives one try: the name is too long for the buffer, or the
  candidate is attempted.  The first try that runs a program, or that fails with an error
  that does not mean ``look further'', decides.  When none decides, the error is
  \<open>EACCES\<close> if any candidate was found but not permitted, and else the last one.
\<close>

definition dir_try ::
  "execve \<Rightarrow> string \<Rightarrow> string list \<Rightarrow> string list \<Rightarrow> string \<Rightarrow> (int + string \<times> string list) option" where
  "dir_try execve file args envp dir =
     (if length file + length dir + 2 \<ge> PATH_MAX then None
      else Some (attempt execve (absolute_path dir file) args envp))"

fun decides :: "(int + string \<times> string list) option \<Rightarrow> bool" where
  "decides None = False"
| "decides (Some (Inr p)) = True"
| "decides (Some (Inl e)) = (\<not> search_on e)"

fun try_errno :: "(int + string \<times> string list) option \<Rightarrow> int" where
  "try_errno None = ENAMETOOLONG"
| "try_errno (Some (Inl e)) = e"
| "try_errno (Some (Inr p)) = 0"

definition search_spec ::
  "execve \<Rightarrow> string \<Rightarrow> string list \<Rightarrow> string list \<Rightarrow> string list \<Rightarrow> int \<Rightarrow> int + string \<times> string list" where
  "search_spec execve file args envp dirs errno =
     (let tries = map (dir_try execve file args envp) dirs
      in case find decides tries of
           Some (Some t) \<Rightarrow> t
         | _ \<Rightarrow> Inl (if Some (Inl EACCES) \<in> set tries then EACCES
                   else last (errno # map try_errno tries)))"

definition out_of :: "string option list \<Rightarrow> int + string \<times> string list \<Rightarrow> exec_out" where
  "out_of argv t = (case t of Inr (f, as) \<Rightarrow> Executed f as | Inl e \<Rightarrow> Returned e argv)"

lemma search_path_sticky:
  assumes "args \<noteq> []"
  shows "search_path execve file envp dirs errno sticky (child_argv args) =
    out_of (child_argv args)
      (let tries = map (dir_try execve file args envp) dirs
       in case find decides tries of
            Some (Some t) \<Rightarrow> t
          | _ \<Rightarrow> Inl (if Some (Inl EACCES) \<in> set tries then EACCES
                    else if sticky \<noteq> 0 then sticky
                    else last (errno # map try_errno tries)))"
proof (induction dirs arbitrary: errno sticky)
  case Nil
  then show ?case by (simp add: out_of_def)
next
  case (Cons dir dirs)
  show ?case
  proof (cases "length file + length dir + 2 \<ge> PATH_MAX")
    case True
    then have d: "dir_try execve file args envp dir = None" by (simp add: dir_try_def)
    from True show ?thesis by (simp add: Cons.IH d Let_def split: option.split)
  next
    case False
    then have d: "dir_try execve file args envp dir = Some (attempt execve (absolute_path dir file) args envp)"
      by (simp add: dir_try_def)
    show ?thesis
    proof (cases "attempt execve (absolute_path dir file) args envp")
      case (Inr p)
      with False d show ?thesis
        by (cases p) (simp add: execve_or_shebang_attempt[OF assms] out_of_def Let_def)
    next
      case (Inl e)
      with False d show ?thesis
        by (simp add: execve_or_shebang_attempt[OF assms] Cons.IH out_of_def Let_def search_on_def
            split: option.split)
    qed
  qed
qed

lemma search_path_spec:
  assumes "args \<noteq> []"
  shows "search_path execve file envp dirs errno 0 (child_argv args) =
    out_of (child_argv args) (search_spec execve file args envp dirs errno)"
  by (simp add: search_path_sticky[OF assms] search_spec_def Let_def)

lemma attempt_out_of:
  assumes "args \<noteq> []"
  shows "execve_or_shebang execve file (child_argv args) envp =
    out_of (child_argv args) (attempt execve file args envp)"
  by (simp add: execve_or_shebang_attempt[OF assms] out_of_def)

text \<open>The candidate and its NUL fit the array \<open>absolute_path[PATH_MAX]\<close>.\<close>

lemma absolute_path_fits:
  "\<not> length file + length dir + 2 \<ge> PATH_MAX \<Longrightarrow> length (absolute_path dir file) + 1 \<le> PATH_MAX"
  by (simp add: absolute_path_def)

text \<open>The whole search, for both kinds of environment.\<close>

definition exec_spec ::
  "execve \<Rightarrow> (string \<Rightarrow> string list \<Rightarrow> int option) \<Rightarrow> bool \<Rightarrow> string list \<Rightarrow> int \<Rightarrow>
   string \<Rightarrow> string list \<Rightarrow> string list option \<Rightarrow> int + string \<times> string list" where
  "exec_spec execve execvp malloc_ok environ errno0 file args envp =
     (case envp of
        None \<Rightarrow> (case execvp file args of None \<Rightarrow> Inr (file, args) | Some e \<Rightarrow> Inl e)
      | Some block \<Rightarrow>
          if file = [] then Inl ENOENT
          else if slash \<in> set file then attempt execve file args block
          else if \<not> malloc_ok then Inl ENOMEM
          else search_spec execve file args block
                 (map dot_empty (split_colon (get_path_env environ))) errno0)"

lemma mpp_execvpe_exec_spec:
  assumes "args \<noteq> []"
  shows "mpp_execvpe execve execvp malloc_ok environ errno0 file (child_argv args) envp =
    out_of (child_argv args) (exec_spec execve execvp malloc_ok environ errno0 file args envp)"
proof (cases envp)
  case None
  then show ?thesis by (simp add: mpp_execvpe_def exec_spec_def out_of_def split: option.splits)
next
  case (Some block)
  have "effective_pathv True (get_path_env environ) =
      Some (map dot_empty (split_colon (get_path_env environ)))"
    using pathv_loop_split[of "get_path_env environ"] by (simp add: effective_pathv_def Let_def)
  moreover have "effective_pathv False (get_path_env environ) = None"
    by (simp add: effective_pathv_def Let_def)
  ultimately show ?thesis
    using Some attempt_out_of[OF assms] search_path_spec[OF assms]
    by (cases malloc_ok) (simp_all add: mpp_execvpe_def exec_spec_def, simp_all add: out_of_def)
qed

section \<open>Properties\<close>

text \<open>
  \<open>effective_pathv\<close> is the list of the pieces of the path between its colons, with
  an empty piece replaced by the current directory: the pieces contain no colon, and
  putting the colons back gives the path again.  It is the null pointer exactly when the
  allocation fails.
\<close>

theorem effective_pathv_splits:
  "effective_pathv malloc_ok path =
     (if malloc_ok then Some (map dot_empty (split_colon path)) else None)
   \<and> join_colon (split_colon path) = path
   \<and> colon \<notin> \<Union> (set ` set (split_colon path))"
  using pathv_loop_split[of path]
  by (auto simp: effective_pathv_def Let_def join_split_colon dest: split_colon_pieces)

text \<open>
  C18.  The program search: on the argument array of the child, \<open>mpp_execvpe\<close> with an own
  environment never leaves the array, gives it back unchanged when it returns, and its
  outcome is that of the specified search: a name with a slash is attempted itself; any
  other name is looked up in the directories of the parent's \<open>PATH\<close> in order, the first
  try that runs a program or fails for a reason other than ``not there'' decides, and
  \<open>EACCES\<close> is remembered.
\<close>

theorem mpp_execvpe_spec:
  assumes "args \<noteq> []"
  shows "mpp_execvpe execve execvp True environ errno0 file (child_argv args) (Some envp) =
    out_of (child_argv args)
      (if file = [] then Inl ENOENT
       else if slash \<in> set file then attempt execve file args envp
       else search_spec execve file args envp
              (map dot_empty (split_colon (get_path_env environ))) errno0)"
  by (simp add: mpp_execvpe_exec_spec[OF assms] exec_spec_def)

definition demo_execve :: execve where
  "demo_execve file args envp =
     (if file = ''/bin/tool'' then Some EACCES
      else if file = ''/usr/bin/tool'' then Some ENOEXEC
      else if file = ''/bin/sh'' then None else Some ENOENT)"

theorem mpp_execvpe_spec_witness:
  "mpp_execvpe demo_execve (\<lambda>_ _. None) True [] 0 ''tool'' (child_argv [''tool'', ''-v'']) (Some [])
     = Executed ''/bin/sh'' [''/bin/sh'', ''/usr/bin/tool'', ''-v'']"
proof -
  have "[''tool'', ''-v''] \<noteq> []" by simp
  from mpp_execvpe_spec[OF this, of demo_execve "\<lambda>_ _. None" "[]" 0 "''tool''" "[]"]
  show ?thesis
    by (simp add: out_of_def get_path_env_def default_path_env_def search_spec_def dir_try_def
        attempt_def absolute_path_def demo_execve_def dot_empty_def search_on_def)
qed

end
