(* ===== verification/Fail_Pipe.thy ===== *)
theory Fail_Pipe
  imports Byte_Io
begin

text \<open>
  The pipe on which the child reports why it could not execute the program
  (\<open>src/process_unix.cpp\<close>): \<open>read_fully\<close> on the parent's side,
  \<open>restartable_write_error\<close> on the child's, and the four bytes of the \<open>int\<close> that
  travel between them.
\<close>

section \<open>read\_fully\<close>

text \<open>
  \<open>acc\<close> is the part of the caller's buffer that has been filled; the loop's pointer is
  its length.  The result is the returned count (or \<open>-1\<close>) and the filled buffer.
\<close>

partial_function (option) read_fully ::
  "('w, 'b) reader \<Rightarrow> nat \<Rightarrow> nat \<Rightarrow> 'b list \<Rightarrow> 'w \<Rightarrow> (int \<times> 'b list \<times> 'w) option" where
  "read_fully rd nbyte remaining acc w =
     (case rd w remaining of
        (Got bs, w') \<Rightarrow>
          (if length bs = 0 then Some (int nbyte - int remaining, acc, w')
           else if int remaining - int (length bs) \<le> 0 then Some (int nbyte, acc @ bs, w')
           else read_fully rd nbyte (remaining - length bs) (acc @ bs) w')
      | (Fail e, w') \<Rightarrow>
          (if e = EINTR then read_fully rd nbyte remaining acc w'
           else Some (-1, acc, w')))"

context byte_source
begin

lemma read_fully_spec:
  assumes "length acc + remaining = nbyte" and "0 < remaining"
  shows "\<exists>w'. read_fully rd nbyte remaining acc w =
           Some (int (length (acc @ take remaining (pending w))), acc @ take remaining (pending w), w')
         \<and> pending w' = drop remaining (pending w)"
  using assms
proof (induction "(remaining, intr w)" arbitrary: remaining acc w rule: less_induct)
  case less
  obtain r w1 where rd1: "rd w remaining = (r, w1)" by fastforce
  show ?case
  proof (cases r)
    case (Got bs)
    note g = rd_got[OF rd1[unfolded Got]]
    show ?thesis
    proof (cases "bs = []")
      case True
      with rd_eof[OF less.prems(2)] rd1 Got have "pending w = []" by simp
      with True g rd1 Got less.prems show ?thesis
        by (subst read_fully.simps) auto
    next
      case False
      note ne = this
      show ?thesis
      proof (cases "length bs = remaining")
        case True
        with ne rd1 Got g less.prems show ?thesis
          by (subst read_fully.simps) auto
      next
        case False
        with g have lt: "length bs < remaining" by simp
        have "(remaining - length bs, intr w1) < (remaining, intr w)"
          using ne lt by (cases bs) (auto simp: less_prod_def)
        from less.hyps[OF this, of "acc @ bs"] obtain w' where
          "read_fully rd nbyte (remaining - length bs) (acc @ bs) w1 =
             Some (int (length ((acc @ bs) @ take (remaining - length bs) (pending w1))),
                   (acc @ bs) @ take (remaining - length bs) (pending w1), w')"
          "pending w' = drop (remaining - length bs) (pending w1)"
          using lt less.prems by auto
        with ne lt rd1 Got g show ?thesis
          by (subst read_fully.simps) (auto simp: take_append drop_append)
      qed
    qed
  next
    case (Fail e)
    note f = rd_fail[OF rd1[unfolded Fail]]
    have "(remaining, intr w1) < (remaining, intr w)"
      using f by (simp add: less_prod_def)
    from less.hyps[OF this less.prems] f rd1 Fail show ?thesis
      by (subst read_fully.simps) auto
  qed
qed

lemma read_fully_all:
  assumes "0 < nbyte"
  shows "\<exists>w'. read_fully rd nbyte nbyte [] w =
           Some (int (length (take nbyte (pending w))), take nbyte (pending w), w')
         \<and> pending w' = drop nbyte (pending w)"
  using read_fully_spec[of "[]" nbyte nbyte w] assms by simp

end

section \<open>restartable\_write\_error\<close>

text \<open>
  The bytes of a 32-bit \<open>int\<close> in memory, on a little-endian machine, and the value
  those bytes have.
\<close>

definition int_bytes :: "32 word \<Rightarrow> 8 word list" where
  "int_bytes n = map (\<lambda>i. word_of_nat (unat n div 256 ^ i mod 256)) [0, 1, 2, 3]"

definition int_of_bytes :: "8 word list \<Rightarrow> 32 word" where
  "int_of_bytes bs = word_of_nat (foldr (\<lambda>b n. unat b + 256 * n) bs 0)"

lemma base_256:
  fixes x :: nat
  assumes "x < 256 ^ 4"
  shows "x mod 256 + 256 * (x div 256 mod 256 + 256 * (x div 256 ^ 2 mod 256 + 256 * (x div 256 ^ 3 mod 256))) = x"
proof -
  define a b c where "a = x div 256" and "b = a div 256" and "c = b div 256"
  have d: "x div 256 ^ 2 = b" "x div 256 ^ 3 = c"
    by (simp_all add: a_def b_def c_def power2_eq_square power3_eq_cube div_mult2_eq [symmetric])
  have "c < 256" using assms by (simp add: a_def b_def c_def div_mult2_eq [symmetric] less_mult_imp_div_less)
  then have c: "c mod 256 = c" by simp
  have "x = x mod 256 + 256 * a" "a = a mod 256 + 256 * b" "b = b mod 256 + 256 * c"
    by (simp_all add: a_def b_def c_def)
  then show ?thesis unfolding d a_def [symmetric] c by metis
qed

lemma foldr_bytes:
  fixes x :: nat
  shows "foldr (\<lambda>b n. unat b + 256 * n)
      (map (\<lambda>i. word_of_nat (x div 256 ^ i mod 256) :: 8 word) [0, 1, 2, 3]) 0 =
    x mod 256 + 256 * (x div 256 mod 256 + 256 * (x div 256 ^ 2 mod 256 + 256 * (x div 256 ^ 3 mod 256)))"
proof -
  have "unat (word_of_nat (m mod 256) :: 8 word) = m mod 256" for m :: nat
    by (simp add: unat_of_nat)
  then show ?thesis by simp
qed

lemma int_of_bytes_int_bytes [simp]: "int_of_bytes (int_bytes n) = n"
proof -
  have "unat n < 256 ^ 4" using unsigned_less[of n, where ?'a=nat] by simp
  then have "foldr (\<lambda>b n. unat b + 256 * n) (int_bytes n) 0 = unat n"
    unfolding int_bytes_def foldr_bytes by (rule base_256)
  then show ?thesis by (simp add: int_of_bytes_def)
qed

lemma length_int_bytes [simp]: "length (int_bytes n) = 4"
  by (simp add: int_bytes_def)

partial_function (option) restartable_write_error ::
  "('w, 8 word) writer \<Rightarrow> 32 word \<Rightarrow> 'w \<Rightarrow> 'w option" where
  "restartable_write_error wr errnum w =
     (case wr w (int_bytes errnum) of
        (Wfail e, w') \<Rightarrow>
          (if e = EINTR then restartable_write_error wr errnum w' else Some w')
      | (Wrote n, w') \<Rightarrow> Some w')"

text \<open>
  The loop always ends; what reaches the pipe is a prefix of the four bytes, written
  once.
\<close>

locale errno_sink = byte_sink wr sunk wintr
  for wr :: "('w, 8 word) writer" and sunk :: "'w \<Rightarrow> 8 word list" and wintr :: "'w \<Rightarrow> nat"
begin

lemma restartable_write_error_prefix:
  "\<exists>w' n. restartable_write_error wr errnum w = Some w' \<and>
     sunk w' = sunk w @ take n (int_bytes errnum)"
proof (induction "wintr w" arbitrary: w rule: less_induct)
  case less
  obtain r w1 where wr1: "wr w (int_bytes errnum) = (r, w1)" by fastforce
  show ?case
  proof (cases r)
    case (Wrote n)
    with wr_ok[OF wr1[unfolded Wrote]] wr1 show ?thesis
      by (subst restartable_write_error.simps) auto
  next
    case (Wfail e)
    note f = wr_fail[OF wr1[unfolded Wfail]]
    show ?thesis
    proof (cases "e = EINTR")
      case True
      with f less.hyps[of w1] wr1 Wfail show ?thesis
        by (subst restartable_write_error.simps) auto
    next
      case False
      with f wr1 Wfail have "restartable_write_error wr errnum w = Some w1"
        by (subst restartable_write_error.simps) auto
      moreover have "sunk w1 = sunk w @ take 0 (int_bytes errnum)" using f by simp
      ultimately show ?thesis by blast
    qed
  qed
qed

end

declare read_fully.simps [code] restartable_write_error.simps [code]

interpretation errno_pipe: errno_sink pipe_write fst wpipe_intr
  by unfold_locales

end
