(* ===== verification/Child_Proc.thy ===== *)
theory Child_Proc
  imports Exec_Path Fail_Pipe
begin

text \<open>
  The child between \<open>fork\<close> and \<open>execve\<close> (\<open>close_all_descriptors\<close>,
  \<open>exit_with_error\<close> and \<open>child_proc\<close> of \<open>src/process_unix.cpp\<close>): the standard
  descriptors are put in place, everything else is closed except the pipe on which a
  failure is reported, and the program is executed.
\<close>

section \<open>close\_all\_descriptors\<close>

datatype unix = Linux | Darwin | Other_unix

text \<open>
  What the system answers: the names in \<open>/dev/fd\<close> with the descriptor of the directory
  (\<open>None\<close>: \<open>opendir\<close> failed), whether \<open>close_range\<close> succeeds on a range, and the
  value of \<open>sysconf(_SC_OPEN_MAX)\<close>.
\<close>

record cad_env =
  dev_fd :: "(string list \<times> int) option"
  close_range_ok :: "int \<Rightarrow> int \<Rightarrow> bool"
  open_max :: int

abbreviation UINT_MAX :: int where "UINT_MAX \<equiv> 4294967295"

fun close_listed :: "string list \<Rightarrow> int \<Rightarrow> int \<Rightarrow> int \<Rightarrow> fdtab \<Rightarrow> fdtab" where
  "close_listed [] from_fd fail_fd dir_fd tab = tab"
| "close_listed (name # names) from_fd fail_fd dir_fd tab =
     close_listed names from_fd fail_fd dir_fd
       (case strtol_full name of
          None \<Rightarrow> tab
        | Some n \<Rightarrow>
            let fd = to_int32 n
            in if fd \<ge> from_fd \<and> fd \<noteq> fail_fd \<and> fd \<noteq> dir_fd then sys_close fd tab else tab)"

definition fd_limit :: "int \<Rightarrow> int" where
  "fd_limit sysconf_max =
     (let max_fd = to_int32 sysconf_max
      in if max_fd < 0 then 1024 else if max_fd > 65536 then 65536 else max_fd)"

definition close_each :: "int \<Rightarrow> int \<Rightarrow> int \<Rightarrow> fdtab \<Rightarrow> fdtab" where
  "close_each from_fd fail_fd max_fd tab =
     foldl (\<lambda>t fd. if fd = fail_fd then t else sys_close fd t) tab [from_fd..max_fd - 1]"

definition close_ranges :: "cad_env \<Rightarrow> int \<Rightarrow> int \<Rightarrow> fdtab \<Rightarrow> bool \<times> fdtab" where
  "close_ranges env from_fd fail_fd tab =
     (if fail_fd < from_fd then
        (if close_range_ok env from_fd UINT_MAX
         then (True, sys_close_range from_fd UINT_MAX tab) else (False, tab))
      else
        let (range_ok, tab1) =
              (if from_fd < fail_fd then
                 (if close_range_ok env from_fd (fail_fd - 1)
                  then (True, sys_close_range from_fd (fail_fd - 1) tab) else (False, tab))
               else (True, tab))
        in if range_ok \<and> close_range_ok env (fail_fd + 1) UINT_MAX
           then (True, sys_close_range (fail_fd + 1) UINT_MAX tab1) else (False, tab1))"

definition close_all_descriptors :: "unix \<Rightarrow> cad_env \<Rightarrow> int \<Rightarrow> int \<Rightarrow> fdtab \<Rightarrow> fdtab" where
  "close_all_descriptors pf env from_fd fail_fd tab =
     (let fallback = close_each from_fd fail_fd (fd_limit (open_max env))
      in case pf of
           Darwin \<Rightarrow>
             (case dev_fd env of
                Some (names, dir_fd) \<Rightarrow>
                  sys_close dir_fd (close_listed names from_fd fail_fd dir_fd tab)
              | None \<Rightarrow> fallback tab)
         | Linux \<Rightarrow>
             (case close_ranges env from_fd fail_fd tab of
                (True, tab') \<Rightarrow> tab'
              | (False, tab') \<Rightarrow> fallback tab')
         | Other_unix \<Rightarrow> fallback tab)"

lemma close_each_eq:
  "close_each from_fd fail_fd max_fd tab =
     (\<lambda>fd. if from_fd \<le> fd \<and> fd < max_fd \<and> fd \<noteq> fail_fd then None else tab fd)"
proof -
  have "foldl (\<lambda>t fd. if fd = fail_fd then t else sys_close fd t) tab xs =
      (\<lambda>fd. if fd \<in> set xs \<and> fd \<noteq> fail_fd then None else tab fd)" for xs
    by (induction xs arbitrary: tab) (auto simp: sys_close_def fun_eq_iff)
  then show ?thesis by (auto simp: close_each_def fun_eq_iff)
qed

lemma close_listed_eq:
  "close_listed names from_fd fail_fd dir_fd tab =
     (\<lambda>fd. if from_fd \<le> fd \<and> fd \<noteq> fail_fd \<and> fd \<noteq> dir_fd
             \<and> (\<exists>name \<in> set names. \<exists>n. strtol_full name = Some n \<and> fd = to_int32 n)
           then None else tab fd)"
  by (induction names from_fd fail_fd dir_fd tab rule: close_listed.induct)
    (auto simp: fun_eq_iff sys_close_def Let_def split: option.splits)

text \<open>
  The range calls close the descriptors from \<open>from_fd\<close> on, all but \<open>fail_fd\<close>, or leave
  a part of that to the fallback loop; they touch nothing else.
\<close>

lemma close_ranges_True:
  "close_ranges env from_fd fail_fd tab = (True, tab') \<Longrightarrow>
   tab' fd = (if from_fd \<le> fd \<and> fd \<le> UINT_MAX \<and> fd \<noteq> fail_fd \<or>
                 (fail_fd > UINT_MAX \<and> from_fd \<le> fd \<and> fd < fail_fd) then None else tab fd)"
  by (auto simp: close_ranges_def sys_close_range_def Let_def split: if_splits prod.splits)

lemma close_ranges_False:
  "close_ranges env from_fd fail_fd tab = (False, tab') \<Longrightarrow>
   tab' fd = tab fd \<or> (tab' fd = None \<and> from_fd \<le> fd \<and> fd \<noteq> fail_fd)"
  by (auto simp: close_ranges_def sys_close_range_def Let_def split: if_splits prod.splits)

text \<open>The names that \<open>/dev/fd\<close> lists cover the open descriptors.\<close>

definition lists_open :: "cad_env \<Rightarrow> int \<Rightarrow> fdtab \<Rightarrow> bool" where
  "lists_open env from_fd tab \<longleftrightarrow>
     (case dev_fd env of
        None \<Rightarrow> True
      | Some (names, dir_fd) \<Rightarrow>
          (\<forall>fd. from_fd \<le> fd \<and> tab fd \<noteq> None \<longrightarrow> fd \<noteq> dir_fd \<and> in_int32 fd \<and>
             (\<exists>name \<in> set names. strtol_full name = Some fd)))"

lemma close_all_descriptors_eq:
  assumes lim: "\<forall>fd. from_fd \<le> fd \<and> tab fd \<noteq> None \<longrightarrow> fd < fd_limit (open_max env)"
    and lo: "lists_open env from_fd tab"
    and dir: "\<forall>names dir_fd. dev_fd env = Some (names, dir_fd) \<longrightarrow> from_fd \<le> dir_fd \<and> dir_fd \<noteq> fail_fd"
  shows "close_all_descriptors pf env from_fd fail_fd tab =
    (\<lambda>fd. if from_fd \<le> fd \<and> fd \<noteq> fail_fd then None else tab fd)"
proof -
  have l: "fd_limit (open_max env) \<le> 65536" by (simp add: fd_limit_def Let_def)
  have fb: "close_each from_fd fail_fd (fd_limit (open_max env)) t =
      (\<lambda>fd. if from_fd \<le> fd \<and> fd \<noteq> fail_fd then None else tab fd)"
    if "\<And>fd. t fd = tab fd \<or> (t fd = None \<and> from_fd \<le> fd \<and> fd \<noteq> fail_fd)" for t
    unfolding close_each_eq using that lim by (auto simp: fun_eq_iff) (metis not_None_eq)
  show ?thesis
  proof (cases pf)
    case Linux
    obtain ok t where c: "close_ranges env from_fd fail_fd tab = (ok, t)" by fastforce
    show ?thesis
    proof (cases ok)
      case True
      have "t fd = (if from_fd \<le> fd \<and> fd \<noteq> fail_fd then None else tab fd)" for fd
      proof (cases "tab fd")
        case None
        then show ?thesis using close_ranges_True[of env from_fd fail_fd tab t] c True by simp
      next
        case (Some e)
        with lim l have "from_fd \<le> fd \<Longrightarrow> fd \<le> UINT_MAX" by force
        then show ?thesis using close_ranges_True[of env from_fd fail_fd tab t] c True by auto
      qed
      with c True Linux show ?thesis by (simp add: close_all_descriptors_def fun_eq_iff)
    next
      case False
      with c Linux fb[of t] close_ranges_False[of env from_fd fail_fd tab t] show ?thesis
        by (simp add: close_all_descriptors_def)
    qed
  next
    case Darwin
    show ?thesis
    proof (cases "dev_fd env")
      case None
      with Darwin fb[of tab] show ?thesis by (simp add: close_all_descriptors_def)
    next
      case (Some nd)
      obtain names dir_fd where nd: "nd = (names, dir_fd)" by fastforce
      have op: "fd \<noteq> dir_fd \<and> (\<exists>name \<in> set names. \<exists>n. strtol_full name = Some n \<and> fd = to_int32 n)"
        if "from_fd \<le> fd" "tab fd \<noteq> None" for fd
        using lo Some nd that by (force simp: lists_open_def)
      have "from_fd \<le> dir_fd" "dir_fd \<noteq> fail_fd" using dir Some nd by auto
      have "sys_close dir_fd (close_listed names from_fd fail_fd dir_fd tab) fd =
          (if from_fd \<le> fd \<and> fd \<noteq> fail_fd then None else tab fd)" for fd
        using op[of fd] \<open>from_fd \<le> dir_fd\<close> \<open>dir_fd \<noteq> fail_fd\<close>
        by (cases "tab fd") (auto simp: sys_close_def close_listed_eq)
      with Darwin Some nd show ?thesis by (simp add: close_all_descriptors_def fun_eq_iff)
    qed
  next
    case Other_unix
    with fb[of tab] show ?thesis by (simp add: close_all_descriptors_def)
  qed
qed

section \<open>child\_proc\<close>

text \<open>
  The standard streams: closing the parent's pipe ends, \<open>dup2\<close> onto the three standard
  descriptors, closing the originals.  The arrays are the child's copies; the code resets
  an entry that it closes.
\<close>

definition close_read :: "fds \<times> fdtab \<Rightarrow> fds \<times> fdtab" where
  "close_read pt = (case pt of (p, tab) \<Rightarrow>
     (case close_fd (pread p) tab of (fd, tab') \<Rightarrow> (p\<lparr>pread := fd\<rparr>, tab')))"

definition close_write :: "fds \<times> fdtab \<Rightarrow> fds \<times> fdtab" where
  "close_write pt = (case pt of (p, tab) \<Rightarrow>
     (case close_fd (pwrite p) tab of (fd, tab') \<Rightarrow> (p\<lparr>pwrite := fd\<rparr>, tab')))"

abbreviation STDIN_FILENO :: int where "STDIN_FILENO \<equiv> 0"
abbreviation STDOUT_FILENO :: int where "STDOUT_FILENO \<equiv> 1"
abbreviation STDERR_FILENO :: int where "STDERR_FILENO \<equiv> 2"

definition child_stdin_stdout ::
  "process_startup \<Rightarrow> fds \<Rightarrow> fds \<Rightarrow> fdtab \<Rightarrow> fds \<times> fds \<times> fdtab" where
  "child_stdin_stdout startup pstdin pstdout tab0 =
     (let (pstdin, tab) =
            (if \<not> st_inherit_stdin startup \<and> \<not> redirected (st_stdin startup)
             then close_write (pstdin, tab0) else (pstdin, tab0));
          (pstdout, tab) =
            (if \<not> st_inherit_stdout startup \<and> \<not> redirected (st_stdout startup)
             then close_read (pstdout, tab) else (pstdout, tab));
          tab = (if \<not> st_inherit_stdin startup
                 then sys_dup2 (pread pstdin) STDIN_FILENO tab else tab);
          tab = (if \<not> st_inherit_stdout startup
                 then sys_dup2 (pwrite pstdout) STDOUT_FILENO tab else tab)
      in (pstdin, pstdout, tab))"

definition child_stderr :: "process_startup \<Rightarrow> fds \<Rightarrow> fdtab \<Rightarrow> fds \<times> fdtab" where
  "child_stderr startup pstderr tab =
     (if st_merge_outputs startup
      then (pstderr, sys_dup2 STDOUT_FILENO STDERR_FILENO tab)
      else if \<not> st_inherit_stderr startup then
        (let (pstderr, tab) =
               (if \<not> redirected (st_stderr startup)
                then close_read (pstderr, tab) else (pstderr, tab))
         in (pstderr, sys_dup2 (pwrite pstderr) STDERR_FILENO tab))
      else (pstderr, tab))"

definition child_close_sources :: "process_startup \<Rightarrow> fds \<Rightarrow> fds \<Rightarrow> fds \<Rightarrow> fdtab \<Rightarrow> fdtab" where
  "child_close_sources startup pstdin pstdout pstderr tab =
     (let tab = (if \<not> st_inherit_stdin startup then snd (close_read (pstdin, tab)) else tab);
          tab = (if \<not> st_inherit_stdout startup then snd (close_write (pstdout, tab)) else tab)
      in if \<not> st_inherit_stderr startup \<and> \<not> st_merge_outputs startup
         then snd (close_write (pstderr, tab)) else tab)"

definition child_streams ::
  "process_startup \<Rightarrow> fds \<Rightarrow> fds \<Rightarrow> fds \<Rightarrow> fdtab \<Rightarrow> fdtab" where
  "child_streams startup pstdin pstdout pstderr tab0 =
     (let (pstdin, pstdout, tab) = child_stdin_stdout startup pstdin pstdout tab0;
          (pstderr, tab) = child_stderr startup pstderr tab
      in child_close_sources startup pstdin pstdout pstderr tab)"

text \<open>
  What the system answers the child: failures of \<open>chdir\<close> and \<open>fcntl\<close> (with their
  \<open>errno\<close>), \<open>execve\<close> and \<open>execvp\<close>, the success of \<open>malloc\<close>, the
  environment, and the course of the writes to the failure pipe.
\<close>

record child_env =
  ce_cad :: cad_env
  ce_chdir :: "string \<Rightarrow> int option"
  ce_fcntl :: "int option"
  ce_execve :: execve
  ce_execvp :: "string \<Rightarrow> string list \<Rightarrow> int option"
  ce_malloc_ok :: bool
  ce_environ :: "string list"
  ce_errno :: int
  ce_writes :: "(int + nat) list"

text \<open>
  The end of the child: a program with its arguments, environment and descriptors, or
  \<open>_exit(-1)\<close> after some bytes went into the failure pipe, or an access out of bounds.
\<close>

datatype child_outcome =
    Child_exec string "string list" "string list" fdtab
  | Child_failed "8 word list"
  | Child_undefined

definition exit_with_error :: "child_env \<Rightarrow> int \<Rightarrow> child_outcome" where
  "exit_with_error env errno =
     (case restartable_write_error pipe_write (word_of_int errno) ([], ce_writes env) of
        Some (sent, _) \<Rightarrow> Child_failed sent
      | None \<Rightarrow> Child_undefined)"

definition child_proc ::
  "unix \<Rightarrow> child_env \<Rightarrow> process_startup \<Rightarrow> fds \<Rightarrow> fds \<Rightarrow> fds \<Rightarrow> fds \<Rightarrow> string list option \<Rightarrow>
   fdtab \<Rightarrow> child_outcome" where
  "child_proc pf env startup pstdin pstdout pstderr pfail envp tab0 =
     (let (pfail, tab) = close_read (pfail, tab0);
          fail_fd = pwrite pfail;
          tab = child_streams startup pstdin pstdout pstderr tab;
          argv = child_argv (st_cmdline startup);
          tab = close_all_descriptors pf (ce_cad env) (STDERR_FILENO + 1) fail_fd tab
      in case ce_chdir env (st_cwd startup) of
           Some e \<Rightarrow> exit_with_error env e
         | None \<Rightarrow>
             (case ce_fcntl env of
                Some e \<Rightarrow> exit_with_error env e
              | None \<Rightarrow>
                  (let tab = sys_set_cloexec fail_fd tab
                   in case argv ! 0 of
                        None \<Rightarrow> Child_undefined
                      | Some file \<Rightarrow>
                          (case mpp_execvpe (ce_execve env) (ce_execvp env) (ce_malloc_ok env)
                                  (ce_environ env) (ce_errno env) file argv envp of
                             Executed prog args \<Rightarrow>
                               Child_exec prog args
                                 (case envp of None \<Rightarrow> ce_environ env | Some block \<Rightarrow> block)
                                 (sys_exec_close tab)
                           | Returned e _ \<Rightarrow> exit_with_error env e
                           | Out_of_bounds \<Rightarrow> Child_undefined))))"

section \<open>The descriptors of the new program\<close>

text \<open>
  The descriptors that the child closes before it duplicates, and those it duplicates
  from.  The code works when none of them is a standard descriptor, no source is closed
  early, and the failure pipe is neither.
\<close>

definition early_closed :: "process_startup \<Rightarrow> fds \<Rightarrow> fds \<Rightarrow> fds \<Rightarrow> int set" where
  "early_closed startup pstdin pstdout pstderr =
     (if \<not> st_inherit_stdin startup \<and> \<not> redirected (st_stdin startup) then {pwrite pstdin} else {}) \<union>
     (if \<not> st_inherit_stdout startup \<and> \<not> redirected (st_stdout startup) then {pread pstdout} else {}) \<union>
     (if \<not> st_merge_outputs startup \<and> \<not> st_inherit_stderr startup \<and> \<not> redirected (st_stderr startup)
      then {pread pstderr} else {})"

definition dup_sources :: "process_startup \<Rightarrow> fds \<Rightarrow> fds \<Rightarrow> fds \<Rightarrow> int set" where
  "dup_sources startup pstdin pstdout pstderr =
     (if \<not> st_inherit_stdin startup then {pread pstdin} else {}) \<union>
     (if \<not> st_inherit_stdout startup then {pwrite pstdout} else {}) \<union>
     (if \<not> st_merge_outputs startup \<and> \<not> st_inherit_stderr startup then {pwrite pstderr} else {})"

definition child_fds_ok :: "process_startup \<Rightarrow> fds \<Rightarrow> fds \<Rightarrow> fds \<Rightarrow> fdtab \<Rightarrow> bool" where
  "child_fds_ok startup pstdin pstdout pstderr tab \<longleftrightarrow>
     (\<forall>fd \<in> dup_sources startup pstdin pstdout pstderr. 3 \<le> fd \<and> tab fd \<noteq> None) \<and>
     (\<forall>fd \<in> early_closed startup pstdin pstdout pstderr. 3 \<le> fd) \<and>
     early_closed startup pstdin pstdout pstderr \<inter> dup_sources startup pstdin pstdout pstderr = {}"

definition dup_entry :: "fdtab \<Rightarrow> int \<Rightarrow> fdent option" where
  "dup_entry tab fd = map_option (\<lambda>e. e\<lparr>cloexec := False\<rparr>) (tab fd)"

definition std_entry :: "process_startup \<Rightarrow> fds \<Rightarrow> fds \<Rightarrow> fds \<Rightarrow> fdtab \<Rightarrow> int \<Rightarrow> fdent option" where
  "std_entry startup pstdin pstdout pstderr tab n =
     (let out = (if st_inherit_stdout startup then tab 1 else dup_entry tab (pwrite pstdout))
      in if n = 0 then (if st_inherit_stdin startup then tab 0 else dup_entry tab (pread pstdin))
         else if n = 1 then out
         else if n = 2 then
           (if st_merge_outputs startup
            then (case out of None \<Rightarrow> tab 2 | Some e \<Rightarrow> Some (e\<lparr>cloexec := False\<rparr>))
            else if st_inherit_stderr startup then tab 2 else dup_entry tab (pwrite pstderr))
         else None)"

lemma close_read_simp [fd_simps]:
  "pread p \<noteq> FD_INVALID \<Longrightarrow> close_read (p, tab) = (p\<lparr>pread := FD_INVALID\<rparr>, tab(pread p := None))"
  by (simp add: close_read_def fd_simps)

lemma close_write_simp [fd_simps]:
  "pwrite p \<noteq> FD_INVALID \<Longrightarrow> close_write (p, tab) = (p\<lparr>pwrite := FD_INVALID\<rparr>, tab(pwrite p := None))"
  by (simp add: close_write_def fd_simps)

lemma dup_entry_dup2:
  "tab old \<noteq> None \<Longrightarrow> old \<noteq> new \<Longrightarrow> sys_dup2 old new tab = tab(new := dup_entry tab old)"
  by (auto simp: sys_dup2_def dup_entry_def split: option.splits)

definition early_io :: "process_startup \<Rightarrow> fds \<Rightarrow> fds \<Rightarrow> int set" where
  "early_io startup pstdin pstdout =
     (if \<not> st_inherit_stdin startup \<and> \<not> redirected (st_stdin startup) then {pwrite pstdin} else {}) \<union>
     (if \<not> st_inherit_stdout startup \<and> \<not> redirected (st_stdout startup) then {pread pstdout} else {})"

definition early_err :: "process_startup \<Rightarrow> fds \<Rightarrow> int set" where
  "early_err startup pstderr =
     (if \<not> st_merge_outputs startup \<and> \<not> st_inherit_stderr startup \<and> \<not> redirected (st_stderr startup)
      then {pread pstderr} else {})"

lemma early_closed_eq:
  "early_closed startup pstdin pstdout pstderr = early_io startup pstdin pstdout \<union> early_err startup pstderr"
  by (simp add: early_closed_def early_io_def early_err_def)

text \<open>Closing before the two \<open>dup2\<close> calls, then the calls.\<close>

lemma child_stdin_stdout_spec:
  assumes E: "\<forall>fd \<in> early_io startup pstdin pstdout. 3 \<le> fd"
    and i: "\<not> st_inherit_stdin startup \<Longrightarrow> 3 \<le> pread pstdin \<and> tab (pread pstdin) \<noteq> None
              \<and> pread pstdin \<notin> early_io startup pstdin pstdout"
    and o: "\<not> st_inherit_stdout startup \<Longrightarrow> 3 \<le> pwrite pstdout \<and> tab (pwrite pstdout) \<noteq> None
              \<and> pwrite pstdout \<notin> early_io startup pstdin pstdout"
  shows "\<exists>pin pout t. child_stdin_stdout startup pstdin pstdout tab = (pin, pout, t)
    \<and> pread pin = pread pstdin \<and> pwrite pout = pwrite pstdout
    \<and> t = (\<lambda>fd. if fd = 0 \<and> \<not> st_inherit_stdin startup then dup_entry tab (pread pstdin)
                else if fd = 1 \<and> \<not> st_inherit_stdout startup then dup_entry tab (pwrite pstdout)
                else if fd \<in> early_io startup pstdin pstdout then None else tab fd)"
proof -
  obtain pin t1 where s1: "(if \<not> st_inherit_stdin startup \<and> \<not> redirected (st_stdin startup)
      then close_write (pstdin, tab) else (pstdin, tab)) = (pin, t1)" by fastforce
  obtain pout t2 where s2: "(if \<not> st_inherit_stdout startup \<and> \<not> redirected (st_stdout startup)
      then close_read (pstdout, t1) else (pstdout, t1)) = (pout, t2)" by fastforce
  have p1: "pread pin = pread pstdin" using s1 by (auto simp: close_write_def split: if_splits prod.splits)
  have p2: "pwrite pout = pwrite pstdout" using s2 by (auto simp: close_read_def split: if_splits prod.splits)
  have t1: "t1 fd = (if \<not> st_inherit_stdin startup \<and> \<not> redirected (st_stdin startup) \<and> fd = pwrite pstdin
      then None else tab fd)" for fd
    using s1 E by (auto simp: early_io_def fd_simps FD_INVALID_def split: if_splits)
  have t2': "t2 fd = (if \<not> st_inherit_stdout startup \<and> \<not> redirected (st_stdout startup) \<and> fd = pread pstdout
      then None else t1 fd)" for fd
    using s2 E by (auto simp: early_io_def fd_simps FD_INVALID_def split: if_splits)
  have t2: "t2 = (\<lambda>fd. if fd \<in> early_io startup pstdin pstdout then None else tab fd)"
    by (auto simp: t2' t1 early_io_def fun_eq_iff)
  define t3 where "t3 = (if \<not> st_inherit_stdin startup then sys_dup2 (pread pin) 0 t2 else t2)"
  have t3: "t3 = (\<lambda>fd. if fd = 0 \<and> \<not> st_inherit_stdin startup then dup_entry tab (pread pstdin) else t2 fd)"
    using i by (auto simp: t3_def p1 dup_entry_dup2 fun_eq_iff t2 dup_entry_def)
  define t4 where "t4 = (if \<not> st_inherit_stdout startup then sys_dup2 (pwrite pout) 1 t3 else t3)"
  have t4: "t4 = (\<lambda>fd. if fd = 1 \<and> \<not> st_inherit_stdout startup then dup_entry tab (pwrite pstdout) else t3 fd)"
    using o by (auto simp: t4_def p2 dup_entry_dup2 fun_eq_iff t3 t2 dup_entry_def)
  have "child_stdin_stdout startup pstdin pstdout tab = (pin, pout, t4)"
    by (simp add: child_stdin_stdout_def s1 s2 t3_def t4_def Let_def)
  moreover have "t4 = (\<lambda>fd. if fd = 0 \<and> \<not> st_inherit_stdin startup then dup_entry tab (pread pstdin)
                else if fd = 1 \<and> \<not> st_inherit_stdout startup then dup_entry tab (pwrite pstdout)
                else if fd \<in> early_io startup pstdin pstdout then None else tab fd)"
    by (auto simp: t4 t3 t2 fun_eq_iff)
  ultimately show ?thesis using p1 p2 by blast
qed

lemma child_stderr_spec:
  assumes E: "\<forall>fd \<in> early_err startup pstderr. 3 \<le> fd"
    and e: "\<not> st_merge_outputs startup \<Longrightarrow> \<not> st_inherit_stderr startup \<Longrightarrow>
              3 \<le> pwrite pstderr \<and> tab (pwrite pstderr) \<noteq> None \<and> pwrite pstderr \<notin> early_err startup pstderr"
  shows "pwrite (fst (child_stderr startup pstderr tab)) = pwrite pstderr
    \<and> snd (child_stderr startup pstderr tab) fd =
        (if fd = 2 then
           (if st_merge_outputs startup
            then (case tab 1 of None \<Rightarrow> tab 2 | Some e \<Rightarrow> Some (e\<lparr>cloexec := False\<rparr>))
            else if st_inherit_stderr startup then tab 2 else dup_entry tab (pwrite pstderr))
         else if fd \<in> early_err startup pstderr then None else tab fd)"
proof (cases "st_merge_outputs startup \<or> st_inherit_stderr startup")
  case True
  then show ?thesis
    by (auto simp: child_stderr_def early_err_def sys_dup2_def split: option.splits)
next
  case False
  obtain perr t1 where s1: "(if \<not> redirected (st_stderr startup)
      then close_read (pstderr, tab) else (pstderr, tab)) = (perr, t1)" by fastforce
  have p1: "pwrite perr = pwrite pstderr" using s1 by (auto simp: close_read_def split: if_splits prod.splits)
  have t1: "t1 = (\<lambda>fd. if fd \<in> early_err startup pstderr then None else tab fd)"
    using s1 E False by (auto simp: early_err_def fd_simps FD_INVALID_def fun_eq_iff split: if_splits)
  have "child_stderr startup pstderr tab = (perr, sys_dup2 (pwrite perr) 2 t1)"
    using False by (simp add: child_stderr_def s1)
  moreover have "sys_dup2 (pwrite perr) 2 t1 = t1(2 := dup_entry tab (pwrite pstderr))"
    using e False by (simp add: p1 dup_entry_dup2 t1 dup_entry_def)
  ultimately show ?thesis using False p1 by (simp add: t1)
qed

lemma child_close_sources_low:
  assumes "\<not> st_inherit_stdin startup \<Longrightarrow> pread pstdin \<noteq> n \<and> pread pstdin \<noteq> FD_INVALID"
    and "\<not> st_inherit_stdout startup \<Longrightarrow> pwrite pstdout \<noteq> n \<and> pwrite pstdout \<noteq> FD_INVALID"
    and "\<not> st_inherit_stderr startup \<Longrightarrow> \<not> st_merge_outputs startup \<Longrightarrow>
           pwrite pstderr \<noteq> n \<and> pwrite pstderr \<noteq> FD_INVALID"
  shows "child_close_sources startup pstdin pstdout pstderr tab n = tab n"
  using assms by (auto simp: child_close_sources_def fd_simps Let_def)

text \<open>
  The three standard descriptors are what the startup asks for, and a descriptor that is
  neither closed early nor a source, such as the failure pipe, is not touched.
\<close>

lemma child_streams_spec:
  assumes ok: "child_fds_ok startup pstdin pstdout pstderr tab"
    and n: "n \<notin> early_closed startup pstdin pstdout pstderr" "n \<notin> dup_sources startup pstdin pstdout pstderr"
  shows "child_streams startup pstdin pstdout pstderr tab n =
    (if n = 0 \<or> n = 1 \<or> n = 2 then std_entry startup pstdin pstdout pstderr tab n else tab n)"
proof -
  note ok' = ok[unfolded child_fds_ok_def early_closed_eq]
  have src: "\<not> st_inherit_stdin startup \<Longrightarrow> pread pstdin \<in> dup_sources startup pstdin pstdout pstderr"
    "\<not> st_inherit_stdout startup \<Longrightarrow> pwrite pstdout \<in> dup_sources startup pstdin pstdout pstderr"
    "\<not> st_merge_outputs startup \<Longrightarrow> \<not> st_inherit_stderr startup \<Longrightarrow>
       pwrite pstderr \<in> dup_sources startup pstdin pstdout pstderr"
    by (auto simp: dup_sources_def)
  obtain pin pout t where io: "child_stdin_stdout startup pstdin pstdout tab = (pin, pout, t)"
    "pread pin = pread pstdin" "pwrite pout = pwrite pstdout"
    and t: "t = (\<lambda>fd. if fd = 0 \<and> \<not> st_inherit_stdin startup then dup_entry tab (pread pstdin)
                else if fd = 1 \<and> \<not> st_inherit_stdout startup then dup_entry tab (pwrite pstdout)
                else if fd \<in> early_io startup pstdin pstdout then None else tab fd)"
    using child_stdin_stdout_spec[of startup pstdin pstdout tab] ok' src(1,2) by blast
  have te: "\<not> st_merge_outputs startup \<Longrightarrow> \<not> st_inherit_stderr startup \<Longrightarrow>
      t (pwrite pstderr) = tab (pwrite pstderr)"
    using ok' src(3) by (auto simp: t)
  obtain perr u where er1: "child_stderr startup pstderr t = (perr, u)" by fastforce
  have "pwrite (fst (child_stderr startup pstderr t)) = pwrite pstderr
    \<and> snd (child_stderr startup pstderr t) fd =
        (if fd = 2 then
           (if st_merge_outputs startup
            then (case t 1 of None \<Rightarrow> t 2 | Some e \<Rightarrow> Some (e\<lparr>cloexec := False\<rparr>))
            else if st_inherit_stderr startup then t 2 else dup_entry t (pwrite pstderr))
         else if fd \<in> early_err startup pstderr then None else t fd)" for fd
    using ok' src(3) te by (intro child_stderr_spec) auto
  then have er: "child_stderr startup pstderr t = (perr, u)" "pwrite perr = pwrite pstderr"
    and u: "u fd = (if fd = 2 then
           (if st_merge_outputs startup
            then (case t 1 of None \<Rightarrow> t 2 | Some e \<Rightarrow> Some (e\<lparr>cloexec := False\<rparr>))
            else if st_inherit_stderr startup then t 2 else dup_entry t (pwrite pstderr))
         else if fd \<in> early_err startup pstderr then None else t fd)" for fd
    by (simp_all add: er1)
  have "child_streams startup pstdin pstdout pstderr tab n = child_close_sources startup pin pout perr u n"
    by (simp add: child_streams_def io(1) er(1))
  also have "\<dots> = u n"
    using n(2) src ok' io er by (intro child_close_sources_low) (auto simp: FD_INVALID_def)
  finally have e: "child_streams startup pstdin pstdout pstderr tab n = u n" .
  have e3: "\<forall>fd \<in> early_io startup pstdin pstdout \<union> early_err startup pstderr. 3 \<le> fd"
    using ok' by blast
  have low: "m \<notin> early_io startup pstdin pstdout" and low2: "m \<notin> early_err startup pstderr"
    if "m < 3" for m
    using e3 that by force+
  have de: "dup_entry t (pwrite pstderr) = dup_entry tab (pwrite pstderr)"
    if "\<not> st_merge_outputs startup" "\<not> st_inherit_stderr startup"
    using te that by (simp add: dup_entry_def)
  have t1: "t 1 = (if st_inherit_stdout startup then tab 1 else dup_entry tab (pwrite pstdout))"
    and t0: "t 0 = (if st_inherit_stdin startup then tab 0 else dup_entry tab (pread pstdin))"
    and t2: "t 2 = tab 2"
    by (simp_all add: t low)
  have "u 0 = std_entry startup pstdin pstdout pstderr tab 0"
    "u 1 = std_entry startup pstdin pstdout pstderr tab 1"
    "u 2 = std_entry startup pstdin pstdout pstderr tab 2"
    by (simp_all add: u low2 t0 t1 t2 de std_entry_def Let_def split: option.split)
  moreover have "u n = tab n" if "\<not> (n = 0 \<or> n = 1 \<or> n = 2)"
    using that n(1) by (simp add: u t early_closed_eq)
  ultimately show ?thesis using e by auto
qed

text \<open>Above the standard descriptors the child only closes.\<close>

lemma close_read_shrinks: "snd (close_read (p, tab)) fd = tab fd \<or> snd (close_read (p, tab)) fd = None"
  by (auto simp: close_read_def close_fd_def sys_close_def)

lemma close_write_shrinks: "snd (close_write (p, tab)) fd = tab fd \<or> snd (close_write (p, tab)) fd = None"
  by (auto simp: close_write_def close_fd_def sys_close_def)

lemma child_stdin_stdout_shrinks:
  assumes "3 \<le> fd" and "child_stdin_stdout startup pin pout tab = (pin', pout', t)"
  shows "t fd = tab fd \<or> t fd = None"
proof -
  obtain p1 t1 where s1: "(if \<not> st_inherit_stdin startup \<and> \<not> redirected (st_stdin startup)
      then close_write (pin, tab) else (pin, tab)) = (p1, t1)" by fastforce
  obtain p2 t2 where s2: "(if \<not> st_inherit_stdout startup \<and> \<not> redirected (st_stdout startup)
      then close_read (pout, t1) else (pout, t1)) = (p2, t2)" by fastforce
  have "t1 fd = tab fd \<or> t1 fd = None"
    using s1 close_write_shrinks[of pin tab fd] by (simp split: if_splits)
  moreover have "t2 fd = t1 fd \<or> t2 fd = None"
    using s2 close_read_shrinks[of pout t1 fd] by (simp split: if_splits)
  moreover have "t fd = t2 fd"
    using assms by (simp add: child_stdin_stdout_def s1 s2 Let_def) (auto simp: sys_dup2_other split: if_splits)
  ultimately show ?thesis by auto
qed

lemma child_stderr_shrinks:
  "3 \<le> fd \<Longrightarrow> snd (child_stderr startup perr tab) fd = tab fd \<or> snd (child_stderr startup perr tab) fd = None"
  using close_read_shrinks[of perr tab fd]
  by (auto simp: child_stderr_def sys_dup2_other split: prod.splits)

lemma child_close_sources_shrinks:
  "child_close_sources startup pin pout perr tab fd = tab fd \<or> child_close_sources startup pin pout perr tab fd = None"
proof -
  define t1 where "t1 = (if \<not> st_inherit_stdin startup then snd (close_read (pin, tab)) else tab)"
  define t2 where "t2 = (if \<not> st_inherit_stdout startup then snd (close_write (pout, t1)) else t1)"
  have "t1 fd = tab fd \<or> t1 fd = None" using close_read_shrinks[of pin tab fd] by (simp add: t1_def)
  moreover have "t2 fd = t1 fd \<or> t2 fd = None" using close_write_shrinks[of pout t1 fd] by (simp add: t2_def)
  ultimately show ?thesis using close_write_shrinks[of perr t2 fd]
    by (auto simp: child_close_sources_def t1_def[symmetric] t2_def[symmetric] Let_def)
qed

lemma child_streams_shrinks:
  assumes "3 \<le> fd"
  shows "child_streams startup pin pout perr tab fd = tab fd \<or> child_streams startup pin pout perr tab fd = None"
proof -
  obtain pin' pout' t where io: "child_stdin_stdout startup pin pout tab = (pin', pout', t)"
    by (metis prod_cases3)
  obtain perr' u where e: "child_stderr startup perr t = (perr', u)" by fastforce
  have "u fd = t fd \<or> u fd = None" using child_stderr_shrinks[OF assms, of startup perr t] e by simp
  with child_stdin_stdout_shrinks[OF assms io] child_close_sources_shrinks[of startup pin' pout' perr' u fd]
  show ?thesis by (auto simp: child_streams_def io e)
qed

text \<open>
  The table that the child has when it calls \<open>execve\<close>, and the outcome of the child in
  closed form: a failure of \<open>chdir\<close>, of \<open>fcntl\<close> or of the search is reported, and
  otherwise the program has the three standard descriptors and no other.
\<close>

definition fail_fd_ok :: "process_startup \<Rightarrow> fds \<Rightarrow> fds \<Rightarrow> fds \<Rightarrow> fds \<Rightarrow> fdtab \<Rightarrow> bool" where
  "fail_fd_ok startup pstdin pstdout pstderr pfail tab \<longleftrightarrow>
     3 \<le> pread pfail \<and> 3 \<le> pwrite pfail \<and> pread pfail \<noteq> pwrite pfail \<and> tab (pwrite pfail) \<noteq> None \<and>
     {pread pfail, pwrite pfail} \<inter> early_closed startup pstdin pstdout pstderr = {} \<and>
     {pread pfail, pwrite pfail} \<inter> dup_sources startup pstdin pstdout pstderr = {}"

definition fds_bounded :: "cad_env \<Rightarrow> int \<Rightarrow> fdtab \<Rightarrow> bool" where
  "fds_bounded cad fail_fd tab \<longleftrightarrow>
     (\<forall>fd. tab fd \<noteq> None \<longrightarrow> 0 \<le> fd \<and> fd < fd_limit (open_max cad)) \<and> lists_open cad 3 tab \<and>
     (\<forall>names dir_fd. dev_fd cad = Some (names, dir_fd) \<longrightarrow> 3 \<le> dir_fd \<and> dir_fd \<noteq> fail_fd)"

definition std_table :: "process_startup \<Rightarrow> fds \<Rightarrow> fds \<Rightarrow> fds \<Rightarrow> fdtab \<Rightarrow> fdtab" where
  "std_table startup pstdin pstdout pstderr tab =
     sys_exec_close (std_entry startup pstdin pstdout pstderr tab)"

lemma lists_open_mono:
  "lists_open cad n tab \<Longrightarrow> (\<And>fd. n \<le> fd \<Longrightarrow> tab' fd \<noteq> None \<Longrightarrow> tab fd \<noteq> None) \<Longrightarrow> lists_open cad n tab'"
  by (fastforce simp: lists_open_def split: option.splits)

lemma child_table_before_exec:
  assumes ok: "child_fds_ok startup pstdin pstdout pstderr tab"
    and f: "fail_fd_ok startup pstdin pstdout pstderr pfail tab"
    and b: "fds_bounded cad (pwrite pfail) tab"
  defines "t \<equiv> tab(pread pfail := None)"
  shows "sys_exec_close (sys_set_cloexec (pwrite pfail)
           (close_all_descriptors pf cad 3 (pwrite pfail) (child_streams startup pstdin pstdout pstderr t)))
         = std_table startup pstdin pstdout pstderr tab"
proof -
  define u where "u = child_streams startup pstdin pstdout pstderr t"
  have ok': "child_fds_ok startup pstdin pstdout pstderr t"
    using ok f by (auto simp: child_fds_ok_def fail_fd_ok_def t_def)
  have n: "pread pfail \<notin> dup_sources startup pstdin pstdout pstderr" using f by (auto simp: fail_fd_ok_def)
  have "t 0 = tab 0" "t 1 = tab 1" "t 2 = tab 2" using f by (auto simp: t_def fail_fd_ok_def)
  moreover have "\<not> st_inherit_stdin startup \<Longrightarrow> t (pread pstdin) = tab (pread pstdin)"
    "\<not> st_inherit_stdout startup \<Longrightarrow> t (pwrite pstdout) = tab (pwrite pstdout)"
    "\<not> st_merge_outputs startup \<Longrightarrow> \<not> st_inherit_stderr startup \<Longrightarrow> t (pwrite pstderr) = tab (pwrite pstderr)"
    using n by (auto simp: t_def dup_sources_def)
  ultimately have se: "std_entry startup pstdin pstdout pstderr t = std_entry startup pstdin pstdout pstderr tab"
    by (simp add: std_entry_def fun_eq_iff Let_def dup_entry_def split: option.split)
  have sh: "u fd = t fd \<or> u fd = None" if "3 \<le> fd" for fd
    unfolding u_def using that by (rule child_streams_shrinks)
  have op: "u fd \<noteq> None \<Longrightarrow> tab fd \<noteq> None" if "3 \<le> fd" for fd
    using sh[OF that] by (cases "tab fd") (auto simp: t_def split: if_splits)
  have lo: "u m = std_entry startup pstdin pstdout pstderr tab m" if "m = 0 \<or> m = 1 \<or> m = 2" for m
  proof -
    have "m \<notin> early_closed startup pstdin pstdout pstderr" "m \<notin> dup_sources startup pstdin pstdout pstderr"
      using ok that by (force simp: child_fds_ok_def)+
    from child_streams_spec[OF ok' this] that show ?thesis by (simp add: u_def se)
  qed
  have fw: "u (pwrite pfail) = tab (pwrite pfail)"
  proof -
    have "pwrite pfail \<notin> early_closed startup pstdin pstdout pstderr"
      "pwrite pfail \<notin> dup_sources startup pstdin pstdout pstderr" using f by (auto simp: fail_fd_ok_def)
    from child_streams_spec[OF ok' this] f show ?thesis by (auto simp: u_def t_def fail_fd_ok_def)
  qed
  have "close_all_descriptors pf cad 3 (pwrite pfail) u =
      (\<lambda>fd. if 3 \<le> fd \<and> fd \<noteq> pwrite pfail then None else u fd)"
  proof (rule close_all_descriptors_eq)
    show "\<forall>fd. 3 \<le> fd \<and> u fd \<noteq> None \<longrightarrow> fd < fd_limit (open_max cad)"
      using b op by (auto simp: fds_bounded_def)
    show "lists_open cad 3 u" using b op by (auto simp: fds_bounded_def intro: lists_open_mono)
    show "\<forall>names dir_fd. dev_fd cad = Some (names, dir_fd) \<longrightarrow> 3 \<le> dir_fd \<and> dir_fd \<noteq> pwrite pfail"
      using b by (simp add: fds_bounded_def)
  qed
  moreover have "u fd = None" if "fd < 0" for fd
  proof -
    have "fd \<notin> early_closed startup pstdin pstdout pstderr" "fd \<notin> dup_sources startup pstdin pstdout pstderr"
      using ok that by (force simp: child_fds_ok_def)+
    from child_streams_spec[OF ok' this] that f b show ?thesis
      by (force simp: u_def t_def fds_bounded_def)
  qed
  moreover obtain e where "tab (pwrite pfail) = Some e" using f by (auto simp: fail_fd_ok_def)
  ultimately show ?thesis
    using lo fw f
    by (auto simp: u_def[symmetric] std_table_def sys_exec_close_def sys_set_cloexec_def fun_eq_iff
        fail_fd_ok_def std_entry_def Let_def split: option.splits)
qed

lemma child_proc_spec:
  assumes ok: "child_fds_ok startup pstdin pstdout pstderr tab"
    and f: "fail_fd_ok startup pstdin pstdout pstderr pfail tab"
    and b: "fds_bounded (ce_cad env) (pwrite pfail) tab"
    and c: "st_cmdline startup = file # args"
  shows "child_proc pf env startup pstdin pstdout pstderr pfail envp tab =
    (case ce_chdir env (st_cwd startup) of
       Some e \<Rightarrow> exit_with_error env e
     | None \<Rightarrow>
         (case ce_fcntl env of
            Some e \<Rightarrow> exit_with_error env e
          | None \<Rightarrow>
              (case exec_spec (ce_execve env) (ce_execvp env) (ce_malloc_ok env) (ce_environ env)
                      (ce_errno env) file (file # args) envp of
                 Inl e \<Rightarrow> exit_with_error env e
               | Inr (prog, as) \<Rightarrow>
                   Child_exec prog as (case envp of None \<Rightarrow> ce_environ env | Some block \<Rightarrow> block)
                     (std_table startup pstdin pstdout pstderr tab))))"
proof -
  have "pread pfail \<noteq> FD_INVALID" using f by (auto simp: fail_fd_ok_def FD_INVALID_def)
  then have cr: "close_read (pfail, tab) = (pfail\<lparr>pread := FD_INVALID\<rparr>, tab(pread pfail := None))"
    by (rule close_read_simp)
  have a0: "child_argv (file # args) ! 0 = Some file" by (simp add: child_argv_def)
  note t = child_table_before_exec[OF ok f b, of pf]
  note x = mpp_execvpe_exec_spec[of "file # args"]
  show ?thesis
    by (simp add: child_proc_def cr c a0 x t out_of_def Let_def split: option.split sum.split)
qed

text \<open>What \<open>execve\<close> does to one entry, and the file behind a duplicated entry.\<close>

definition exec_keep :: "fdent option \<Rightarrow> fdent option" where
  "exec_keep x = (case x of None \<Rightarrow> None | Some e \<Rightarrow> if cloexec e then None else Some e)"

lemma exec_close_keep: "sys_exec_close tab fd = exec_keep (tab fd)"
  by (simp add: sys_exec_close_def exec_keep_def)

lemma exec_keep_dup [simp]: "exec_keep (dup_entry tab fd) = dup_entry tab fd"
  by (cases "tab fd") (simp_all add: exec_keep_def dup_entry_def)

lemma obj_dup_entry: "map_option obj (dup_entry tab fd) = map_option obj (tab fd)"
  by (cases "tab fd") (simp_all add: dup_entry_def)

lemma obj_clear: "map_option obj (map_option (\<lambda>e. e\<lparr>cloexec := False\<rparr>) x) = map_option obj x"
  by (cases x) simp_all

text \<open>The files behind the descriptors of the new program.\<close>

abbreviation file_of :: "fdtab \<Rightarrow> int \<Rightarrow> ofile option" where
  "file_of tab fd \<equiv> map_option obj (tab fd)"

lemma child_exec_table:
  assumes "child_fds_ok startup pstdin pstdout pstderr tab"
    and "fail_fd_ok startup pstdin pstdout pstderr pfail tab"
    and "fds_bounded (ce_cad env) (pwrite pfail) tab"
    and "st_cmdline startup = file # args"
    and "child_proc pf env startup pstdin pstdout pstderr pfail envp tab = Child_exec prog as block t"
  shows "t = std_table startup pstdin pstdout pstderr tab"
  using assms(5) unfolding child_proc_spec[OF assms(1-4)]
  by (auto simp: exit_with_error_def split: option.splits sum.splits)

lemma std_table_files:
  assumes "child_fds_ok startup pstdin pstdout pstderr tab"
    and "\<forall>n \<in> {0, 1, 2}. \<forall>e. tab n = Some e \<longrightarrow> \<not> cloexec e"
    and "st_merge_outputs startup \<and> st_inherit_stdout startup \<longrightarrow> tab 1 \<noteq> None"
    and t: "t = std_table startup pstdin pstdout pstderr tab"
  shows "dom t \<subseteq> {0, 1, 2} \<and>
    file_of t 0 = file_of tab (if st_inherit_stdin startup then 0 else pread pstdin) \<and>
    file_of t 1 = file_of tab (if st_inherit_stdout startup then 1 else pwrite pstdout) \<and>
    file_of t 2 =
      (if st_merge_outputs startup then file_of t 1
       else file_of tab (if st_inherit_stderr startup then 2 else pwrite pstderr))"
proof -
  have c: "exec_keep (tab n) = tab n" if "n \<in> {0, 1, 2}" for n
    using assms(2) that by (auto simp: exec_keep_def split: option.split)
  have o: "tab (pwrite pstdout) \<noteq> None" if "\<not> st_inherit_stdout startup"
    using assms(1) that by (auto simp: child_fds_ok_def dup_sources_def)
  have t0: "t 0 = (if st_inherit_stdin startup then tab 0 else dup_entry tab (pread pstdin))"
    and t1: "t 1 = (if st_inherit_stdout startup then tab 1 else dup_entry tab (pwrite pstdout))"
    by (simp_all add: t std_table_def exec_close_keep std_entry_def c Let_def)
  have t2: "t 2 = (if st_merge_outputs startup then map_option (\<lambda>e. e\<lparr>cloexec := False\<rparr>) (t 1)
      else if st_inherit_stderr startup then tab 2 else dup_entry tab (pwrite pstderr))"
  proof (cases "st_merge_outputs startup")
    case False
    then show ?thesis by (simp add: t std_table_def exec_close_keep std_entry_def c Let_def)
  next
    case True
    define out where "out = (if st_inherit_stdout startup then tab 1 else dup_entry tab (pwrite pstdout))"
    have "out \<noteq> None" using True o assms(3) by (auto simp: out_def dup_entry_def)
    then obtain e where e: "out = Some e" by blast
    have "t 1 = out" by (simp add: t std_table_def exec_close_keep std_entry_def c Let_def out_def)
    moreover have "t 2 = exec_keep (Some (e\<lparr>cloexec := False\<rparr>))"
      using True e by (simp add: t std_table_def exec_close_keep std_entry_def out_def[symmetric])
    ultimately show ?thesis using True e by (simp add: exec_keep_def)
  qed
  have none: "t n = None" if "n \<notin> {0, 1, 2}" for n
    using that by (simp add: t std_table_def exec_close_keep std_entry_def exec_keep_def)
  have "dom t \<subseteq> {0, 1, 2}" using none by (metis domIff subsetI)
  moreover have "map_option obj (t 0) = map_option obj (tab (if st_inherit_stdin startup then 0 else pread pstdin))"
    by (simp add: t0 obj_dup_entry)
  moreover have "map_option obj (t 1) = map_option obj (tab (if st_inherit_stdout startup then 1 else pwrite pstdout))"
    by (simp add: t1 obj_dup_entry)
  moreover have "map_option obj (t 2) = (if st_merge_outputs startup then map_option obj (t 1)
      else map_option obj (tab (if st_inherit_stderr startup then 2 else pwrite pstderr)))"
    using obj_clear[of "t 1"] by (simp add: t2 obj_dup_entry)
  ultimately show ?thesis by blast
qed

section \<open>Properties\<close>

text \<open>
  \<open>close_all_descriptors\<close> is exact on each of its three paths (the
  \<open>close_range\<close> calls with their fallback, the walk over \<open>/dev/fd\<close>, the loop up to the
  descriptor limit): every descriptor from \<open>from_fd\<close> on is closed except \<open>fail_fd\<close>,
  and no other is touched, provided the open descriptors are below the limit the loop uses
  and the directory listing names them.
\<close>

theorem close_all_descriptors_exact:
  assumes "\<forall>fd. from_fd \<le> fd \<and> tab fd \<noteq> None \<longrightarrow> fd < fd_limit (open_max env)"
    and "lists_open env from_fd tab"
    and "\<forall>names dir_fd. dev_fd env = Some (names, dir_fd) \<longrightarrow> from_fd \<le> dir_fd \<and> dir_fd \<noteq> fail_fd"
  shows "close_all_descriptors pf env from_fd fail_fd tab fd =
    (if from_fd \<le> fd \<and> fd \<noteq> fail_fd then None else tab fd)"
  using close_all_descriptors_eq[OF assms, of pf] by simp

definition demo_tab :: fdtab where
  "demo_tab = [0 \<mapsto> \<lparr>obj = Other 0, cloexec = False\<rparr>, 1 \<mapsto> \<lparr>obj = Other 1, cloexec = False\<rparr>,
     2 \<mapsto> \<lparr>obj = Other 2, cloexec = False\<rparr>, 3 \<mapsto> \<lparr>obj = Pipe_R 0, cloexec = False\<rparr>,
     4 \<mapsto> \<lparr>obj = Pipe_W 0, cloexec = False\<rparr>, 5 \<mapsto> \<lparr>obj = Pipe_R 1, cloexec = True\<rparr>,
     6 \<mapsto> \<lparr>obj = Pipe_W 1, cloexec = True\<rparr>]"

definition demo_cad :: cad_env where
  "demo_cad = \<lparr>dev_fd = Some ([''.'', ''..'', ''0'', ''1'', ''2'', ''3'', ''4'', ''5'', ''6'', ''7''], 7),
     close_range_ok = (\<lambda>lo hi. lo < 6), open_max = 256\<rparr>"

lemma demo_tab_dom: "demo_tab fd \<noteq> None \<longleftrightarrow> fd \<in> {0, 1, 2, 3, 4, 5, 6}"
  by (auto simp: demo_tab_def)

lemma demo_cad_lists: "lists_open demo_cad 3 demo_tab"
proof -
  have "strtol_full ''3'' = Some 3" "strtol_full ''4'' = Some 4" "strtol_full ''5'' = Some 5"
    "strtol_full ''6'' = Some 6" by code_simp+
  then show ?thesis unfolding lists_open_def demo_tab_dom by (auto simp: demo_cad_def in_int32_def)
qed

theorem close_all_descriptors_exact_witness:
  "close_all_descriptors Darwin demo_cad 3 6 demo_tab 4 = None \<and>
   close_all_descriptors Linux demo_cad 3 6 demo_tab 5 = None \<and>
   close_all_descriptors Other_unix demo_cad 3 6 demo_tab 6 = demo_tab 6"
proof -
  have l: "\<forall>fd. 3 \<le> fd \<and> demo_tab fd \<noteq> None \<longrightarrow> fd < fd_limit (open_max demo_cad)"
    unfolding demo_tab_dom by (auto simp: demo_cad_def fd_limit_def to_int32_def)
  have d: "\<forall>names dir_fd. dev_fd demo_cad = Some (names, dir_fd) \<longrightarrow> 3 \<le> dir_fd \<and> dir_fd \<noteq> 6"
    by (simp add: demo_cad_def)
  show ?thesis by (simp add: close_all_descriptors_exact[OF l demo_cad_lists d])
qed

text \<open>
  The program that the child executes has no descriptor but the three standard ones:
  standard input is the read end of its pipe (or the redirect target, or what the parent
  had), standard output likewise, and standard error is its own pipe or target, what the
  parent had, or with merged outputs the file that standard output is.
\<close>

theorem child_exec_descriptors:
  assumes "child_fds_ok startup pstdin pstdout pstderr tab"
    and "fail_fd_ok startup pstdin pstdout pstderr pfail tab"
    and "fds_bounded (ce_cad env) (pwrite pfail) tab"
    and "st_cmdline startup = file # args"
    and "child_proc pf env startup pstdin pstdout pstderr pfail envp tab = Child_exec prog as block t"
    and "\<forall>n \<in> {0, 1, 2}. \<forall>e. tab n = Some e \<longrightarrow> \<not> cloexec e"
    and "st_merge_outputs startup \<and> st_inherit_stdout startup \<longrightarrow> tab 1 \<noteq> None"
  shows "dom t \<subseteq> {0, 1, 2} \<and>
    file_of t 0 = file_of tab (if st_inherit_stdin startup then 0 else pread pstdin) \<and>
    file_of t 1 = file_of tab (if st_inherit_stdout startup then 1 else pwrite pstdout) \<and>
    file_of t 2 =
      (if st_merge_outputs startup then file_of t 1
       else file_of tab (if st_inherit_stderr startup then 2 else pwrite pstderr))"
  by (rule std_table_files[OF assms(1,6,7) child_exec_table[OF assms(1-5)]])

definition demo_startup :: process_startup where
  "demo_startup = (command ''ls'' process_startup_new)\<lparr>st_inherit_stdout := True, st_merge_outputs := True\<rparr>"

definition demo_child :: child_env where
  "demo_child = \<lparr>ce_cad = demo_cad, ce_chdir = (\<lambda>_. None), ce_fcntl = None,
     ce_execve = (\<lambda>file args envp. if file = ''/bin/ls'' then None else Some ENOENT),
     ce_execvp = (\<lambda>file args. None), ce_malloc_ok = True, ce_environ = [], ce_errno = 0, ce_writes = []\<rparr>"

lemma demo_startup_simps [simp]:
  "st_cmdline demo_startup = [''ls'']" "\<not> st_inherit_stdin demo_startup" "st_inherit_stdout demo_startup"
  "st_merge_outputs demo_startup" "\<not> redirected (st_stdin demo_startup)" "st_cwd demo_startup = ''.''"
  by (simp_all add: demo_startup_def process_startup_new_def command_def no_redirect_def redirected_def)

lemma demo_exec_spec:
  "exec_spec (ce_execve demo_child) (ce_execvp demo_child) (ce_malloc_ok demo_child) (ce_environ demo_child)
     (ce_errno demo_child) ''ls'' [''ls''] (Some []) = Inr (''/bin/ls'', [''ls''])"
  by (simp add: exec_spec_def demo_child_def get_path_env_def default_path_env_def search_spec_def dir_try_def
        attempt_def absolute_path_def dot_empty_def search_on_def)

lemma demo_child_ok:
  "child_fds_ok demo_startup \<lparr>pread = 3, pwrite = 4\<rparr> no_fds no_fds demo_tab"
  "fail_fd_ok demo_startup \<lparr>pread = 3, pwrite = 4\<rparr> no_fds no_fds \<lparr>pread = 5, pwrite = 6\<rparr> demo_tab"
  by (simp_all add: child_fds_ok_def fail_fd_ok_def dup_sources_def early_closed_def demo_tab_def)

lemma demo_bounded: "fds_bounded demo_cad 6 demo_tab"
  using demo_cad_lists
  unfolding fds_bounded_def demo_tab_dom by (auto simp: demo_cad_def fd_limit_def to_int32_def)

theorem child_exec_descriptors_witness:
  "\<exists>t. child_proc Linux demo_child demo_startup \<lparr>pread = 3, pwrite = 4\<rparr> no_fds no_fds
         \<lparr>pread = 5, pwrite = 6\<rparr> (Some []) demo_tab = Child_exec ''/bin/ls'' [''ls''] [] t \<and>
       dom t \<subseteq> {0, 1, 2} \<and> map_option obj (t 0) = Some (Pipe_R 0) \<and> map_option obj (t 2) = Some (Other 1)"
proof -
  have c: "ce_cad demo_child = demo_cad" by (simp add: demo_child_def)
  note b = demo_bounded[folded c]
  let ?t = "std_table demo_startup \<lparr>pread = 3, pwrite = 4\<rparr> no_fds no_fds demo_tab"
  have r: "child_proc Linux demo_child demo_startup \<lparr>pread = 3, pwrite = 4\<rparr> no_fds no_fds
      \<lparr>pread = 5, pwrite = 6\<rparr> (Some []) demo_tab = Child_exec ''/bin/ls'' [''ls''] [] ?t"
    using demo_exec_spec child_proc_spec[OF demo_child_ok _ demo_startup_simps(1), of demo_child Linux "Some []"] b
    by (simp add: demo_child_def)
  have lo: "\<forall>n \<in> {0, 1, 2}. \<forall>e. demo_tab n = Some e \<longrightarrow> \<not> cloexec e" by (auto simp: demo_tab_def)
  have "st_merge_outputs demo_startup \<and> st_inherit_stdout demo_startup \<longrightarrow> demo_tab 1 \<noteq> None"
    by (simp add: demo_tab_def)
  note d = child_exec_descriptors[OF demo_child_ok _ demo_startup_simps(1) r lo this]
  have b': "fds_bounded (ce_cad demo_child) (pwrite \<lparr>pread = 5, pwrite = 6\<rparr>) demo_tab" using b by simp
  have k: "map_option obj (demo_tab 3) = Some (Pipe_R 0)" "map_option obj (demo_tab 1) = Some (Other 1)"
    by (simp_all add: demo_tab_def)
  have "dom ?t \<subseteq> {0, 1, 2}" "map_option obj (?t 0) = Some (Pipe_R 0)" "map_option obj (?t 2) = Some (Other 1)"
    using d[OF b'] by (simp_all only: demo_startup_simps k if_True if_False fds.simps)
  with r show ?thesis by blast
qed

text \<open>
  The condition that no source is a standard descriptor matters: when descriptor 0 of
  the parent was closed, \<open>pipe\<close> returns it as the read end, \<open>dup2(0, 0)\<close> does nothing,
  and the close of the source that follows leaves the child without standard input.
\<close>

theorem child_stdin_lost_on_fd_zero:
  assumes "\<not> st_inherit_stdin startup" and "\<not> redirected (st_stdin startup)"
    and "st_inherit_stdout startup" and "st_inherit_stderr startup" and "\<not> st_merge_outputs startup"
    and "0 < w" and "tab 0 = Some e" and "tab w = Some e'"
  shows "child_streams startup \<lparr>pread = 0, pwrite = w\<rparr> no_fds no_fds tab 0 = None"
  using assms
  by (simp add: child_streams_def child_stdin_stdout_def child_stderr_def child_close_sources_def
      close_write_def close_read_def close_fd_def FD_INVALID_def sys_close_def sys_dup2_def)

theorem child_stdin_lost_on_fd_zero_witness:
  "child_streams (process_startup_new\<lparr>st_inherit_stdout := True, st_inherit_stderr := True\<rparr>)
     \<lparr>pread = 0, pwrite = 3\<rparr> no_fds no_fds demo_tab 0 = None"
  by (rule child_stdin_lost_on_fd_zero)
    (simp_all add: process_startup_new_def no_redirect_def redirected_def demo_tab_def)

end
