(* ===== verification/Spawn.thy ===== *)
theory Spawn
  imports Child_Proc
begin

text \<open>
  Creating a process on Unix: \<open>redirect_or_pipe\<close> and \<open>create_process\<close> of
  \<open>src/process.cpp\<close>, \<open>create_process_impl\<close> and \<open>close_process\<close> of
  \<open>src/process_unix.cpp\<close>, and \<open>process_builder::start\<close>.  The state is the descriptor
  table of the parent; the child runs on a copy of it.
\<close>

section \<open>The operations\<close>

definition redirect_or_pipe :: "allocator \<Rightarrow> redirect_info \<Rightarrow> fds \<Rightarrow> os \<Rightarrow> bool \<times> fds \<times> os" where
  "redirect_or_pipe A r p s =
     (if \<not> redirected r then create_pipe A p s
      else (True, p\<lparr>pread := target r, pwrite := target r\<rparr>, s))"

text \<open>
  The answers of the system: descriptor numbers for pipes, the result of \<open>fork\<close>, what the
  child meets, whether the child is killed before it can execute or report, the course of
  the reads from the failure pipe, the value of \<open>errno\<close> after a short read, the texts of
  \<open>strerror\<close>, the start time of a process, and the order of hash-map iteration.
\<close>

record spawn_env =
  se_alloc :: allocator
  se_fork :: "int option"
  se_child :: child_env
  se_killed :: bool
  se_reads :: "nat option list"
  se_read_errno :: int
  se_strerror :: "int \<Rightarrow> string"
  se_start_time :: "int \<Rightarrow> nat"
  se_order :: map_order

text \<open>The bytes that the parent can read before end of file.\<close>

definition fail_content :: "bool \<Rightarrow> child_outcome \<Rightarrow> 8 word list" where
  "fail_content killed outcome =
     (if killed then []
      else case outcome of Child_failed sent \<Rightarrow> sent | _ \<Rightarrow> [])"

text \<open>
  The result of an attempt to create a process: the exception or the filled
  \<open>process_info\<close>, the three arrays (closed entries are reset), the parent's state, and
  the child that was started, if any.
\<close>

type_synonym impl_result =
  "(exn + process_info) \<times> (fds \<times> fds \<times> fds) \<times> os \<times> child_outcome option"

definition make_fail_pipe :: "unix \<Rightarrow> allocator \<Rightarrow> os \<Rightarrow> bool \<times> fds \<times> os" where
  "make_fail_pipe pf A s =
     (if pf = Linux then
        (case sys_pipe A True s of
           (None, s') \<Rightarrow> (False, no_fds, s')
         | (Some (r, w), s') \<Rightarrow> (True, no_fds\<lparr>pread := r, pwrite := w\<rparr>, s'))
      else create_pipe A no_fds s)"

definition parent_success ::
  "spawn_env \<Rightarrow> process_startup \<Rightarrow> process_info \<Rightarrow> int \<Rightarrow> fds \<Rightarrow> fds \<Rightarrow> fds \<Rightarrow> fdtab \<Rightarrow>
   process_info \<times> (fds \<times> fds \<times> fds) \<times> fdtab" where
  "parent_success E startup info pid pstdin pstdout pstderr tab =
     (let (pstdin, tab) =
            (if \<not> st_inherit_stdin startup \<and> \<not> redirected (st_stdin startup)
             then close_read (pstdin, tab) else (pstdin, tab));
          (pstdout, tab) =
            (if \<not> st_inherit_stdout startup \<and> \<not> redirected (st_stdout startup)
             then close_write (pstdout, tab) else (pstdout, tab));
          (pstderr, tab) =
            (if st_merge_outputs startup \<or> st_inherit_stderr startup then (pstderr, tab)
             else if \<not> redirected (st_stderr startup)
             then close_write (pstderr, tab) else (pstderr, tab));
          info = info\<lparr>pi_pid := pid, pi_start_time := se_start_time E pid,
            pi_stdin := (if st_inherit_stdin startup \<or> redirected (st_stdin startup)
                         then FD_INVALID else pwrite pstdin),
            pi_stdout := (if st_inherit_stdout startup \<or> redirected (st_stdout startup)
                          then FD_INVALID else pread pstdout),
            pi_stderr := (if st_merge_outputs startup \<or> st_inherit_stderr startup
                             \<or> redirected (st_stderr startup)
                          then FD_INVALID else pread pstderr),
            pi_tid := FD_INVALID\<rparr>
      in (info, (pstdin, pstdout, pstderr), tab))"

definition create_process_impl ::
  "unix \<Rightarrow> spawn_env \<Rightarrow> process_startup \<Rightarrow> process_info \<Rightarrow> fds \<Rightarrow> fds \<Rightarrow> fds \<Rightarrow> os \<Rightarrow> impl_result option" where
  "create_process_impl pf E startup info pstdin pstdout pstderr s =
     (let envp = prebuilt_envp (se_order E) (ce_environ (se_child E)) startup;
          arrays = (pstdin, pstdout, pstderr)
      in case make_fail_pipe pf (se_alloc E) s of
           (False, _, s1) \<Rightarrow>
             Some (Inl (Runtime_error ''unable to create communication pipe''), arrays, s1, None)
         | (True, pfail, s1) \<Rightarrow>
             (case se_fork E of
                None \<Rightarrow>
                  Some (Inl (Runtime_error ''unable to fork subprocess''), arrays,
                        s1\<lparr>fdt := snd (close_pipe pfail (fdt s1))\<rparr>, None)
              | Some pid \<Rightarrow>
                  (let outcome = child_proc pf (se_child E) startup pstdin pstdout pstderr pfail envp (fdt s1);
                       content = fail_content (se_killed E) outcome;
                       (pfail, tab) = close_write (pfail, fdt s1)
                   in case read_fully pipe_read 4 4 [] (content, se_reads E) of
                        None \<Rightarrow> None
                      | Some (n, buf, _) \<Rightarrow>
                          (let tab = snd (close_read (pfail, tab))
                           in if n = 0 then
                                (case parent_success E startup info pid pstdin pstdout pstderr tab of
                                   (info', arrays', tab') \<Rightarrow>
                                     Some (Inr info', arrays', s1\<lparr>fdt := tab'\<rparr>, Some outcome))
                              else if n = 4 then
                                Some (Inl (Runtime_error (''child exec failed: '' @
                                        se_strerror E (sint (int_of_bytes buf)))),
                                      arrays, s1\<lparr>fdt := tab\<rparr>, Some outcome)
                              else
                                Some (Inl (Runtime_error (''read failed: '' @
                                        se_strerror E (se_read_errno E))),
                                      arrays, s1\<lparr>fdt := tab\<rparr>, Some outcome)))))"

definition rollback :: "process_startup \<Rightarrow> fds \<Rightarrow> fds \<Rightarrow> fds \<Rightarrow> fdtab \<Rightarrow> fdtab" where
  "rollback startup pstdin pstdout pstderr tab =
     (let tab = (if \<not> st_inherit_stdin startup \<and> \<not> redirected (st_stdin startup)
                 then snd (close_pipe pstdin tab) else tab);
          tab = (if \<not> st_inherit_stdout startup \<and> \<not> redirected (st_stdout startup)
                 then snd (close_pipe pstdout tab) else tab)
      in if \<not> st_inherit_stderr startup \<and> \<not> st_merge_outputs startup
            \<and> \<not> redirected (st_stderr startup)
         then snd (close_pipe pstderr tab) else tab)"

type_synonym spawn_result = "(exn + process_info) \<times> os \<times> child_outcome option"

definition throw_closing :: "string \<Rightarrow> os \<Rightarrow> fdtab \<Rightarrow> spawn_result option" where
  "throw_closing msg s tab = Some (Inl (Runtime_error msg), s\<lparr>fdt := tab\<rparr>, None)"

definition create_process ::
  "unix \<Rightarrow> spawn_env \<Rightarrow> process_startup \<Rightarrow> process_info \<Rightarrow> os \<Rightarrow> spawn_result option" where
  "create_process pf E startup info s0 =
     (let (ok_in, pstdin, s1) =
            (if \<not> st_inherit_stdin startup
             then redirect_or_pipe (se_alloc E) (st_stdin startup) no_fds s0 else (True, no_fds, s0))
      in if \<not> ok_in then throw_closing ''unable to bind stdin'' s1 (fdt s1)
         else
      let (ok_out, pstdout, s2) =
            (if \<not> st_inherit_stdout startup
             then redirect_or_pipe (se_alloc E) (st_stdout startup) no_fds s1 else (True, no_fds, s1))
      in if \<not> ok_out then
           throw_closing ''unable to bind stdout'' s2
             (if \<not> st_inherit_stdin startup then snd (close_pipe pstdin (fdt s2)) else fdt s2)
         else
      let (ok_err, pstderr, s3) =
            (if \<not> st_merge_outputs startup \<and> \<not> st_inherit_stderr startup
             then redirect_or_pipe (se_alloc E) (st_stderr startup) no_fds s2 else (True, no_fds, s2))
      in if \<not> ok_err then
           (let tab = (if \<not> st_inherit_stdin startup then snd (close_pipe pstdin (fdt s3)) else fdt s3)
            in throw_closing ''unable to bind stderr'' s3
                 (if \<not> st_inherit_stdout startup then snd (close_pipe pstdout tab) else tab))
         else
           (case create_process_impl pf E startup info pstdin pstdout pstderr s3 of
              None \<Rightarrow> None
            | Some (Inr info', _, s4, child) \<Rightarrow> Some (Inr info', s4, child)
            | Some (Inl e, (pstdin', pstdout', pstderr'), s4, child) \<Rightarrow>
                Some (Inl e, s4\<lparr>fdt := rollback startup pstdin' pstdout' pstderr' (fdt s4)\<rparr>, child)))"

definition close_process :: "process_info \<Rightarrow> fdtab \<Rightarrow> process_info \<times> fdtab" where
  "close_process info tab =
     (let (fd_in, tab) = close_fd (pi_stdin info) tab;
          (fd_out, tab) = close_fd (pi_stdout info) tab;
          (fd_err, tab) = close_fd (pi_stderr info) tab
      in (info\<lparr>pi_stdin := fd_in, pi_stdout := fd_out, pi_stderr := fd_err\<rparr>, tab))"

definition builder_start ::
  "unix \<Rightarrow> spawn_env \<Rightarrow> process_startup \<Rightarrow> os \<Rightarrow> spawn_result option" where
  "builder_start pf E b s =
     (case start_startup Unix b of
        Inl e \<Rightarrow> Some (Inl e, s, None)
      | Inr startup \<Rightarrow> create_process pf E startup process_info_new s)"

section \<open>What the parent's descriptor table gains\<close>

text \<open>
  \<open>gains F tab tab'\<close>: the table \<open>tab'\<close> is \<open>tab\<close> with the descriptors \<open>F\<close>, which
  were free in \<open>tab\<close>, opened in addition.
\<close>

definition gains :: "int set \<Rightarrow> fdtab \<Rightarrow> fdtab \<Rightarrow> bool" where
  "gains F tab tab' \<longleftrightarrow>
     (\<forall>fd. fd \<notin> F \<longrightarrow> tab' fd = tab fd) \<and> (\<forall>fd \<in> F. tab fd = None \<and> tab' fd \<noteq> None \<and> 0 \<le> fd)"

lemma gains_refl [simp]: "gains {} tab tab' \<longleftrightarrow> tab' = tab"
  by (auto simp: gains_def)

lemma gains_open:
  "gains F tab tab' \<Longrightarrow> tab' r = None \<Longrightarrow> tab' w = None \<Longrightarrow> 0 \<le> r \<Longrightarrow> 0 \<le> w \<Longrightarrow>
   gains (F \<union> {r, w}) tab (tab'(r \<mapsto> e, w \<mapsto> e'))"
  by (fastforce simp: gains_def)

lemma gains_close_fd:
  "gains F tab tab' \<Longrightarrow> fd = FD_INVALID \<or> tab fd = None \<Longrightarrow> gains (F - {fd}) tab (snd (close_fd fd tab'))"
  by (cases "fd = FD_INVALID") (force simp: gains_def close_fd_def sys_close_def FD_INVALID_def)+

lemma gains_close_pipe:
  assumes "gains F tab tab'" and "pread p \<in> F" and "pwrite p \<in> F"
  shows "gains (F - {pread p, pwrite p}) tab (snd (close_pipe p tab'))"
proof -
  have "pread p \<noteq> FD_INVALID" "pwrite p \<noteq> FD_INVALID" using assms by (auto simp: gains_def FD_INVALID_def)
  then show ?thesis using assms by (auto simp: fd_simps gains_def)
qed

lemma gains_disjoint: "gains F tab tab' \<Longrightarrow> tab' fd = None \<Longrightarrow> fd \<notin> F"
  by (auto simp: gains_def)

definition piped :: "bool \<Rightarrow> redirect_info \<Rightarrow> bool" where
  "piped used r \<longleftrightarrow> used \<and> \<not> redirected r"

definition pipe_fds :: "bool \<Rightarrow> redirect_info \<Rightarrow> fds \<Rightarrow> int set" where
  "pipe_fds used r p = (if piped used r then {pread p, pwrite p} else {})"

text \<open>One stream is bound: a new pipe, the target of the redirection, or nothing.\<close>

definition bind_stream :: "allocator \<Rightarrow> bool \<Rightarrow> redirect_info \<Rightarrow> os \<Rightarrow> bool \<times> fds \<times> os" where
  "bind_stream A used r s = (if used then redirect_or_pipe A r no_fds s else (True, no_fds, s))"

context pipe_alloc
begin

lemma bind_stream_piped:
  assumes "bind_stream A used r s = (True, p, s')" and "piped used r"
  shows "fdt s' = (fdt s)(pread p \<mapsto> \<lparr>obj = Pipe_R (npipe s), cloexec = False\<rparr>,
                         pwrite p \<mapsto> \<lparr>obj = Pipe_W (npipe s), cloexec = False\<rparr>)"
    "fdt s (pread p) = None" "fdt s (pwrite p) = None" "pread p \<noteq> pwrite p" "0 \<le> pread p" "0 \<le> pwrite p"
    "npipe s' = Suc (npipe s)" "A (fdt s) (npipe s) = Some (pread p, pwrite p)"
proof -
  from assms obtain r w where sp: "sys_pipe A False s = (Some (r, w), s')"
    and p: "p = no_fds\<lparr>pread := r, pwrite := w\<rparr>"
    by (auto simp: bind_stream_def piped_def redirect_or_pipe_def create_pipe_def split: option.splits prod.splits)
  show "fdt s' = (fdt s)(pread p \<mapsto> \<lparr>obj = Pipe_R (npipe s), cloexec = False\<rparr>,
                         pwrite p \<mapsto> \<lparr>obj = Pipe_W (npipe s), cloexec = False\<rparr>)"
    "fdt s (pread p) = None" "fdt s (pwrite p) = None" "pread p \<noteq> pwrite p" "0 \<le> pread p" "0 \<le> pwrite p"
    "npipe s' = Suc (npipe s)" using sys_pipe_SomeD[OF sp] by (simp_all add: p)
  show "A (fdt s) (npipe s) = Some (pread p, pwrite p)"
    using sp by (auto simp: sys_pipe_def p split: option.splits prod.splits)
qed

lemma bind_stream_gains:
  assumes "bind_stream A used r s = (True, p, s')" and "gains F tab (fdt s)"
  shows "gains (F \<union> pipe_fds used r p) tab (fdt s') \<and> F \<inter> pipe_fds used r p = {}"
proof (cases "piped used r")
  case True
  note b = bind_stream_piped[OF assms(1) True]
  have "gains (F \<union> {pread p, pwrite p}) tab (fdt s')"
    unfolding b(1) using assms(2) b by (intro gains_open) auto
  moreover have "pread p \<notin> F" "pwrite p \<notin> F" using b assms(2) by (auto dest: gains_disjoint)
  ultimately show ?thesis using True by (simp add: pipe_fds_def)
next
  case False
  then have "fdt s' = fdt s" using assms(1)
    by (auto simp: bind_stream_def piped_def redirect_or_pipe_def split: if_splits)
  with False assms(2) show ?thesis by (simp add: pipe_fds_def)
qed

end

lemma bind_stream_False:
  "bind_stream A used r s = (False, p, s') \<Longrightarrow> piped used r \<and> p = no_fds \<and> fdt s' = fdt s"
  by (auto simp: bind_stream_def piped_def redirect_or_pipe_def split: if_splits dest: create_pipe_FalseD)

lemma bind_stream_unpiped:
  "bind_stream A used r s = (True, p, s') \<Longrightarrow> \<not> piped used r \<Longrightarrow>
   s' = s \<and> p = (if used then \<lparr>pread = target r, pwrite = target r\<rparr> else no_fds)"
  by (auto simp: bind_stream_def piped_def redirect_or_pipe_def split: if_splits)

text \<open>The failure pipe is gone from the parent's table when both ends are closed.\<close>

context pipe_alloc
begin

lemma make_fail_pipe_True:
  assumes "make_fail_pipe pf A s = (True, p, s')"
  shows "\<exists>ce. fdt s' = (fdt s)(pread p \<mapsto> \<lparr>obj = Pipe_R (npipe s), cloexec = ce\<rparr>,
                              pwrite p \<mapsto> \<lparr>obj = Pipe_W (npipe s), cloexec = ce\<rparr>)"
    "fdt s (pread p) = None" "fdt s (pwrite p) = None" "pread p \<noteq> pwrite p" "0 \<le> pread p" "0 \<le> pwrite p"
    "A (fdt s) (npipe s) = Some (pread p, pwrite p)"
proof -
  from assms obtain r w ce where sp: "sys_pipe A ce s = (Some (r, w), s')"
    and p: "p = no_fds\<lparr>pread := r, pwrite := w\<rparr>"
    by (auto simp: make_fail_pipe_def create_pipe_def split: if_splits option.splits prod.splits)
  show "\<exists>ce. fdt s' = (fdt s)(pread p \<mapsto> \<lparr>obj = Pipe_R (npipe s), cloexec = ce\<rparr>,
                              pwrite p \<mapsto> \<lparr>obj = Pipe_W (npipe s), cloexec = ce\<rparr>)"
    "fdt s (pread p) = None" "fdt s (pwrite p) = None" "pread p \<noteq> pwrite p" "0 \<le> pread p" "0 \<le> pwrite p"
    using sys_pipe_SomeD[OF sp] by (auto simp: p)
  show "A (fdt s) (npipe s) = Some (pread p, pwrite p)"
    using sp by (auto simp: sys_pipe_def p split: option.splits prod.splits)
qed

lemma make_fail_pipe_closed:
  assumes "make_fail_pipe pf A s = (True, p, s')"
  shows "(fdt s')(pread p := None, pwrite p := None) = fdt s"
    and "pread p \<noteq> FD_INVALID" "pwrite p \<noteq> FD_INVALID"
  using make_fail_pipe_True[OF assms] by (auto simp: fun_eq_iff FD_INVALID_def)

end

lemma make_fail_pipe_False: "make_fail_pipe pf A s = (False, p, s') \<Longrightarrow> fdt s' = fdt s"
  by (auto simp: make_fail_pipe_def sys_pipe_def split: if_splits option.splits prod.splits
      dest: create_pipe_FalseD)

text \<open>The parent keeps one end of each pipe and records it.\<close>

definition recorded :: "process_info \<Rightarrow> int set" where
  "recorded info = {pi_stdin info, pi_stdout info, pi_stderr info} - {FD_INVALID}"

definition own_in :: "process_startup \<Rightarrow> bool" where
  "own_in startup \<longleftrightarrow> piped (\<not> st_inherit_stdin startup) (st_stdin startup)"

definition own_out :: "process_startup \<Rightarrow> bool" where
  "own_out startup \<longleftrightarrow> piped (\<not> st_inherit_stdout startup) (st_stdout startup)"

definition own_err :: "process_startup \<Rightarrow> bool" where
  "own_err startup \<longleftrightarrow>
     piped (\<not> st_merge_outputs startup \<and> \<not> st_inherit_stderr startup) (st_stderr startup)"

lemmas own_defs = own_in_def own_out_def own_err_def piped_def

definition all_pipes :: "process_startup \<Rightarrow> fds \<Rightarrow> fds \<Rightarrow> fds \<Rightarrow> int set" where
  "all_pipes startup pstdin pstdout pstderr =
     (if own_in startup then {pread pstdin, pwrite pstdin} else {}) \<union>
     (if own_out startup then {pread pstdout, pwrite pstdout} else {}) \<union>
     (if own_err startup then {pread pstderr, pwrite pstderr} else {})"

definition kept :: "process_startup \<Rightarrow> fds \<Rightarrow> fds \<Rightarrow> fds \<Rightarrow> int set" where
  "kept startup pstdin pstdout pstderr =
     (if own_in startup then {pwrite pstdin} else {}) \<union>
     (if own_out startup then {pread pstdout} else {}) \<union>
     (if own_err startup then {pread pstderr} else {})"

definition dropped :: "process_startup \<Rightarrow> fds \<Rightarrow> fds \<Rightarrow> fds \<Rightarrow> int set" where
  "dropped startup pstdin pstdout pstderr =
     (if own_in startup then {pread pstdin} else {}) \<union>
     (if own_out startup then {pwrite pstdout} else {}) \<union>
     (if own_err startup then {pwrite pstderr} else {})"

lemma parent_success_info:
  "fst (parent_success E startup info pid pstdin pstdout pstderr t) =
   info\<lparr>pi_pid := pid, pi_start_time := se_start_time E pid,
     pi_stdin := (if own_in startup then pwrite pstdin else FD_INVALID),
     pi_stdout := (if own_out startup then pread pstdout else FD_INVALID),
     pi_stderr := (if own_err startup then pread pstderr else FD_INVALID),
     pi_tid := FD_INVALID\<rparr>"
  by (auto simp: parent_success_def own_defs close_read_def close_write_def Let_def split: prod.split)

lemma close_read_snd: "snd (close_read (p, t)) = snd (close_fd (pread p) t)"
  by (simp add: close_read_def split: prod.split)

lemma close_write_snd: "snd (close_write (p, t)) = snd (close_fd (pwrite p) t)"
  by (simp add: close_write_def split: prod.split)

definition close_if :: "bool \<Rightarrow> int \<Rightarrow> fdtab \<Rightarrow> fdtab" where
  "close_if b fd t = (if b then snd (close_fd fd t) else t)"

lemma parent_success_table:
  "snd (snd (parent_success E startup info pid pstdin pstdout pstderr t)) =
     close_if (own_err startup) (pwrite pstderr)
       (close_if (own_out startup) (pwrite pstdout) (close_if (own_in startup) (pread pstdin) t))"
proof -
  obtain p1 t1 where 1: "(if \<not> st_inherit_stdin startup \<and> \<not> redirected (st_stdin startup)
      then close_read (pstdin, t) else (pstdin, t)) = (p1, t1)" by fastforce
  obtain p2 t2 where 2: "(if \<not> st_inherit_stdout startup \<and> \<not> redirected (st_stdout startup)
      then close_write (pstdout, t1) else (pstdout, t1)) = (p2, t2)" by fastforce
  have t1: "t1 = close_if (own_in startup) (pread pstdin) t"
    using 1 by (auto simp: close_if_def own_defs close_read_snd[symmetric] split: if_splits)
  have t2: "t2 = close_if (own_out startup) (pwrite pstdout) t1"
    using 2 by (auto simp: close_if_def own_defs close_write_snd[symmetric] split: if_splits)
  show ?thesis
    unfolding parent_success_def 1 2 t2[symmetric] t1[symmetric]
    by (auto simp: close_if_def own_defs close_write_snd[symmetric] Let_def 2 split: prod.split)
qed

lemma gains_close_if:
  "gains F tab t \<Longrightarrow> (b \<Longrightarrow> tab fd = None) \<Longrightarrow> gains (F - (if b then {fd} else {})) tab (close_if b fd t)"
  by (simp add: close_if_def gains_close_fd)

lemma gains_all_pipes_free:
  "gains F tab t \<Longrightarrow> fd \<in> F \<Longrightarrow> tab fd = None"
  by (simp add: gains_def)

lemma parent_success_gains:
  assumes g: "gains (all_pipes startup pstdin pstdout pstderr) tab t"
  shows "gains (all_pipes startup pstdin pstdout pstderr - dropped startup pstdin pstdout pstderr) tab
     (snd (snd (parent_success E startup info pid pstdin pstdout pstderr t)))"
proof -
  have free: "own_in startup \<Longrightarrow> tab (pread pstdin) = None" "own_out startup \<Longrightarrow> tab (pwrite pstdout) = None"
    "own_err startup \<Longrightarrow> tab (pwrite pstderr) = None"
    using gains_all_pipes_free[OF g] by (auto simp: all_pipes_def)
  have "all_pipes startup pstdin pstdout pstderr - dropped startup pstdin pstdout pstderr =
     all_pipes startup pstdin pstdout pstderr - (if own_in startup then {pread pstdin} else {})
       - (if own_out startup then {pwrite pstdout} else {}) - (if own_err startup then {pwrite pstderr} else {})"
    by (auto simp: dropped_def)
  then show ?thesis
    unfolding parent_success_table
    using gains_close_if[OF gains_close_if[OF gains_close_if[OF g free(1)] free(2)] free(3)] by simp
qed

text \<open>Closing the process gives back every recorded descriptor.\<close>

lemma close_process_gains:
  assumes "gains (recorded info) tab t"
  shows "snd (close_process info t) = tab"
proof -
  have free: "x = FD_INVALID \<or> tab x = None" if "x = pi_stdin info \<or> x = pi_stdout info \<or> x = pi_stderr info" for x
    using gains_all_pipes_free[OF assms, of x] that by (cases "x = FD_INVALID") (auto simp: recorded_def)
  have e: "snd (close_process info t) = snd (close_fd (pi_stderr info)
      (snd (close_fd (pi_stdout info) (snd (close_fd (pi_stdin info) t)))))"
    by (simp add: close_process_def Let_def split: prod.split)
  have "gains (recorded info - {pi_stdin info} - {pi_stdout info} - {pi_stderr info}) tab (snd (close_process info t))"
    unfolding e using assms free by (intro gains_close_fd) auto
  moreover have "recorded info - {pi_stdin info} - {pi_stdout info} - {pi_stderr info} = {}"
    by (auto simp: recorded_def)
  ultimately show ?thesis by simp
qed

text \<open>
  One attempt of \<open>create_process_impl\<close>: an exception leaves the parent's table and the
  arrays as they were; a success closes the child's ends.
\<close>

context pipe_alloc
begin

lemma close_fail_ends:
  assumes "make_fail_pipe pf A s = (True, p, s')"
  shows "snd (close_read (fst (close_write (p, fdt s')), snd (close_write (p, fdt s')))) = fdt s"
    and "snd (close_pipe p (fdt s')) = fdt s"
proof -
  note c = make_fail_pipe_closed[OF assms]
  have d: "(fdt s')(pwrite p := None, pread p := None) = fdt s"
    using c(1) by (metis fun_upd_twist)
  show "snd (close_read (fst (close_write (p, fdt s')), snd (close_write (p, fdt s')))) = fdt s"
    using c(2,3) d by (simp add: fd_simps)
  show "snd (close_pipe p (fdt s')) = fdt s" using c by (simp add: fd_simps)
qed

lemma impl_outcome:
  assumes "A = se_alloc E"
    and "create_process_impl pf E startup info pin pout perr s = Some (r, arrays, s', child)"
  shows "case r of
      Inl e \<Rightarrow> arrays = (pin, pout, perr) \<and> fdt s' = fdt s
    | Inr info' \<Rightarrow>
        \<exists>pfail s1 pid buf w.
          make_fail_pipe pf A s = (True, pfail, s1) \<and> se_fork E = Some pid \<and>
          child = Some (child_proc pf (se_child E) startup pin pout perr pfail
            (prebuilt_envp (se_order E) (ce_environ (se_child E)) startup) (fdt s1)) \<and>
          read_fully pipe_read 4 4 [] (fail_content (se_killed E) (the child), se_reads E) = Some (0, buf, w) \<and>
          info' = fst (parent_success E startup info pid pin pout perr (fdt s)) \<and>
          fdt s' = snd (snd (parent_success E startup info pid pin pout perr (fdt s)))"
proof -
  obtain ok pfail s1 where m: "make_fail_pipe pf A s = (ok, pfail, s1)" by (metis prod_cases3)
  show ?thesis
  proof (cases ok)
    case False
    then show ?thesis using assms m make_fail_pipe_False[of pf A s pfail s1]
      by (auto simp: create_process_impl_def)
  next
    case True
    with m have m: "make_fail_pipe pf A s = (True, pfail, s1)" by simp
    note c = close_fail_ends[OF m]
    show ?thesis
    proof (cases "se_fork E")
      case None
      then show ?thesis using assms m c(2) by (auto simp: create_process_impl_def)
    next
      case (Some pid)
      obtain p2 t2 where w: "close_write (pfail, fdt s1) = (p2, t2)" by fastforce
      have t: "snd (close_read (p2, t2)) = fdt s" using c(1) by (simp add: w)
      from assms m Some show ?thesis
        by (auto simp: create_process_impl_def w t Let_def split: option.splits prod.splits if_splits)
    qed
  qed
qed

end

section \<open>create\_process in closed form\<close>

text \<open>
  The three streams are bound in order; \<open>bound\<close> says that all three succeeded, with the
  arrays and the state after them.
\<close>

definition bound :: "allocator \<Rightarrow> process_startup \<Rightarrow> os \<Rightarrow> fds \<Rightarrow> fds \<Rightarrow> fds \<Rightarrow> os \<Rightarrow> bool" where
  "bound A startup s pin pout perr s3 \<longleftrightarrow>
     (\<exists>s1 s2. bind_stream A (\<not> st_inherit_stdin startup) (st_stdin startup) s = (True, pin, s1) \<and>
        bind_stream A (\<not> st_inherit_stdout startup) (st_stdout startup) s1 = (True, pout, s2) \<and>
        bind_stream A (\<not> st_merge_outputs startup \<and> \<not> st_inherit_stderr startup) (st_stderr startup) s2
          = (True, perr, s3))"

definition bind_failed :: "allocator \<Rightarrow> process_startup \<Rightarrow> os \<Rightarrow> exn \<Rightarrow> fdtab \<Rightarrow> bool" where
  "bind_failed A startup s e tab \<longleftrightarrow>
     (own_in startup \<and> e = Runtime_error ''unable to bind stdin'' \<and> tab = fdt s) \<or>
     (\<exists>pin s1. bind_stream A (\<not> st_inherit_stdin startup) (st_stdin startup) s = (True, pin, s1) \<and>
        (own_out startup \<and> e = Runtime_error ''unable to bind stdout'' \<and>
           tab = (if \<not> st_inherit_stdin startup then snd (close_pipe pin (fdt s1)) else fdt s1) \<or>
         (\<exists>pout s2. bind_stream A (\<not> st_inherit_stdout startup) (st_stdout startup) s1 = (True, pout, s2) \<and>
            own_err startup \<and> e = Runtime_error ''unable to bind stderr'' \<and>
            tab = (let t = (if \<not> st_inherit_stdin startup then snd (close_pipe pin (fdt s2)) else fdt s2)
                   in if \<not> st_inherit_stdout startup then snd (close_pipe pout t) else t))))"

lemma create_process_cases:
  assumes c: "create_process pf E startup info s = Some (r, s', child)" and A: "A = se_alloc E"
  shows "(\<exists>e. r = Inl e \<and> child = None \<and> bind_failed A startup s e (fdt s')) \<or>
    (\<exists>pin pout perr s3 r' s4 arrays. bound A startup s pin pout perr s3 \<and>
       create_process_impl pf E startup info pin pout perr s3 = Some (r', arrays, s4, child) \<and> r = r' \<and>
       (case r' of Inr _ \<Rightarrow> s' = s4
        | Inl _ \<Rightarrow> s' = s4\<lparr>fdt := (case arrays of (a, b, d) \<Rightarrow> rollback startup a b d (fdt s4))\<rparr>))"
proof -
  note fold = bind_stream_def[symmetric]
  obtain ok1 pin s1 where b1: "bind_stream A (\<not> st_inherit_stdin startup) (st_stdin startup) s = (ok1, pin, s1)"
    by (metis prod_cases3)
  obtain ok2 pout s2 where b2: "bind_stream A (\<not> st_inherit_stdout startup) (st_stdout startup) s1 = (ok2, pout, s2)"
    by (metis prod_cases3)
  obtain ok3 perr s3 where b3: "bind_stream A (\<not> st_merge_outputs startup \<and> \<not> st_inherit_stderr startup)
      (st_stderr startup) s2 = (ok3, perr, s3)"
    by (metis prod_cases3)
  note unf = c[unfolded create_process_def fold A[symmetric] b1 b2 b3 Let_def prod.case throw_closing_def]
  consider "\<not> ok1" | "ok1" "\<not> ok2" | "ok1" "ok2" "\<not> ok3" | "ok1" "ok2" "ok3" by blast
  then show ?thesis
  proof cases
    case 1
    with b1 have "own_in startup" "fdt s1 = fdt s" using bind_stream_False by (auto simp: own_in_def)
    with 1 unf show ?thesis by (auto simp: bind_failed_def)
  next
    case 2
    with b2 have "own_out startup" "fdt s2 = fdt s1" using bind_stream_False by (auto simp: own_out_def)
    with 2 unf b1 show ?thesis by (auto simp: bind_failed_def)
  next
    case 3
    with b3 have "own_err startup" "fdt s3 = fdt s2" using bind_stream_False by (auto simp: own_err_def)
    with 3 unf b1 b2 show ?thesis by (auto simp: bind_failed_def Let_def)
  next
    case 4
    with b1 b2 b3 have "bound A startup s pin pout perr s3" by (auto simp: bound_def)
    moreover obtain r' arrays s4 child' where i:
      "create_process_impl pf E startup info pin pout perr s3 = Some (r', arrays, s4, child')"
      using 4 unf by (auto split: option.splits)
    moreover have "child' = child \<and> r = r' \<and> (case r' of Inr _ \<Rightarrow> s' = s4
        | Inl _ \<Rightarrow> s' = s4\<lparr>fdt := (case arrays of (a, b, d) \<Rightarrow> rollback startup a b d (fdt s4))\<rparr>)"
      using 4 unf i by (cases r'; cases arrays) auto
    ultimately show ?thesis by blast
  qed
qed

context pipe_alloc
begin

lemma bound_gains:
  assumes "bound A startup s pin pout perr s3"
  shows "gains (all_pipes startup pin pout perr) (fdt s) (fdt s3)"
proof -
  from assms obtain s1 s2 where
    b1: "bind_stream A (\<not> st_inherit_stdin startup) (st_stdin startup) s = (True, pin, s1)" and
    b2: "bind_stream A (\<not> st_inherit_stdout startup) (st_stdout startup) s1 = (True, pout, s2)" and
    b3: "bind_stream A (\<not> st_merge_outputs startup \<and> \<not> st_inherit_stderr startup) (st_stderr startup) s2
          = (True, perr, s3)" by (auto simp: bound_def)
  have "gains {} (fdt s) (fdt s)" by simp
  from bind_stream_gains[OF b1 this] have g1: "gains (pipe_fds (\<not> st_inherit_stdin startup) (st_stdin startup) pin)
    (fdt s) (fdt s1)" by simp
  from bind_stream_gains[OF b3 conjunct1[OF bind_stream_gains[OF b2 g1]]]
  show ?thesis by (simp add: all_pipes_def pipe_fds_def own_in_def own_out_def own_err_def)
qed

lemma kept_dropped:
  assumes "bound A startup s pin pout perr s3"
  shows "all_pipes startup pin pout perr - dropped startup pin pout perr = kept startup pin pout perr"
    "kept startup pin pout perr \<inter> dropped startup pin pout perr = {}"
proof -
  from assms obtain s1 s2 where
    b1: "bind_stream A (\<not> st_inherit_stdin startup) (st_stdin startup) s = (True, pin, s1)" and
    b2: "bind_stream A (\<not> st_inherit_stdout startup) (st_stdout startup) s1 = (True, pout, s2)" and
    b3: "bind_stream A (\<not> st_merge_outputs startup \<and> \<not> st_inherit_stderr startup) (st_stderr startup) s2
          = (True, perr, s3)" by (auto simp: bound_def)
  have "gains {} (fdt s) (fdt s)" by simp
  note g1 = bind_stream_gains[OF b1 this]
  note g2 = bind_stream_gains[OF b2 conjunct1[OF g1]]
  note g3 = bind_stream_gains[OF b3 conjunct1[OF g2]]
  have d: "own_in startup \<Longrightarrow> pread pin \<noteq> pwrite pin" "own_out startup \<Longrightarrow> pread pout \<noteq> pwrite pout"
    "own_err startup \<Longrightarrow> pread perr \<noteq> pwrite perr"
    using bind_stream_piped(4)[OF b1] bind_stream_piped(4)[OF b2] bind_stream_piped(4)[OF b3]
    by (simp_all add: own_in_def own_out_def own_err_def)
  have x: "own_in startup \<Longrightarrow> own_out startup \<Longrightarrow> {pread pin, pwrite pin} \<inter> {pread pout, pwrite pout} = {}"
    "own_in startup \<Longrightarrow> own_err startup \<Longrightarrow> {pread pin, pwrite pin} \<inter> {pread perr, pwrite perr} = {}"
    "own_out startup \<Longrightarrow> own_err startup \<Longrightarrow> {pread pout, pwrite pout} \<inter> {pread perr, pwrite perr} = {}"
    using conjunct2[OF g2] conjunct2[OF g3] by (auto simp: pipe_fds_def own_in_def own_out_def own_err_def)
  show "kept startup pin pout perr \<inter> dropped startup pin pout perr = {}"
    using d x by (auto simp: kept_def dropped_def)
  then show "all_pipes startup pin pout perr - dropped startup pin pout perr = kept startup pin pout perr"
    by (auto simp: kept_def dropped_def all_pipes_def split: if_splits)
qed

lemma rollback_eq:
  "rollback startup pin pout perr t =
     (let t = (if own_in startup then snd (close_pipe pin t) else t);
          t = (if own_out startup then snd (close_pipe pout t) else t)
      in if own_err startup then snd (close_pipe perr t) else t)"
  by (simp add: rollback_def own_in_def own_out_def own_err_def piped_def conj_ac)

lemma close_pipe_if:
  "(b \<Longrightarrow> pread p \<noteq> FD_INVALID \<and> pwrite p \<noteq> FD_INVALID) \<Longrightarrow>
   (if b then snd (close_pipe p t) else t) x = (if b \<and> (x = pread p \<or> x = pwrite p) then None else t x)"
  by (simp add: fd_simps)

lemma rollback_gains:
  assumes "gains (all_pipes startup pin pout perr) tab t"
  shows "rollback startup pin pout perr t = tab"
proof
  fix x
  have "FD_INVALID \<notin> all_pipes startup pin pout perr"
    using assms by (auto simp: gains_def FD_INVALID_def)
  then have v: "own_in startup \<Longrightarrow> pread pin \<noteq> FD_INVALID \<and> pwrite pin \<noteq> FD_INVALID"
    "own_out startup \<Longrightarrow> pread pout \<noteq> FD_INVALID \<and> pwrite pout \<noteq> FD_INVALID"
    "own_err startup \<Longrightarrow> pread perr \<noteq> FD_INVALID \<and> pwrite perr \<noteq> FD_INVALID"
    by (simp_all add: all_pipes_def)
  have "rollback startup pin pout perr t x =
      (if x \<in> all_pipes startup pin pout perr then None else t x)"
    by (simp only: rollback_eq Let_def close_pipe_if[OF v(3)] close_pipe_if[OF v(2)] close_pipe_if[OF v(1)])
      (simp add: all_pipes_def)
  then show "rollback startup pin pout perr t x = tab x" using assms by (simp add: gains_def)
qed

lemma success_gains:
  assumes "create_process pf E startup info s = Some (Inr info', s', child)" and "A = se_alloc E"
  shows "gains (recorded info') (fdt s) (fdt s')"
proof -
  from create_process_cases[OF assms] obtain pin pout perr s3 arrays where
    b: "bound A startup s pin pout perr s3" and
    i: "create_process_impl pf E startup info pin pout perr s3 = Some (Inr info', arrays, s', child)"
    by (auto split: sum.splits)
  from impl_outcome[OF assms(2) i] obtain pid where
    inf: "info' = fst (parent_success E startup info pid pin pout perr (fdt s3))" and
    t: "fdt s' = snd (snd (parent_success E startup info pid pin pout perr (fdt s3)))" by auto
  note g = bound_gains[OF b]
  have "recorded info' = kept startup pin pout perr"
  proof -
    have "FD_INVALID \<notin> all_pipes startup pin pout perr"
      using g by (auto simp: gains_def FD_INVALID_def)
    then show ?thesis unfolding inf recorded_def parent_success_info
      by (auto simp: kept_def all_pipes_def)
  qed
  then show ?thesis using parent_success_gains[OF g, of E info pid] kept_dropped(1)[OF b] t by simp
qed

lemma failure_restores:
  assumes "create_process pf E startup info s = Some (Inl e, s', child)" and "A = se_alloc E"
    and "\<not> bind_failed A startup s e (fdt s')"
  shows "fdt s' = fdt s"
proof -
  from create_process_cases[OF assms(1,2)] assms(3) obtain pin pout perr s3 arrays s4 where
    b: "bound A startup s pin pout perr s3" and
    i: "create_process_impl pf E startup info pin pout perr s3 = Some (Inl e, arrays, s4, child)" and
    s': "s' = s4\<lparr>fdt := (case arrays of (a, b, d) \<Rightarrow> rollback startup a b d (fdt s4))\<rparr>"
    by (auto split: sum.splits)
  from impl_outcome[OF assms(2) i] have "arrays = (pin, pout, perr)" "fdt s4 = fdt s3" by simp_all
  with s' rollback_gains[OF bound_gains[OF b]] show ?thesis by simp
qed

end

text \<open>
  The closing after a failed bind spares nothing of the first two streams: a redirect target
  is closed like a pipe.
\<close>

definition redirect_targets :: "process_startup \<Rightarrow> int set" where
  "redirect_targets startup =
     (if \<not> st_inherit_stdin startup \<and> redirected (st_stdin startup) then {target (st_stdin startup)} else {}) \<union>
     (if \<not> st_inherit_stdout startup \<and> redirected (st_stdout startup) then {target (st_stdout startup)} else {})"

context pipe_alloc
begin

lemma unbind_stream:
  assumes "bind_stream A used r s = (True, p, s')" and "used \<and> redirected r \<longrightarrow> fd \<noteq> target r"
  shows "(if used then snd (close_pipe p t) else t) fd = (if fd \<in> pipe_fds used r p then None else t fd)"
proof (cases "piped used r")
  case True
  from bind_stream_piped(5,6)[OF assms(1) True] True show ?thesis
    by (simp add: pipe_fds_def piped_def fd_simps FD_INVALID_def)
next
  case False
  with bind_stream_unpiped[OF assms(1) False] assms(2) show ?thesis
    by (auto simp: pipe_fds_def piped_def redirected_def fd_simps)
qed

lemma bind_failed_table:
  assumes "bind_failed A startup s e tab" and "fd \<notin> redirect_targets startup"
  shows "tab fd = fdt s fd"
proof -
  let ?c1 = "\<lambda>pin t. if \<not> st_inherit_stdin startup then snd (close_pipe pin t) else t"
  have r: "\<not> st_inherit_stdin startup \<and> redirected (st_stdin startup) \<longrightarrow> fd \<noteq> target (st_stdin startup)"
    "\<not> st_inherit_stdout startup \<and> redirected (st_stdout startup) \<longrightarrow> fd \<noteq> target (st_stdout startup)"
    using assms(2) by (auto simp: redirect_targets_def)
  consider "tab = fdt s"
    | pin s1 where "bind_stream A (\<not> st_inherit_stdin startup) (st_stdin startup) s = (True, pin, s1)"
        "tab = ?c1 pin (fdt s1)"
    | pin s1 pout s2 where "bind_stream A (\<not> st_inherit_stdin startup) (st_stdin startup) s = (True, pin, s1)"
        "bind_stream A (\<not> st_inherit_stdout startup) (st_stdout startup) s1 = (True, pout, s2)"
        "tab = (if \<not> st_inherit_stdout startup then snd (close_pipe pout (?c1 pin (fdt s2))) else ?c1 pin (fdt s2))"
    using assms(1) by (auto simp: bind_failed_def Let_def)
  then show ?thesis
  proof cases
    case 1
    then show ?thesis by simp
  next
    case (2 pin s1)
    have "gains (pipe_fds (\<not> st_inherit_stdin startup) (st_stdin startup) pin) (fdt s) (fdt s1)"
      using bind_stream_gains[OF 2(1), of "{}" "fdt s"] by simp
    then show ?thesis unfolding 2(2) unbind_stream[OF 2(1) r(1)] by (simp add: gains_def)
  next
    case (3 pin s1 pout s2)
    have "gains (pipe_fds (\<not> st_inherit_stdin startup) (st_stdin startup) pin) (fdt s) (fdt s1)"
      using bind_stream_gains[OF 3(1), of "{}" "fdt s"] by simp
    from conjunct1[OF bind_stream_gains[OF 3(2) this]]
    show ?thesis
      unfolding 3(3) unbind_stream[OF 3(2) r(2)] unbind_stream[OF 3(1) r(1)] by (simp add: gains_def)
  qed
qed

end

section \<open>The descriptors that the child finds\<close>

text \<open>
  What the system must provide for the child's descriptors to be the intended ones: the
  parent's three standard descriptors are open, its descriptors and those that \<open>pipe\<close>
  returns are below the limit that the closing loop uses, the targets of redirections are
  open and not standard descriptors, and \<open>/dev/fd\<close> is not readable (it is looked at on
  Darwin only).
\<close>

definition all_targets :: "process_startup \<Rightarrow> int set" where
  "all_targets startup = redirect_targets startup \<union>
     (if \<not> st_merge_outputs startup \<and> \<not> st_inherit_stderr startup \<and> redirected (st_stderr startup)
      then {target (st_stderr startup)} else {})"

definition parent_ok :: "spawn_env \<Rightarrow> process_startup \<Rightarrow> os \<Rightarrow> bool" where
  "parent_ok E startup s \<longleftrightarrow>
     (let limit = fd_limit (open_max (ce_cad (se_child E)))
      in (\<forall>n \<in> {0, 1, 2}. \<exists>e. fdt s n = Some e \<and> \<not> cloexec e) \<and>
         (\<forall>fd. fdt s fd \<noteq> None \<longrightarrow> 0 \<le> fd \<and> fd < limit) \<and>
         (\<forall>tab n r w. se_alloc E tab n = Some (r, w) \<longrightarrow> r < limit \<and> w < limit) \<and>
         (\<forall>fd \<in> all_targets startup. 3 \<le> fd \<and> fdt s fd \<noteq> None) \<and>
         dev_fd (ce_cad (se_child E)) = None)"

lemma early_closed_kept: "early_closed startup pin pout perr = kept startup pin pout perr"
  by (auto simp: early_closed_def kept_def own_defs)

text \<open>One stream as the child and the parent see it.\<close>

definition source_ok :: "bool \<Rightarrow> redirect_info \<Rightarrow> fds \<Rightarrow> fdtab \<Rightarrow> nat \<Rightarrow> bool" where
  "source_ok used r p tab n0 \<longleftrightarrow>
     (if \<not> used then p = no_fds
      else if redirected r then p = \<lparr>pread = target r, pwrite = target r\<rparr>
      else \<exists>k \<ge> n0. map_option obj (tab (pread p)) = Some (Pipe_R k) \<and> map_option obj (tab (pwrite p)) = Some (Pipe_W k))"

context pipe_alloc
begin

lemma bind_stream_source:
  assumes "bind_stream A used r s = (True, p, s')" and "n0 \<le> npipe s"
  shows "source_ok used r p (fdt s') n0" "npipe s \<le> npipe s'"
    "\<forall>fd. fdt s fd \<noteq> None \<longrightarrow> fdt s' fd = fdt s fd"
proof -
  consider "piped used r" | "\<not> piped used r" by blast
  then have "source_ok used r p (fdt s') n0 \<and> npipe s \<le> npipe s' \<and>
    (\<forall>fd. fdt s fd \<noteq> None \<longrightarrow> fdt s' fd = fdt s fd)"
  proof cases
    case 1
    note b = bind_stream_piped[OF assms(1) 1]
    from 1 b(4) assms(2) have "source_ok used r p (fdt s') n0"
      by (auto simp: source_ok_def piped_def b(1))
    moreover have "fdt s' fd = fdt s fd" if "fdt s fd \<noteq> None" for fd
      using that b(1-3) by auto
    ultimately show ?thesis using b(7) by auto
  next
    case 2
    with bind_stream_unpiped[OF assms(1)] show ?thesis by (auto simp: source_ok_def piped_def)
  qed
  then show "source_ok used r p (fdt s') n0" "npipe s \<le> npipe s'"
    "\<forall>fd. fdt s fd \<noteq> None \<longrightarrow> fdt s' fd = fdt s fd" by auto
qed

lemma source_ok_mono:
  "source_ok used r p tab n0 \<Longrightarrow> (\<forall>fd. tab fd \<noteq> None \<longrightarrow> tab' fd = tab fd) \<Longrightarrow> source_ok used r p tab' n0"
  by (fastforce simp: source_ok_def split: if_splits)

lemma bound_sources:
  assumes "bound A startup s pin pout perr s3"
  shows "source_ok (\<not> st_inherit_stdin startup) (st_stdin startup) pin (fdt s3) (npipe s)"
    "source_ok (\<not> st_inherit_stdout startup) (st_stdout startup) pout (fdt s3) (npipe s)"
    "source_ok (\<not> st_merge_outputs startup \<and> \<not> st_inherit_stderr startup) (st_stderr startup) perr
       (fdt s3) (npipe s)"
proof -
  from assms obtain s1 s2 where
    b1: "bind_stream A (\<not> st_inherit_stdin startup) (st_stdin startup) s = (True, pin, s1)" and
    b2: "bind_stream A (\<not> st_inherit_stdout startup) (st_stdout startup) s1 = (True, pout, s2)" and
    b3: "bind_stream A (\<not> st_merge_outputs startup \<and> \<not> st_inherit_stderr startup) (st_stderr startup) s2
          = (True, perr, s3)" by (auto simp: bound_def)
  note 1 = bind_stream_source[OF b1 order.refl]
  note 2 = bind_stream_source[OF b2 1(2)]
  have n: "npipe s \<le> npipe s2" using 1(2) bind_stream_source(2)[OF b2 order.refl] by simp
  note 3 = bind_stream_source[OF b3 n]
  show "source_ok (\<not> st_inherit_stdin startup) (st_stdin startup) pin (fdt s3) (npipe s)"
    by (rule source_ok_mono[OF source_ok_mono[OF 1(1) 2(3)] 3(3)])
  show "source_ok (\<not> st_inherit_stdout startup) (st_stdout startup) pout (fdt s3) (npipe s)"
    by (rule source_ok_mono[OF 2(1) 3(3)])
  show "source_ok (\<not> st_merge_outputs startup \<and> \<not> st_inherit_stderr startup) (st_stderr startup) perr
       (fdt s3) (npipe s)" by (rule 3(1))
qed

end

definition within :: "int \<Rightarrow> os \<Rightarrow> bool" where
  "within limit s \<longleftrightarrow> (\<forall>fd. fdt s fd \<noteq> None \<longrightarrow> 0 \<le> fd \<and> fd < limit)"

context pipe_alloc
begin

lemma bind_stream_within:
  assumes "bind_stream A used r s = (True, p, s')" and "within limit s"
    and "\<forall>tab n r w. A tab n = Some (r, w) \<longrightarrow> r < limit \<and> w < limit"
  shows "within limit s'"
proof (cases "piped used r")
  case True
  note b = bind_stream_piped[OF assms(1) True]
  show ?thesis using assms(2,3) b(5,6,8) by (auto simp: within_def b(1))
next
  case False
  with bind_stream_unpiped[OF assms(1) False] assms(2) show ?thesis by simp
qed

lemma bound_within:
  assumes "bound A startup s pin pout perr s3" and "within limit s"
    and "\<forall>tab n r w. A tab n = Some (r, w) \<longrightarrow> r < limit \<and> w < limit"
  shows "within limit s3"
  using assms bind_stream_within by (fastforce simp: bound_def)

lemma dup_sources_cases:
  assumes "bound A startup s pin pout perr s3" and "fd \<in> dup_sources startup pin pout perr"
  shows "fd \<in> dropped startup pin pout perr \<or> fd \<in> all_targets startup"
proof -
  note b = bound_sources[OF assms(1)]
  have i: "pread pin = target (st_stdin startup)" if "\<not> st_inherit_stdin startup" "redirected (st_stdin startup)"
    using b(1) that by (simp add: source_ok_def)
  have o: "pwrite pout = target (st_stdout startup)" if "\<not> st_inherit_stdout startup" "redirected (st_stdout startup)"
    using b(2) that by (simp add: source_ok_def)
  have e: "pwrite perr = target (st_stderr startup)"
    if "\<not> st_merge_outputs startup" "\<not> st_inherit_stderr startup" "redirected (st_stderr startup)"
    using b(3) that by (simp add: source_ok_def)
  show ?thesis using assms(2) i o e
    by (auto simp: dup_sources_def dropped_def all_targets_def redirect_targets_def own_defs split: if_splits)
qed

text \<open>The descriptors of the parent at \<open>fork\<close> meet the conditions of \<open>child_proc_spec\<close>.\<close>

lemma fork_table_ok:
  assumes b: "bound A startup s pin pout perr s3" and m: "make_fail_pipe pf A s3 = (True, pfail, s1)"
    and A: "A = se_alloc E" and p: "parent_ok E startup s"
  shows "child_fds_ok startup pin pout perr (fdt s1)"
    "fail_fd_ok startup pin pout perr pfail (fdt s1)"
    "fds_bounded (ce_cad (se_child E)) (pwrite pfail) (fdt s1)"
    "\<forall>fd. fdt s3 fd \<noteq> None \<longrightarrow> fdt s1 fd = fdt s3 fd"
    "\<forall>fd. fdt s fd \<noteq> None \<longrightarrow> fdt s3 fd = fdt s fd"
proof -
  note g = bound_gains[OF b]
  note kd = kept_dropped[OF b]
  note mp = make_fail_pipe_True[OF m]
  let ?limit = "fd_limit (open_max (ce_cad (se_child E)))"
  note pk = p[unfolded parent_ok_def Let_def]
  have al: "\<forall>tab n r w. A tab n = Some (r, w) \<longrightarrow> r < ?limit \<and> w < ?limit" using pk unfolding A by blast
  have wi: "within ?limit s" using pk unfolding within_def by blast
  show s3: "\<forall>fd. fdt s fd \<noteq> None \<longrightarrow> fdt s3 fd = fdt s fd" using g unfolding gains_def by metis
  obtain ce where t1: "fdt s1 = (fdt s3)(pread pfail \<mapsto> \<lparr>obj = Pipe_R (npipe s3), cloexec = ce\<rparr>,
    pwrite pfail \<mapsto> \<lparr>obj = Pipe_W (npipe s3), cloexec = ce\<rparr>)" using mp(1) by blast
  show s1: "\<forall>fd. fdt s3 fd \<noteq> None \<longrightarrow> fdt s1 fd = fdt s3 fd" using t1 mp(2,3) by auto
  have fresh: "3 \<le> fd" if "0 \<le> fd" "fdt s fd = None" for fd
  proof (rule ccontr)
    assume "\<not> 3 \<le> fd"
    with that(1) have "fd = 0 \<or> fd = 1 \<or> fd = 2" by auto
    with pk that(2) show False by force
  qed
  have pipes: "3 \<le> fd \<and> fdt s3 fd \<noteq> None" if "fd \<in> all_pipes startup pin pout perr" for fd
    using g that fresh[of fd] by (auto simp: gains_def)
  have sub: "kept startup pin pout perr \<subseteq> all_pipes startup pin pout perr"
    "dropped startup pin pout perr \<subseteq> all_pipes startup pin pout perr"
    by (auto simp: kept_def dropped_def all_pipes_def)
  have srcs: "3 \<le> fd \<and> fdt s3 fd \<noteq> None \<and> fd \<notin> kept startup pin pout perr"
    if "fd \<in> dup_sources startup pin pout perr" for fd
  proof (cases "fd \<in> dropped startup pin pout perr")
    case True
    with pipes sub kd(2) show ?thesis by blast
  next
    case False
    with dup_sources_cases[OF b that] pk have "3 \<le> fd" "fdt s fd \<noteq> None" by auto
    moreover have "fd \<notin> all_pipes startup pin pout perr" using g \<open>fdt s fd \<noteq> None\<close> by (auto simp: gains_def)
    ultimately show ?thesis using s3 sub by auto
  qed
  show "child_fds_ok startup pin pout perr (fdt s1)"
    using srcs pipes sub s1 by (auto simp: child_fds_ok_def early_closed_kept)
  have f3: "fdt s (pread pfail) = None" "fdt s (pwrite pfail) = None" using s3 mp(2,3) by (metis not_None_eq)+
  have pf3: "3 \<le> pread pfail" "3 \<le> pwrite pfail" using fresh f3 mp(5,6) by auto
  show "fail_fd_ok startup pin pout perr pfail (fdt s1)"
  proof -
    have "fd \<notin> kept startup pin pout perr" "fd \<notin> dup_sources startup pin pout perr"
      if "fdt s3 fd = None" for fd using that srcs pipes sub by blast+
    with pf3 mp(2-4) show ?thesis by (simp add: fail_fd_ok_def t1 early_closed_kept)
  qed
  have lim: "0 \<le> fd \<and> fd < ?limit" if "fdt s1 fd \<noteq> None" for fd
  proof (cases "fd = pread pfail \<or> fd = pwrite pfail")
    case True
    with mp(5-7) al show ?thesis by blast
  next
    case False
    then have "fdt s1 fd = fdt s3 fd" by (simp add: t1)
    with that bound_within[OF b wi al] show ?thesis by (simp add: within_def)
  qed
  show "fds_bounded (ce_cad (se_child E)) (pwrite pfail) (fdt s1)"
    using lim conjunct2[OF conjunct2[OF conjunct2[OF conjunct2[OF pk]]]] by (simp add: fds_bounded_def lists_open_def)
qed

end

context pipe_alloc
begin

text \<open>The table of the program that was started, with the parent's table after it.\<close>

lemma success_tables:
  assumes c: "create_process pf E startup info s = Some (Inr info', s', Some (Child_exec prog as block t))"
    and A: "A = se_alloc E" and p: "parent_ok E startup s" and cmd: "st_cmdline startup = file # args"
  shows "\<exists>pin pout perr s3 tab pid. bound A startup s pin pout perr s3 \<and>
     child_fds_ok startup pin pout perr tab \<and> t = std_table startup pin pout perr tab \<and>
     (\<forall>fd. fdt s3 fd \<noteq> None \<longrightarrow> tab fd = fdt s3 fd) \<and> (\<forall>fd. fdt s fd \<noteq> None \<longrightarrow> fdt s3 fd = fdt s fd) \<and>
     info' = fst (parent_success E startup info pid pin pout perr (fdt s3)) \<and>
     (\<forall>fd \<in> kept startup pin pout perr. fdt s' fd = fdt s3 fd)"
proof -
  from create_process_cases[OF c A] obtain pin pout perr s3 arrays where
    b: "bound A startup s pin pout perr s3" and
    i: "create_process_impl pf E startup info pin pout perr s3 =
          Some (Inr info', arrays, s', Some (Child_exec prog as block t))"
    by (auto split: sum.splits)
  from impl_outcome[OF A i] obtain pfail s1 pid where
    m: "make_fail_pipe pf A s3 = (True, pfail, s1)" and
    ch: "child_proc pf (se_child E) startup pin pout perr pfail
            (prebuilt_envp (se_order E) (ce_environ (se_child E)) startup) (fdt s1) = Child_exec prog as block t" and
    inf: "info' = fst (parent_success E startup info pid pin pout perr (fdt s3))" and
    tb: "fdt s' = snd (snd (parent_success E startup info pid pin pout perr (fdt s3)))" by auto
  note f = fork_table_ok[OF b m A p]
  have "t = std_table startup pin pout perr (fdt s1)" by (rule child_exec_table[OF f(1-3) cmd ch])
  moreover have "fdt s' fd = fdt s3 fd" if "fd \<in> kept startup pin pout perr" for fd
    using that kept_dropped(2)[OF b] unfolding tb parent_success_table
    by (auto simp: close_if_def close_fd_def sys_close_def dropped_def)
  ultimately show ?thesis using b f inf by blast
qed

end

text \<open>The parent always gets its answer from the failure pipe.\<close>

lemma read_fail_pipe:
  "\<exists>w. read_fully pipe_read 4 4 [] (content, rs) =
     Some (int (length (take 4 content)), take 4 content, w)"
  using rpipe.read_fully_all[of 4 "(content, rs)"] by auto

lemma impl_eq:
  assumes m: "make_fail_pipe pf (se_alloc E) s = (True, pfail, s1)" and f: "se_fork E = Some pid"
    and o: "outcome = child_proc pf (se_child E) startup pin pout perr pfail
       (prebuilt_envp (se_order E) (ce_environ (se_child E)) startup) (fdt s1)"
    and c: "content = fail_content (se_killed E) outcome"
  shows "\<exists>tab. create_process_impl pf E startup info pin pout perr s = Some
    (if content = [] then
       (case parent_success E startup info pid pin pout perr tab of
          (info', arrays', tab') \<Rightarrow> (Inr info', arrays', s1\<lparr>fdt := tab'\<rparr>, Some outcome))
     else
       (Inl (Runtime_error
          (if length (take 4 content) = 4
           then ''child exec failed: '' @ se_strerror E (sint (int_of_bytes (take 4 content)))
           else ''read failed: '' @ se_strerror E (se_read_errno E))),
        (pin, pout, perr), s1\<lparr>fdt := tab\<rparr>, Some outcome))"
proof -
  obtain p2 t2 where w: "close_write (pfail, fdt s1) = (p2, t2)" by fastforce
  obtain w where r: "read_fully pipe_read 4 4 [] (content, se_reads E) =
      Some (int (length (take 4 content)), take 4 content, w)"
    using read_fail_pipe by blast
  have z: "int (length (take 4 content)) = 0 \<longleftrightarrow> content = []"
    "int (length (take 4 content)) = 4 \<longleftrightarrow> length (take 4 content) = 4"
    by (cases content; auto)+
  show ?thesis
    unfolding create_process_impl_def m f Let_def prod.case bool.case option.case o[symmetric] c[symmetric] w r z
    by (rule exI[of _ "snd (close_read (p2, t2))"]) (simp split: prod.split)
qed

lemma impl_answer:
  assumes "make_fail_pipe pf (se_alloc E) s = (True, pfail, s1)" and "se_fork E = Some pid"
    and o: "outcome = child_proc pf (se_child E) startup pin pout perr pfail
       (prebuilt_envp (se_order E) (ce_environ (se_child E)) startup) (fdt s1)"
  shows "\<exists>r arrays s'. create_process_impl pf E startup info pin pout perr s = Some (r, arrays, s', Some outcome) \<and>
     ((\<exists>info'. r = Inr info') \<longleftrightarrow> fail_content (se_killed E) outcome = [])"
proof -
  obtain tab where "create_process_impl pf E startup info pin pout perr s = Some
    (if fail_content (se_killed E) outcome = [] then
       (case parent_success E startup info pid pin pout perr tab of
          (info', arrays', tab') \<Rightarrow> (Inr info', arrays', s1\<lparr>fdt := tab'\<rparr>, Some outcome))
     else
       (Inl (Runtime_error
          (if length (take 4 (fail_content (se_killed E) outcome)) = 4
           then ''child exec failed: '' @
             se_strerror E (sint (int_of_bytes (take 4 (fail_content (se_killed E) outcome))))
           else ''read failed: '' @ se_strerror E (se_read_errno E))),
        (pin, pout, perr), s1\<lparr>fdt := tab\<rparr>, Some outcome))"
    using impl_eq[OF assms(1,2) refl refl, of startup info pin pout perr] unfolding o by blast
  then show ?thesis
    by (cases "fail_content (se_killed E) outcome = []";
        cases "parent_success E startup info pid pin pout perr tab") auto
qed

lemma impl_returns: "create_process_impl pf E startup info pin pout perr s \<noteq> None"
proof -
  obtain ok pfail s1 where m: "make_fail_pipe pf (se_alloc E) s = (ok, pfail, s1)" by (metis prod_cases3)
  show ?thesis
  proof (cases ok)
    case False
    with m show ?thesis by (simp add: create_process_impl_def Let_def)
  next
    case True
    with m have m: "make_fail_pipe pf (se_alloc E) s = (True, pfail, s1)" by simp
    show ?thesis
    proof (cases "se_fork E")
      case None
      with m show ?thesis by (simp add: create_process_impl_def Let_def)
    next
      case (Some pid)
      from impl_answer[OF m this refl, of startup info pin pout perr] show ?thesis by auto
    qed
  qed
qed

lemma impl_child:
  assumes "create_process_impl pf E startup info pin pout perr s = Some (r, arrays, s', Some outcome)"
  obtains pfail s1 pid where "make_fail_pipe pf (se_alloc E) s = (True, pfail, s1)" "se_fork E = Some pid"
    "outcome = child_proc pf (se_child E) startup pin pout perr pfail
       (prebuilt_envp (se_order E) (ce_environ (se_child E)) startup) (fdt s1)"
proof -
  obtain ok pfail s1 where m: "make_fail_pipe pf (se_alloc E) s = (ok, pfail, s1)" by (metis prod_cases3)
  have ok using assms m by (cases ok) (simp_all add: create_process_impl_def Let_def)
  with m have m: "make_fail_pipe pf (se_alloc E) s = (True, pfail, s1)" by simp
  obtain pid where f: "se_fork E = Some pid"
    using assms m by (cases "se_fork E") (simp_all add: create_process_impl_def Let_def)
  from impl_answer[OF m f refl, of startup info pin pout perr] assms that[OF m f] show ?thesis by auto
qed

lemma impl_verdict:
  assumes "create_process_impl pf E startup info pin pout perr s = Some (r, arrays, s', Some outcome)"
  shows "(\<exists>info'. r = Inr info') \<longleftrightarrow> se_killed E \<or> (\<forall>sent. outcome = Child_failed sent \<longrightarrow> sent = [])"
proof -
  obtain pfail s1 pid where m: "make_fail_pipe pf (se_alloc E) s = (True, pfail, s1)" "se_fork E = Some pid"
    "outcome = child_proc pf (se_child E) startup pin pout perr pfail
       (prebuilt_envp (se_order E) (ce_environ (se_child E)) startup) (fdt s1)"
    by (rule impl_child[OF assms])
  from impl_answer[OF m(1,2) refl, of startup info pin pout perr] assms m(3)
  have "(\<exists>info'. r = Inr info') \<longleftrightarrow> fail_content (se_killed E) outcome = []"
    by simp
  then show ?thesis by (auto simp: fail_content_def split: child_outcome.splits)
qed

lemma restartable_write_error_retries:
  "restartable_write_error pipe_write n (out, replicate k (Inl EINTR)) = Some (out @ int_bytes n, [])"
  by (induction k) (simp_all add: restartable_write_error.simps)

lemma sint_int32: "in_int32 n \<Longrightarrow> sint (word_of_int n :: 32 word) = n"
  by (simp add: sint_sbintrunc' signed_take_bit_int_eq_self in_int32_def)

lemma create_process_returns: "create_process pf E startup info s \<noteq> None"
proof -
  let ?A = "se_alloc E"
  obtain ok1 pin s1 where b1: "bind_stream ?A (\<not> st_inherit_stdin startup) (st_stdin startup) s = (ok1, pin, s1)"
    by (metis prod_cases3)
  obtain ok2 pout s2 where b2: "bind_stream ?A (\<not> st_inherit_stdout startup) (st_stdout startup) s1 = (ok2, pout, s2)"
    by (metis prod_cases3)
  obtain ok3 perr s3 where b3: "bind_stream ?A (\<not> st_merge_outputs startup \<and> \<not> st_inherit_stderr startup)
      (st_stderr startup) s2 = (ok3, perr, s3)"
    by (metis prod_cases3)
  obtain r arrays s4 child where i: "create_process_impl pf E startup info pin pout perr s3 = Some (r, arrays, s4, child)"
    using impl_returns[of pf E startup info pin pout perr s3] by auto
  show ?thesis
    unfolding create_process_def bind_stream_def[symmetric] b1 b2 b3 i Let_def prod.case throw_closing_def option.case
    by (cases r; cases arrays) simp_all
qed

section \<open>A small machine\<close>

definition demo_os :: os where
  "demo_os = \<lparr>fdt = [0 \<mapsto> \<lparr>obj = Other 0, cloexec = False\<rparr>, 1 \<mapsto> \<lparr>obj = Other 1, cloexec = False\<rparr>,
     2 \<mapsto> \<lparr>obj = Other 2, cloexec = False\<rparr>], npipe = 7\<rparr>"

definition demo_spawn :: spawn_env where
  "demo_spawn = \<lparr>se_alloc = posix_alloc 12, se_fork = Some 77,
     se_child = demo_child\<lparr>ce_cad := demo_cad\<lparr>dev_fd := None\<rparr>\<rparr>, se_killed = False, se_reads = [],
     se_read_errno = 0, se_strerror = (\<lambda>e. if e = 2 then ''ENOENT'' else ''other''), se_start_time = (\<lambda>_. 5),
     se_order = id\<rparr>"

text \<open>Three piped streams on a small machine.\<close>

definition demo_piped :: process_startup where
  "demo_piped = inherit_env False (command ''ls'' process_startup_new)"

definition demo_run :: "spawn_result option" where
  "demo_run = create_process Linux demo_spawn demo_piped process_info_new demo_os"

lemma demo_run_result:
  "case demo_run of
     Some (Inr info, s', Some (Child_exec prog as block t)) \<Rightarrow>
       prog = ''/bin/ls'' \<and> recorded info = {4, 5, 7} \<and> pi_stdin info = 4 \<and> pi_stdout info = 5 \<and>
       pi_stderr info = 7
   | _ \<Rightarrow> False"
  unfolding recorded_def by code_simp

lemma demo_run_obtain:
  obtains info s' as block t where
    "create_process Linux demo_spawn demo_piped process_info_new demo_os =
       Some (Inr info, s', Some (Child_exec ''/bin/ls'' as block t))"
    "recorded info = {4, 5, 7}" "pi_stdin info = 4" "pi_stdout info = 5" "pi_stderr info = 7"
proof -
  obtain r s' c where d: "demo_run = Some (r, s', c)"
    using demo_run_result by (cases demo_run) auto
  obtain info where r: "r = Inr info" using demo_run_result by (cases r) (auto simp: d)
  obtain prog as block t where c: "c = Some (Child_exec prog as block t)"
    using demo_run_result by (cases c; cases "the c") (auto simp: d r)
  show ?thesis using demo_run_result that[of info s' as block t] d by (simp add: r c demo_run_def)
qed

lemma demo_alloc: "pipe_alloc (se_alloc demo_spawn)"
  by (simp add: demo_spawn_def posix.pipe_alloc_axioms)

text \<open>What the streams of a started program \<open>t\<close> are connected to.\<close>

definition connected :: "process_startup \<Rightarrow> os \<Rightarrow> os \<Rightarrow> process_info \<Rightarrow> fdtab \<Rightarrow> bool" where
  "connected startup s s' info' t \<longleftrightarrow> dom t \<subseteq> {0, 1, 2} \<and>
    (if st_inherit_stdin startup then file_of t 0 = file_of (fdt s) 0
     else if redirected (st_stdin startup) then file_of t 0 = file_of (fdt s) (target (st_stdin startup))
     else \<exists>k \<ge> npipe s. file_of t 0 = Some (Pipe_R k) \<and> file_of (fdt s') (pi_stdin info') = Some (Pipe_W k)) \<and>
    (if st_inherit_stdout startup then file_of t 1 = file_of (fdt s) 1
     else if redirected (st_stdout startup) then file_of t 1 = file_of (fdt s) (target (st_stdout startup))
     else \<exists>k \<ge> npipe s. file_of t 1 = Some (Pipe_W k) \<and> file_of (fdt s') (pi_stdout info') = Some (Pipe_R k)) \<and>
    (if st_merge_outputs startup then file_of t 2 = file_of t 1
     else if st_inherit_stderr startup then file_of t 2 = file_of (fdt s) 2
     else if redirected (st_stderr startup) then file_of t 2 = file_of (fdt s) (target (st_stderr startup))
     else \<exists>k \<ge> npipe s. file_of t 2 = Some (Pipe_W k) \<and> file_of (fdt s') (pi_stderr info') = Some (Pipe_R k))"

lemma success_connected:
  assumes "pipe_alloc (se_alloc E)" and "parent_ok E startup s" and "st_cmdline startup = file # args"
    and "create_process pf E startup info s = Some (Inr info', s', Some (Child_exec prog as block t))"
  shows "connected startup s s' info' t"
proof -
  from pipe_alloc.success_tables[OF assms(1,4) refl assms(2,3)] obtain pin pout perr s3 tab pid where
    b: "bound (se_alloc E) startup s pin pout perr s3" and ok: "child_fds_ok startup pin pout perr tab" and
    t: "t = std_table startup pin pout perr tab" and
    tab: "\<forall>fd. fdt s3 fd \<noteq> None \<longrightarrow> tab fd = fdt s3 fd" and s3: "\<forall>fd. fdt s fd \<noteq> None \<longrightarrow> fdt s3 fd = fdt s fd" and
    inf: "info' = fst (parent_success E startup info pid pin pout perr (fdt s3))" and
    kp: "\<forall>fd \<in> kept startup pin pout perr. fdt s' fd = fdt s3 fd" by blast
  have both: "tab fd = fdt s fd" if "fdt s fd \<noteq> None" for fd using tab s3 that by metis
  note pk = assms(2)[unfolded parent_ok_def Let_def]
  have std: "\<exists>e. fdt s n = Some e \<and> \<not> cloexec e" if "n \<in> {0, 1, 2}" for n using pk that by blast
  have low: "tab n = fdt s n" if "n \<in> {0, 1, 2}" for n using std[OF that] both[of n] by auto
  have nc: "\<forall>n \<in> {0, 1, 2}. \<forall>e. tab n = Some e \<longrightarrow> \<not> cloexec e"
  proof (intro ballI allI impI)
    fix n e assume "n \<in> {0, 1, 2 :: int}" "tab n = Some e"
    with std[of n] low[of n] show "\<not> cloexec e" by auto
  qed
  have n1: "st_merge_outputs startup \<and> st_inherit_stdout startup \<longrightarrow> tab 1 \<noteq> None"
    using std[of 1] low[of 1] by auto
  have f: "dom t \<subseteq> {0, 1, 2} \<and>
    file_of t 0 = file_of tab (if st_inherit_stdin startup then 0 else pread pin) \<and>
    file_of t 1 = file_of tab (if st_inherit_stdout startup then 1 else pwrite pout) \<and>
    file_of t 2 = (if st_merge_outputs startup then file_of t 1
       else file_of tab (if st_inherit_stderr startup then 2 else pwrite perr))"
    by (rule std_table_files[OF ok nc n1 t])
  have tg: "tab fd = fdt s fd" if "fd \<in> all_targets startup" for fd using pk that both by blast
  have use: "file_of tab fd = Some x" if "file_of (fdt s3) fd = Some x" for fd x
    using that tab by (metis option.map(1) option.distinct(1))
  note src = pipe_alloc.bound_sources[OF assms(1) b]
  have i: "if st_inherit_stdin startup then file_of t 0 = file_of (fdt s) 0
     else if redirected (st_stdin startup) then file_of t 0 = file_of (fdt s) (target (st_stdin startup))
     else \<exists>k \<ge> npipe s. file_of t 0 = Some (Pipe_R k) \<and> file_of (fdt s') (pi_stdin info') = Some (Pipe_W k)"
    using f src(1) low tg use kp
    by (auto simp: source_ok_def all_targets_def redirect_targets_def inf parent_success_info own_defs kept_def)
  have o: "if st_inherit_stdout startup then file_of t 1 = file_of (fdt s) 1
     else if redirected (st_stdout startup) then file_of t 1 = file_of (fdt s) (target (st_stdout startup))
     else \<exists>k \<ge> npipe s. file_of t 1 = Some (Pipe_W k) \<and> file_of (fdt s') (pi_stdout info') = Some (Pipe_R k)"
    using f src(2) low tg use kp
    by (auto simp: source_ok_def all_targets_def redirect_targets_def inf parent_success_info own_defs kept_def)
  have e: "if st_merge_outputs startup then file_of t 2 = file_of t 1
     else if st_inherit_stderr startup then file_of t 2 = file_of (fdt s) 2
     else if redirected (st_stderr startup) then file_of t 2 = file_of (fdt s) (target (st_stderr startup))
     else \<exists>k \<ge> npipe s. file_of t 2 = Some (Pipe_W k) \<and> file_of (fdt s') (pi_stderr info') = Some (Pipe_R k)"
    using f src(3) low tg use kp
    by (auto simp: source_ok_def all_targets_def redirect_targets_def inf parent_success_info own_defs kept_def)
  from f i o e show ?thesis unfolding connected_def by blast
qed

section \<open>Properties\<close>


lemma demo_parent_ok: "parent_ok demo_spawn demo_piped demo_os"
proof -
  have "fd_limit (open_max (ce_cad (se_child demo_spawn))) = 256"
    by (simp add: demo_spawn_def demo_cad_def fd_limit_def to_int32_def)
  moreover have "all_targets demo_piped = {}" by code_simp
  moreover have "dev_fd (ce_cad (se_child demo_spawn)) = None" by (simp add: demo_spawn_def)
  moreover have "r < 256 \<and> w < 256" if "se_alloc demo_spawn tab n = Some (r, w)" for tab n r w
    using posix_alloc_below[of 12 tab n r w] that by (simp add: demo_spawn_def)
  ultimately show ?thesis by (auto simp: parent_ok_def demo_os_def Let_def)
qed




text \<open>
  C19. The \<open>errno\<close> with which the child failed reaches the caller of the parent: the
  exception's text is that of the very \<open>errno\<close>, for any number of interrupted writes and
  any schedule of reads, when the system writes the four bytes at once.
\<close>

theorem exec_errno_reaches_parent:
  assumes "make_fail_pipe pf (se_alloc E) s = (True, pfail, s1)" and "se_fork E = Some pid"
    and "\<not> se_killed E" and "in_int32 errno"
    and "ce_writes (se_child E) = replicate k (Inl EINTR)"
    and "child_proc pf (se_child E) startup pin pout perr pfail
           (prebuilt_envp (se_order E) (ce_environ (se_child E)) startup) (fdt s1) =
         exit_with_error (se_child E) errno"
  shows "\<exists>s'. create_process_impl pf E startup info pin pout perr s =
    Some (Inl (Runtime_error (''child exec failed: '' @ se_strerror E errno)), (pin, pout, perr), s',
          Some (Child_failed (int_bytes (word_of_int errno))))"
proof -
  have o: "exit_with_error (se_child E) errno = Child_failed (int_bytes (word_of_int errno))"
    by (simp add: exit_with_error_def restartable_write_error_retries assms(5))
  have "sint (word_of_int errno :: 32 word) = errno" using assms(4) by (rule sint_int32)
  moreover have "fail_content (se_killed E) (Child_failed (int_bytes (word_of_int errno))) =
      int_bytes (word_of_int errno)" using assms(3) by (simp add: fail_content_def)
  moreover have "int_bytes (word_of_int errno) \<noteq> []" by (simp add: int_bytes_def)
  ultimately show ?thesis
    using impl_eq[OF assms(1,2) refl refl, of startup info pin pout perr] by (auto simp: assms(6) o)
qed

definition demo_no_dir :: spawn_env where
  "demo_no_dir = demo_spawn\<lparr>se_child := (se_child demo_spawn)\<lparr>ce_chdir := \<lambda>_. Some ENOENT,
     ce_writes := [Inl EINTR, Inl EINTR]\<rparr>\<rparr>"

theorem exec_errno_reaches_parent_witness:
  "\<exists>s'. create_process_impl Linux demo_no_dir demo_piped process_info_new no_fds no_fds no_fds demo_os =
    Some (Inl (Runtime_error ''child exec failed: ENOENT''), (no_fds, no_fds, no_fds), s',
          Some (Child_failed (int_bytes 2)))"
proof -
  obtain s1 where m: "make_fail_pipe Linux (se_alloc demo_no_dir) demo_os = (True, \<lparr>pread = 3, pwrite = 4\<rparr>, s1)"
  proof -
    have "fst (make_fail_pipe Linux (se_alloc demo_no_dir) demo_os)"
      "fst (snd (make_fail_pipe Linux (se_alloc demo_no_dir) demo_os)) = \<lparr>pread = 3, pwrite = 4\<rparr>"
      by code_simp+
    with that show thesis by (metis prod.collapse)
  qed
  have f: "se_fork demo_no_dir = Some 77" "\<not> se_killed demo_no_dir" "in_int32 ENOENT"
    "ce_writes (se_child demo_no_dir) = replicate 2 (Inl EINTR)"
    by (simp_all add: demo_no_dir_def demo_spawn_def in_int32_def numeral_2_eq_2)
  have c: "child_proc Linux (se_child demo_no_dir) demo_piped no_fds no_fds no_fds \<lparr>pread = 3, pwrite = 4\<rparr>
        (prebuilt_envp (se_order demo_no_dir) (ce_environ (se_child demo_no_dir)) demo_piped) (fdt s1) =
      exit_with_error (se_child demo_no_dir) ENOENT"
    by (simp add: child_proc_def demo_no_dir_def Let_def split: prod.split)
  have "se_strerror demo_no_dir ENOENT = ''ENOENT''" by (simp add: demo_no_dir_def demo_spawn_def)
  with exec_errno_reaches_parent[OF m f c, of process_info_new] show ?thesis by simp
qed

text \<open>
  C2. A started process costs the parent exactly the pipe ends that \<open>process_info\<close>
  records: every other descriptor is as before, the recorded ones are new, and closing the
  process gives the table back as it was.
\<close>

theorem create_process_no_leak:
  assumes "pipe_alloc (se_alloc E)"
    and "create_process pf E startup info s = Some (Inr info', s', child)"
  shows "(\<forall>fd. fd \<notin> recorded info' \<longrightarrow> fdt s' fd = fdt s fd) \<and>
    (\<forall>fd \<in> recorded info'. fdt s fd = None \<and> fdt s' fd \<noteq> None) \<and>
    snd (close_process info' (fdt s')) = fdt s"
  using pipe_alloc.success_gains[OF assms refl] close_process_gains by (auto simp: gains_def)

theorem create_process_no_leak_witness:
  "\<exists>info s' child. create_process Linux demo_spawn demo_piped process_info_new demo_os = Some (Inr info, s', child)
     \<and> fdt s' 4 \<noteq> None \<and> fdt s' 3 = None \<and> snd (close_process info (fdt s')) = fdt demo_os"
proof -
  obtain info s' as block t where r: "create_process Linux demo_spawn demo_piped process_info_new demo_os =
      Some (Inr info, s', Some (Child_exec ''/bin/ls'' as block t))" "recorded info = {4, 5, 7}"
    by (rule demo_run_obtain)
  from create_process_no_leak[OF demo_alloc r(1)] r(2) have
    "fdt s' 3 = fdt demo_os 3" "fdt s' 4 \<noteq> None" "snd (close_process info (fdt s')) = fdt demo_os"
    by auto
  moreover have "fdt demo_os 3 = None" by (simp add: demo_os_def)
  ultimately show ?thesis using r(1) by auto
qed

text \<open>
  C14. A process that could not be started leaves no descriptor behind: the table is what it
  was, except that a failure to bind a later stream may have closed the user's redirect
  targets of standard input and output; once all streams are bound nothing is lost.
\<close>

theorem create_process_failure_restores:
  assumes "pipe_alloc (se_alloc E)"
    and "create_process pf E startup info s = Some (Inl e, s', child)"
  shows "(\<forall>fd. fd \<notin> redirect_targets startup \<longrightarrow> fdt s' fd = fdt s fd) \<and>
    (e \<noteq> Runtime_error ''unable to bind stdout'' \<and> e \<noteq> Runtime_error ''unable to bind stderr'' \<longrightarrow>
       fdt s' = fdt s)"
proof (cases "bind_failed (se_alloc E) startup s e (fdt s')")
  case True
  with pipe_alloc.bind_failed_table[OF assms(1) True] show ?thesis by (auto simp: bind_failed_def)
next
  case False
  with pipe_alloc.failure_restores[OF assms refl] show ?thesis by simp
qed

definition demo_failed :: "spawn_result option" where
  "demo_failed = create_process Linux (demo_spawn\<lparr>se_fork := None\<rparr>) demo_piped process_info_new demo_os"

lemma demo_failed_result:
  "case demo_failed of
     Some (Inl e, s', child) \<Rightarrow> e = Runtime_error ''unable to fork subprocess''
   | _ \<Rightarrow> False"
  by code_simp

theorem create_process_failure_restores_witness:
  "\<exists>s' child. create_process Linux (demo_spawn\<lparr>se_fork := None\<rparr>) demo_piped process_info_new demo_os = Some (Inl (Runtime_error ''unable to fork subprocess''), s', child)
     \<and> fdt s' = fdt demo_os"
proof -
  obtain s' child where r: "create_process Linux (demo_spawn\<lparr>se_fork := None\<rparr>) demo_piped process_info_new demo_os =
      Some (Inl (Runtime_error ''unable to fork subprocess''), s', child)"
  proof -
    obtain x s' child where d: "demo_failed = Some (x, s', child)"
      using demo_failed_result by (cases demo_failed) auto
    have "x = Inl (Runtime_error ''unable to fork subprocess'')"
      using demo_failed_result by (cases x) (simp_all add: d)
    with d that show thesis by (simp add: demo_failed_def)
  qed
  from create_process_failure_restores[OF _ r] demo_alloc have "fdt s' = fdt demo_os" by simp
  with r show ?thesis by blast
qed

text \<open>
  The exception to that: with standard input redirected to a descriptor of the user,
  the failure to create the pipe of standard output closes the user's descriptor.
\<close>

theorem bind_failure_closes_target:
  assumes "\<not> st_inherit_stdin startup" and "redirected (st_stdin startup)"
    and "own_out startup" and "se_alloc E (fdt s) (npipe s) = None"
  shows "\<exists>s'. create_process pf E startup info s =
      Some (Inl (Runtime_error ''unable to bind stdout''), s', None) \<and>
    fdt s' (target (st_stdin startup)) = None"
  using assms
  by (auto simp: create_process_def redirect_or_pipe_def create_pipe_def sys_pipe_def throw_closing_def own_defs
      fd_simps redirected_def Let_def)

theorem bind_failure_closes_target_witness:
  "\<exists>s'. create_process Linux (demo_spawn\<lparr>se_alloc := posix_alloc 3\<rparr>)
       (redirect_stdin 0 process_startup_new) process_info_new demo_os =
     Some (Inl (Runtime_error ''unable to bind stdout''), s', None) \<and> fdt s' 0 = None"
proof -
  have n: "se_alloc (demo_spawn\<lparr>se_alloc := posix_alloc 3\<rparr>) (fdt demo_os) (npipe demo_os) = None"
    by code_simp
  have "own_out (redirect_stdin 0 process_startup_new)" "\<not> st_inherit_stdin (redirect_stdin 0 process_startup_new)"
    "redirected (st_stdin (redirect_stdin 0 process_startup_new))" by code_simp+
  from bind_failure_closes_target[OF this(2,3,1) n, of Linux process_info_new]
  show ?thesis by (simp add: redirect_stdin_def)
qed

end
