(* ===== verification/Proc_Handle.thy ===== *)
theory Proc_Handle
  imports Wait_Unix Fd_Stream Spawn
begin

text \<open>
  The class \<open>process\<close> of \<open>include/mozart++/mpp_system/process.hpp\<close>: the handle of a
  started process with its cached exit code and up to three jobs on libuv's thread pool
  (a waiter and two readers).  The operations run on the thread of the event loop; the
  pool, the child and the passing of time are steps of the environment, which happen
  while that thread sleeps or blocks.
\<close>

section \<open>State\<close>

text \<open>
  An \<open>async_work\<close> with the state of its request in the pool.  \<open>Worked\<close> means that the
  work callback has returned; the flag \<open>done\<close> is set later, when the loop runs.
\<close>

datatype phase = Queued | Working | Worked | Cancelled

record async_work =
  aw_phase :: phase
  aw_done :: bool
  aw_exit_code :: int
  aw_output :: string

definition async_work_new :: async_work where
  "async_work_new = \<lparr>aw_phase = Queued, aw_done = False, aw_exit_code = 0, aw_output = []\<rparr>"

datatype child = Alive | Zombie | Reaped

datatype env = Child_exits | Start_wait | Start_out | Start_err | Finish_wait | Finish_out | Finish_err

text \<open>
  \<open>member_holder\<close>, and the world around it: the child with the code it will exit with,
  whether it reads its input to the end first and whether its output has to be read for it
  to go on, the text that is still to come through its output pipes (including what a stream
  buffer of the handle has read ahead), the size of the thread pool, the results
  of \<open>uv_queue_work\<close> (success when the list is used up), the descriptors of this process, and
  the steps that the environment will take.
\<close>

record holder =
  hd_info :: process_info
  hd_stdin :: fdoutbuf
  hd_exit_code :: "int option"
  hd_observed_exited :: bool
  hd_out_work :: "async_work option"
  hd_err_work :: "async_work option"
  hd_wait_work :: "async_work option"
  w_child :: child
  w_code :: int
  w_needs_eof :: bool
  w_needs_drain :: bool
  w_out :: string
  w_err :: string
  w_pool :: nat
  w_submit :: "bool list"
  w_fdt :: fdtab
  w_env :: "env list"

section \<open>The environment\<close>

definition is_working :: "async_work option \<Rightarrow> bool" where
  "is_working w = (case w of None \<Rightarrow> False | Some a \<Rightarrow> aw_phase a = Working)"

definition reading :: "async_work option \<Rightarrow> bool" where
  "reading w = (case w of None \<Rightarrow> False | Some a \<Rightarrow> aw_phase a = Working \<or> aw_phase a = Worked)"

definition busy :: "holder \<Rightarrow> nat" where
  "busy s = length (filter is_working [hd_wait_work s, hd_out_work s, hd_err_work s])"

definition start_work :: "holder \<Rightarrow> async_work option \<Rightarrow> async_work option" where
  "start_work s w =
     map_option (\<lambda>a. if aw_phase a = Queued \<and> busy s < w_pool s then a\<lparr>aw_phase := Working\<rparr> else a) w"

definition finish_work :: "(async_work \<Rightarrow> async_work) \<Rightarrow> async_work option \<Rightarrow> async_work option" where
  "finish_work f w = map_option (\<lambda>a. if aw_phase a = Working then (f a)\<lparr>aw_phase := Worked\<rparr> else a) w"

definition may_exit :: "holder \<Rightarrow> bool" where
  "may_exit s \<longleftrightarrow>
     (w_needs_eof s \<longrightarrow> pi_stdin (hd_info s) = FD_INVALID) \<and>
     (w_needs_drain s \<longrightarrow>
        (pi_stdout (hd_info s) \<noteq> FD_INVALID \<longrightarrow> reading (hd_out_work s)) \<and>
        (pi_stderr (hd_info s) \<noteq> FD_INVALID \<longrightarrow> reading (hd_err_work s)))"

text \<open>
  The waiter runs \<open>wait_for\<close>: it returns once the child is not alive, with the child's
  code if it reaps it and 0 if the child is already reaped.  A reader returns at end of
  file, when the child is gone, and takes all that was left in its pipe.
\<close>

fun env_step :: "env \<Rightarrow> holder \<Rightarrow> holder" where
  "env_step Child_exits s = (if w_child s = Alive \<and> may_exit s then s\<lparr>w_child := Zombie\<rparr> else s)"
| "env_step Start_wait s = s\<lparr>hd_wait_work := start_work s (hd_wait_work s)\<rparr>"
| "env_step Start_out s = s\<lparr>hd_out_work := start_work s (hd_out_work s)\<rparr>"
| "env_step Start_err s = s\<lparr>hd_err_work := start_work s (hd_err_work s)\<rparr>"
| "env_step Finish_wait s =
     (if w_child s \<noteq> Alive \<and> is_working (hd_wait_work s)
      then s\<lparr>hd_wait_work := finish_work
               (aw_exit_code_update (\<lambda>_. if w_child s = Zombie then w_code s else 0)) (hd_wait_work s),
             w_child := Reaped\<rparr>
      else s)"
| "env_step Finish_out s =
     (if w_child s \<noteq> Alive \<and> is_working (hd_out_work s)
      then s\<lparr>hd_out_work := finish_work (aw_output_update (\<lambda>_. w_out s)) (hd_out_work s), w_out := []\<rparr>
      else s)"
| "env_step Finish_err s =
     (if w_child s \<noteq> Alive \<and> is_working (hd_err_work s)
      then s\<lparr>hd_err_work := finish_work (aw_output_update (\<lambda>_. w_err s)) (hd_err_work s), w_err := []\<rparr>
      else s)"

definition tick :: "holder \<Rightarrow> holder" where
  "tick s = (case w_env s of [] \<Rightarrow> s | a # rest \<Rightarrow> env_step a (s\<lparr>w_env := rest\<rparr>))"

text \<open>\<open>uv_run(..., UV_RUN_NOWAIT)\<close> delivers \<open>after_work_cb\<close> of the jobs that are over.\<close>

definition after_work_cb :: "async_work \<Rightarrow> async_work" where
  "after_work_cb a = (if aw_phase a = Worked \<or> aw_phase a = Cancelled then a\<lparr>aw_done := True\<rparr> else a)"

definition uv_run :: "holder \<Rightarrow> holder" where
  "uv_run s = s\<lparr>hd_wait_work := map_option after_work_cb (hd_wait_work s),
     hd_out_work := map_option after_work_cb (hd_out_work s),
     hd_err_work := map_option after_work_cb (hd_err_work s)\<rparr>"

definition uv_cancel :: "async_work \<Rightarrow> async_work" where
  "uv_cancel a = (if aw_phase a = Queued then a\<lparr>aw_phase := Cancelled\<rparr> else a)"

definition uv_queue_work :: "holder \<Rightarrow> bool \<times> holder" where
  "uv_queue_work s =
     (case w_submit s of [] \<Rightarrow> (True, s) | ok # rest \<Rightarrow> (ok, s\<lparr>w_submit := rest\<rparr>))"

text \<open>
  The system calls of \<open>Wait_Unix\<close> in this world.  A blocking \<open>waitid\<close> and a sleep let
  the environment go on.
\<close>

fun block_env :: "env list \<Rightarrow> holder \<Rightarrow> (wid \<times> holder) option" where
  "block_env sched s =
     (if w_child s = Reaped then Some (Wid_err ECHILD, s)
      else if w_child s = Zombie then Some (Wid CLD_EXITED (w_code s), s\<lparr>w_child := Reaped\<rparr>)
      else case sched of
             [] \<Rightarrow> None
           | a # rest \<Rightarrow> block_env rest (env_step a (s\<lparr>w_env := rest\<rparr>)))"

declare block_env.simps [simp del]

definition peek_wid :: "holder \<Rightarrow> wid" where
  "peek_wid s =
     (case w_child s of Alive \<Rightarrow> Wid 0 0 | Zombie \<Rightarrow> Wid CLD_EXITED (w_code s) | Reaped \<Rightarrow> Wid_err ECHILD)"

definition ph_host :: "holder wait_host" where
  "ph_host = \<lparr>h_block = (\<lambda>pid s. block_env (w_env s) s), h_peek = (\<lambda>pid s. (peek_wid s, s)),
     h_reap = (\<lambda>pid s. (peek_wid s, if w_child s = Zombie then s\<lparr>w_child := Reaped\<rparr> else s)),
     h_nap = (\<lambda>t s. (Nap_ok, tick s))\<rparr>"

section \<open>The operations\<close>

definition close_stdin :: "holder \<Rightarrow> holder" where
  "close_stdin s =
     (if pi_stdin_closed (hd_info s) then s
      else let s1 = s\<lparr>hd_info := (hd_info s)\<lparr>pi_stdin_closed := True\<rparr>, hd_stdin := invalidate (hd_stdin s)\<rparr>
           in if pi_stdin (hd_info s1) \<noteq> FD_INVALID
              then s1\<lparr>w_fdt := snd (close_fd (pi_stdin (hd_info s1)) (w_fdt s1)),
                      hd_info := (hd_info s1)\<lparr>pi_stdin := FD_INVALID\<rparr>\<rparr>
              else s1)"

definition process_wait_timeout_ms :: "int \<Rightarrow> int \<Rightarrow> holder \<Rightarrow> (int option \<times> holder) option" where
  "process_wait_timeout_ms timeout_ms poll_interval_ms s =
     (case hd_exit_code s of
        Some c \<Rightarrow> Some (Some c, s)
      | None \<Rightarrow>
          (case wait_timeout_ms ph_host (hd_info s) timeout_ms 0 poll_interval_ms s of
             Some (Waited True code s') \<Rightarrow> Some (Some code, s'\<lparr>hd_exit_code := Some code\<rparr>)
           | Some (Waited False _ s') \<Rightarrow> Some (None, s')
           | _ \<Rightarrow> None))"

definition begin_wait :: "holder \<Rightarrow> holder" where
  "begin_wait s =
     (if hd_exit_code s \<noteq> None \<or> hd_wait_work s \<noteq> None then s
      else case uv_queue_work s of
             (False, s') \<Rightarrow> s'
           | (True, s') \<Rightarrow> s'\<lparr>hd_wait_work := Some async_work_new\<rparr>)"

definition work_done :: "async_work option \<Rightarrow> bool" where
  "work_done w = (case w of None \<Rightarrow> False | Some a \<Rightarrow> aw_done a)"

text \<open>The waiter is over: cache its code and release it.\<close>

definition take_wait :: "holder \<Rightarrow> holder" where
  "take_wait s = s\<lparr>hd_exit_code := map_option aw_exit_code (hd_wait_work s), hd_wait_work := None,
     hd_observed_exited := True\<rparr>"

definition sync_check :: "bool option \<Rightarrow> (int \<Rightarrow> string option) \<Rightarrow> holder \<Rightarrow> bool result \<times> holder" where
  "sync_check sigchld stat s =
     (case process_exited ph_host sigchld stat (hd_info s) s of
        (Inr True, s') \<Rightarrow> (Inr True, s'\<lparr>hd_observed_exited := True\<rparr>)
      | (r, s') \<Rightarrow> (r, s'))"

definition poll_wait :: "bool option \<Rightarrow> (int \<Rightarrow> string option) \<Rightarrow> holder \<Rightarrow> bool result \<times> holder" where
  "poll_wait sigchld stat s =
     (if hd_exit_code s \<noteq> None \<or> hd_observed_exited s then (Inr True, s)
      else if hd_wait_work s = None then sync_check sigchld stat s
      else let s1 = uv_run s
           in if work_done (hd_wait_work s1) then (Inr True, take_wait s1) else (Inr False, s1))"

definition has_exited :: "bool option \<Rightarrow> (int \<Rightarrow> string option) \<Rightarrow> holder \<Rightarrow> bool result \<times> holder" where
  "has_exited sigchld stat s =
     (if hd_exit_code s \<noteq> None \<or> hd_observed_exited s then (Inr True, s)
      else if hd_wait_work s \<noteq> None then
        (let s1 = uv_run s
         in if work_done (hd_wait_work s1) then (Inr True, take_wait s1) else (Inr False, s1))
      else sync_check sigchld stat s)"

text \<open>\<open>while (!done) { uv_run(); sleep(1ms); }\<close>: may spin for ever.\<close>

partial_function (option) spin :: "(holder \<Rightarrow> async_work option) \<Rightarrow> holder \<Rightarrow> holder option" where
  "spin w s = (if work_done (w s) then Some s else spin w (tick (uv_run s)))"

declare spin.simps [code]

definition collect_wait :: "holder \<Rightarrow> (int \<times> holder) option" where
  "collect_wait s =
     (case hd_exit_code s of
        Some c \<Rightarrow> Some (c, s)
      | None \<Rightarrow>
          (case hd_wait_work s of
             Some a \<Rightarrow>
               (case spin hd_wait_work s of
                  None \<Rightarrow> None
                | Some s1 \<Rightarrow> Some (the (hd_exit_code (take_wait s1)), take_wait s1))
           | None \<Rightarrow>
               (case wait_for ph_host (pi_pid (hd_info s)) s of
                  None \<Rightarrow> None
                | Some (code, s1) \<Rightarrow> Some (code, s1\<lparr>hd_exit_code := Some code\<rparr>))))"

definition interrupt :: "bool \<Rightarrow> holder \<Rightarrow> (int \<times> int) list" where
  "interrupt force s = terminate_process (hd_info s) force"

definition interrupt_tree ::
  "bool option \<Rightarrow> (int \<Rightarrow> string option) \<Rightarrow> bool \<Rightarrow> holder \<Rightarrow> (int \<times> int) list result \<times> holder" where
  "interrupt_tree sigchld stat force s = terminate_process_tree ph_host sigchld stat (hd_info s) force s"

definition process_pid :: "holder \<Rightarrow> int" where
  "process_pid s = get_pid (hd_info s)"

definition begin_communicate :: "holder \<Rightarrow> holder" where
  "begin_communicate s0 =
     (let s = begin_wait (close_stdin s0);
          s = (if pi_stdout (hd_info s) \<noteq> FD_INVALID \<and> hd_out_work s = None
               then (case uv_queue_work s of
                       (True, s') \<Rightarrow> s'\<lparr>hd_out_work := Some async_work_new\<rparr> | (False, s') \<Rightarrow> s')
               else s)
      in if pi_stderr (hd_info s) \<noteq> FD_INVALID \<and> hd_err_work s = None
         then (case uv_queue_work s of
                 (True, s') \<Rightarrow> s'\<lparr>hd_err_work := Some async_work_new\<rparr> | (False, s') \<Rightarrow> s')
         else s)"

definition poll_communicate :: "holder \<Rightarrow> bool \<times> holder" where
  "poll_communicate s0 =
     (let s = uv_run s0
      in ((hd_out_work s = None \<or> work_done (hd_out_work s)) \<and>
          (hd_err_work s = None \<or> work_done (hd_err_work s)), s))"

record communicate_result =
  cr_out :: string
  cr_err :: string
  cr_exit_code :: int

definition end_out :: "holder \<Rightarrow> (string \<times> holder) option" where
  "end_out s =
     (if hd_out_work s = None then Some ([], s)
      else map_option (\<lambda>s1. (aw_output (the (hd_out_work s1)), s1\<lparr>hd_out_work := None\<rparr>)) (spin hd_out_work s))"

definition end_err :: "holder \<Rightarrow> (string \<times> holder) option" where
  "end_err s =
     (if hd_err_work s = None then Some ([], s)
      else map_option (\<lambda>s1. (aw_output (the (hd_err_work s1)), s1\<lparr>hd_err_work := None\<rparr>)) (spin hd_err_work s))"

definition end_communicate :: "holder \<Rightarrow> (communicate_result \<times> holder) option" where
  "end_communicate s =
     (case end_out s of
        None \<Rightarrow> None
      | Some (out, s1) \<Rightarrow>
          (case end_err s1 of
             None \<Rightarrow> None
           | Some (err, s2) \<Rightarrow>
               (case collect_wait s2 of
                  None \<Rightarrow> None
                | Some (code, s3) \<Rightarrow> Some (\<lparr>cr_out = out, cr_err = err, cr_exit_code = code\<rparr>, s3))))"

definition communicate :: "holder \<Rightarrow> (communicate_result \<times> holder) option" where
  "communicate s = end_communicate (begin_communicate s)"

text \<open>
  The destructor joins the three jobs, each by \<open>await_work\<close>, and closes the descriptors.
\<close>

definition await_wait :: "holder \<Rightarrow> holder option" where
  "await_wait s =
     (if hd_wait_work s = None then Some s
      else map_option (hd_wait_work_update (\<lambda>_. None))
             (spin hd_wait_work (s\<lparr>hd_wait_work := map_option uv_cancel (hd_wait_work s)\<rparr>)))"

definition await_out :: "holder \<Rightarrow> holder option" where
  "await_out s =
     (if hd_out_work s = None then Some s
      else map_option (hd_out_work_update (\<lambda>_. None))
             (spin hd_out_work (s\<lparr>hd_out_work := map_option uv_cancel (hd_out_work s)\<rparr>)))"

definition await_err :: "holder \<Rightarrow> holder option" where
  "await_err s =
     (if hd_err_work s = None then Some s
      else map_option (hd_err_work_update (\<lambda>_. None))
             (spin hd_err_work (s\<lparr>hd_err_work := map_option uv_cancel (hd_err_work s)\<rparr>)))"

definition close_holder :: "holder \<Rightarrow> holder" where
  "close_holder s = (case close_process (hd_info s) (w_fdt s) of (info, tab) \<Rightarrow> s\<lparr>hd_info := info, w_fdt := tab\<rparr>)"

definition destroy :: "holder \<Rightarrow> holder option" where
  "destroy s =
     (case await_wait s of
        None \<Rightarrow> None
      | Some s1 \<Rightarrow>
          (case await_out s1 of
             None \<Rightarrow> None
           | Some s2 \<Rightarrow> (case await_err s2 of None \<Rightarrow> None | Some s3 \<Rightarrow> Some (close_holder s3))))"

section \<open>The invariant of the handle\<close>

text \<open>
  The cached code is the child's and the child is then reaped; nobody but the waiter and a
  synchronous wait, which caches its result at once, reaps it; a reader that is over has
  emptied its pipe.
\<close>

definition wait_inv :: "int \<Rightarrow> child \<Rightarrow> async_work option \<Rightarrow> bool" where
  "wait_inv code c w \<longleftrightarrow>
     (case w of
        None \<Rightarrow> True
      | Some a \<Rightarrow>
          (if aw_phase a = Worked then aw_exit_code a = code \<and> c = Reaped
           else c \<noteq> Reaped \<and> \<not> aw_done a \<and> aw_phase a \<noteq> Cancelled))"

definition read_inv :: "string \<Rightarrow> async_work option \<Rightarrow> bool" where
  "read_inv rest w \<longleftrightarrow>
     (case w of
        None \<Rightarrow> True
      | Some a \<Rightarrow> (if aw_phase a = Worked then rest = [] else \<not> aw_done a \<and> aw_phase a \<noteq> Cancelled))"

definition holder_inv :: "holder \<Rightarrow> bool" where
  "holder_inv s \<longleftrightarrow>
     wait_inv (w_code s) (w_child s) (hd_wait_work s) \<and>
     read_inv (w_out s) (hd_out_work s) \<and> read_inv (w_err s) (hd_err_work s) \<and>
     (\<forall>c. hd_exit_code s = Some c \<longrightarrow> c = w_code s \<and> w_child s = Reaped \<and> hd_wait_work s = None) \<and>
     (w_child s = Reaped \<longrightarrow> hd_exit_code s \<noteq> None \<or> hd_wait_work s \<noteq> None) \<and>
     (hd_observed_exited s \<longrightarrow> w_child s \<noteq> Alive)"

text \<open>The text of a stream that no operation has returned yet: in a reader that is over, then in the pipe.\<close>

definition held :: "async_work option \<Rightarrow> string" where
  "held w = (case w of None \<Rightarrow> [] | Some a \<Rightarrow> if aw_phase a = Worked then aw_output a else [])"

definition out_left :: "holder \<Rightarrow> string" where
  "out_left s = held (hd_out_work s) @ w_out s"

definition err_left :: "holder \<Rightarrow> string" where
  "err_left s = held (hd_err_work s) @ w_err s"

lemma held_simps [simp]: "held None = []" "held (start_work s w) = held w" "held (map_option after_work_cb w) = held w"
  "is_working w \<Longrightarrow> held (finish_work (aw_output_update (\<lambda>_. text)) w) = text"
  "is_working w \<Longrightarrow> held w = []"
  by (auto simp: held_def start_work_def after_work_cb_def finish_work_def is_working_def split: option.split)

lemma left_update [simp]:
  "out_left (hd_info_update f1 s) = out_left s" "err_left (hd_info_update f1 s) = err_left s"
  "out_left (hd_stdin_update f2 s) = out_left s" "err_left (hd_stdin_update f2 s) = err_left s"
  "out_left (hd_exit_code_update f3 s) = out_left s" "err_left (hd_exit_code_update f3 s) = err_left s"
  "out_left (hd_observed_exited_update f4 s) = out_left s" "err_left (hd_observed_exited_update f4 s) = err_left s"
  "out_left (hd_wait_work_update f5 s) = out_left s" "err_left (hd_wait_work_update f5 s) = err_left s"
  "out_left (w_child_update f6 s) = out_left s" "err_left (w_child_update f6 s) = err_left s"
  "out_left (w_submit_update f7 s) = out_left s" "err_left (w_submit_update f7 s) = err_left s"
  "out_left (w_fdt_update f8 s) = out_left s" "err_left (w_fdt_update f8 s) = err_left s"
  "out_left (w_env_update f9 s) = out_left s" "err_left (w_env_update f9 s) = err_left s"
  "out_left (hd_err_work_update f10 s) = out_left s" "err_left (hd_out_work_update g10 s) = err_left s"
  by (simp_all add: out_left_def err_left_def)

lemma left_new:
  "hd_out_work s = None \<Longrightarrow> out_left (s\<lparr>hd_out_work := Some async_work_new\<rparr>) = out_left s"
  "hd_err_work s = None \<Longrightarrow> err_left (s\<lparr>hd_err_work := Some async_work_new\<rparr>) = err_left s"
  by (simp_all add: out_left_def err_left_def held_def async_work_new_def)

lemma wait_inv_start: "wait_inv code c w \<Longrightarrow> wait_inv code c (start_work s w)"
  by (auto simp: wait_inv_def start_work_def split: option.splits if_splits)

lemma read_inv_start: "read_inv rest w \<Longrightarrow> read_inv rest (start_work s w)"
  by (auto simp: read_inv_def start_work_def split: option.splits if_splits)

lemma read_inv_finish:
  "read_inv rest w \<Longrightarrow> is_working w \<Longrightarrow> read_inv [] (finish_work (aw_output_update (\<lambda>_. text)) w)"
  by (auto simp: read_inv_def finish_work_def is_working_def split: option.splits if_splits)

lemma wait_inv_zombie: "wait_inv code Alive w \<Longrightarrow> wait_inv code Zombie w"
  by (auto simp: wait_inv_def split: option.splits if_splits)

lemma wait_inv_finish:
  "wait_inv code c w \<Longrightarrow> is_working w \<Longrightarrow> c \<noteq> Alive \<Longrightarrow>
   wait_inv code Reaped (finish_work (aw_exit_code_update (\<lambda>_. if c = Zombie then code else 0)) w)
   \<and> c = Zombie \<and> w \<noteq> None"
  by (cases c) (auto simp: wait_inv_def finish_work_def is_working_def split: option.splits)

lemma map_work_None [simp]: "start_work s w = None \<longleftrightarrow> w = None" "finish_work f w = None \<longleftrightarrow> w = None"
  by (simp_all add: start_work_def finish_work_def)

text \<open>What no step of the environment touches; it may move text from a pipe into its reader.\<close>

definition same_frame :: "holder \<Rightarrow> holder \<Rightarrow> bool" where
  "same_frame s s' \<longleftrightarrow>
     hd_info s' = hd_info s \<and> hd_stdin s' = hd_stdin s \<and> hd_exit_code s' = hd_exit_code s \<and> w_code s' = w_code s \<and> out_left s' = out_left s \<and>
     err_left s' = err_left s \<and> w_needs_eof s' = w_needs_eof s \<and> w_needs_drain s' = w_needs_drain s \<and>
     w_pool s' = w_pool s \<and> w_fdt s' = w_fdt s \<and> (hd_wait_work s' = None \<longleftrightarrow> hd_wait_work s = None) \<and>
     (hd_out_work s' = None \<longleftrightarrow> hd_out_work s = None) \<and> (hd_err_work s' = None \<longleftrightarrow> hd_err_work s = None)"

lemma same_frame_refl [simp]: "same_frame s s"
  by (simp add: same_frame_def)

lemma same_frame_trans: "same_frame s t \<Longrightarrow> same_frame t u \<Longrightarrow> same_frame s u"
  by (simp add: same_frame_def)

lemma env_step_frame: "same_frame s (env_step a s)"
  by (cases a) (auto simp: same_frame_def out_left_def err_left_def)

lemma env_step_inv: "holder_inv s \<Longrightarrow> holder_inv (env_step a s)"
proof (cases a)
  case Finish_wait
  assume "holder_inv s"
  then show ?thesis
    using wait_inv_finish[of "w_code s" "w_child s" "hd_wait_work s"] Finish_wait
    by (auto simp: holder_inv_def)
qed (auto simp: holder_inv_def wait_inv_start read_inv_start read_inv_finish wait_inv_zombie)

lemma env_keep_env: "w_env (env_step a s) = w_env s"
  by (cases a) auto

lemma tick_frame: "same_frame s (tick s)"
proof (cases "w_env s")
  case (Cons a rest)
  have "same_frame s (s\<lparr>w_env := rest\<rparr>)" by (simp add: same_frame_def)
  with env_step_frame show ?thesis unfolding tick_def Cons by (auto intro: same_frame_trans)
qed (simp add: tick_def)

lemma tick_inv: "holder_inv s \<Longrightarrow> holder_inv (tick s)"
  by (auto simp: tick_def holder_inv_def[of "s\<lparr>w_env := _\<rparr>"] split: list.split intro!: env_step_inv)
    (simp_all add: holder_inv_def)

lemma uv_run_frame: "same_frame s (uv_run s)"
  by (simp add: same_frame_def uv_run_def out_left_def err_left_def)

lemma uv_run_inv: "holder_inv s \<Longrightarrow> holder_inv (uv_run s)"
  by (auto simp: holder_inv_def uv_run_def wait_inv_def read_inv_def after_work_cb_def split: option.splits)

lemma spin_step:
  "spin w s = Some s' \<Longrightarrow> Q s \<Longrightarrow> (\<And>t. Q t \<Longrightarrow> \<not> work_done (w t) \<Longrightarrow> Q (tick (uv_run t))) \<Longrightarrow>
   Q s' \<and> work_done (w s')"
proof (induction rule: spin.raw_induct[rotated 1, consumes 1])
  case (1 spin w s s')
  then show ?case by (auto split: if_splits)
qed

lemma spin_inv:
  assumes "spin w s = Some s'" and "holder_inv s"
  shows "holder_inv s' \<and> same_frame s s' \<and> work_done (w s')"
  using spin_step[OF assms(1), of "\<lambda>t. holder_inv t \<and> same_frame s t"] assms(2)
  by (meson same_frame_refl same_frame_trans tick_frame tick_inv uv_run_frame uv_run_inv)

section \<open>Every operation keeps the invariant\<close>

lemma hd_stdin_inv: "holder_inv (s\<lparr>hd_info := i, hd_stdin := b, w_fdt := t\<rparr>) \<longleftrightarrow> holder_inv s"
  by (simp add: holder_inv_def)

lemma close_stdin_inv: "holder_inv s \<Longrightarrow> holder_inv (close_stdin s)"
  by (simp add: close_stdin_def holder_inv_def Let_def)

lemma uv_queue_work_inv: "uv_queue_work s = (ok, s') \<Longrightarrow> holder_inv s \<Longrightarrow> holder_inv s'"
  by (auto simp: uv_queue_work_def holder_inv_def split: list.splits)

lemma uv_queue_work_frame: "uv_queue_work s = (ok, s') \<Longrightarrow>
    same_frame s s' \<and> hd_wait_work s' = hd_wait_work s \<and> w_child s' = w_child s"
  by (auto simp: uv_queue_work_def same_frame_def out_left_def err_left_def split: list.splits)

lemma begin_wait_inv: "holder_inv s \<Longrightarrow> holder_inv (begin_wait s)"
proof -
  assume i: "holder_inv s"
  obtain ok s' where q: "uv_queue_work s = (ok, s')" by fastforce
  have "holder_inv (s'\<lparr>hd_wait_work := Some async_work_new\<rparr>)" if "hd_exit_code s = None" "hd_wait_work s = None"
    using that i uv_queue_work_inv[OF q i] uv_queue_work_frame[OF q]
    by (auto simp: holder_inv_def wait_inv_def async_work_new_def same_frame_def)
  with i uv_queue_work_inv[OF q i] show ?thesis by (auto simp: begin_wait_def q split: bool.split)
qed

lemma take_wait_inv: "holder_inv s \<Longrightarrow> work_done (hd_wait_work s) \<Longrightarrow> holder_inv (take_wait s)"
  by (auto simp: holder_inv_def take_wait_def work_done_def wait_inv_def split: option.splits if_splits)

lemma take_wait_code:
  "holder_inv s \<Longrightarrow> work_done (hd_wait_work s) \<Longrightarrow> hd_exit_code (take_wait s) = Some (w_code s)"
  by (auto simp: holder_inv_def take_wait_def work_done_def wait_inv_def split: option.splits if_splits)

lemma process_exited_ph:
  "process_exited ph_host sigchld stat info s =
     (if w_child s = Reaped \<and> sigchld = None then Inl (Runtime_error ''should not reach here'')
      else Inr (w_child s \<noteq> Alive), s)"
  by (cases "w_child s")
    (auto simp: process_exited_def poll_process_status_def ph_host_def peek_wid_def exit_value_def Let_def
      split: option.split)

lemma sync_check_inv: "holder_inv s \<Longrightarrow> holder_inv (snd (sync_check sigchld stat s))"
  by (auto simp: sync_check_def process_exited_ph holder_inv_def split: bool.split)

lemma poll_wait_inv: "holder_inv s \<Longrightarrow> holder_inv (snd (poll_wait sigchld stat s))"
  using uv_run_inv[of s] by (simp add: poll_wait_def sync_check_inv take_wait_inv Let_def)

lemma has_exited_poll_wait: "has_exited = poll_wait"
  by (intro ext) (simp add: has_exited_def poll_wait_def)

text \<open>A synchronous wait: nobody else waits, so it gets the code and reaps the child.\<close>

definition reaps :: "holder \<Rightarrow> holder \<Rightarrow> bool" where
  "reaps s s' \<longleftrightarrow> (\<exists>t. holder_inv t \<and> same_frame s t \<and> s' = t\<lparr>w_child := Reaped\<rparr>)"

definition alone :: "holder \<Rightarrow> bool" where
  "alone s \<longleftrightarrow> holder_inv s \<and> hd_exit_code s = None \<and> hd_wait_work s = None"

lemma alone_not_reaped: "alone s \<Longrightarrow> w_child s \<noteq> Reaped"
  by (auto simp: alone_def holder_inv_def)

lemma alone_frame: "alone s \<Longrightarrow> holder_inv t \<Longrightarrow> same_frame s t \<Longrightarrow> alone t"
  by (auto simp: alone_def same_frame_def)

lemma reaps_first: "same_frame s t \<Longrightarrow> reaps t u \<Longrightarrow> reaps s u"
  by (auto simp: reaps_def intro: same_frame_trans)

lemma reaps_now: "alone s \<Longrightarrow> reaps s (s\<lparr>w_child := Reaped\<rparr>)"
  using same_frame_refl[of s] by (auto simp: reaps_def alone_def)

lemma block_env_alone:
  "alone s \<Longrightarrow> block_env sched s = Some (r, s') \<Longrightarrow> r = Wid CLD_EXITED (w_code s) \<and> reaps s s'"
proof (induction sched s rule: block_env.induct)
  case (1 sched s)
  show ?case
  proof (cases "w_child s")
    case Alive
    with 1(3) obtain a rest where s: "sched = a # rest" by (subst (asm) block_env.simps) (auto split: list.splits)
    let ?t = "env_step a (s\<lparr>w_env := rest\<rparr>)"
    have f: "same_frame s ?t" using env_step_frame[of "s\<lparr>w_env := rest\<rparr>" a] by (simp add: same_frame_def)
    have "holder_inv (s\<lparr>w_env := rest\<rparr>)" using 1(2) by (auto simp: alone_def holder_inv_def)
    then have t: "alone ?t" using alone_frame[OF 1(2) env_step_inv f] by blast
    have "block_env rest ?t = Some (r, s')" using 1(3) Alive s by (subst (asm) block_env.simps) simp
    from 1(1)[OF _ _ s t this] Alive reaps_first[OF f] f show ?thesis by (simp add: same_frame_def)
  next
    case Zombie
    with 1(3) have "r = Wid CLD_EXITED (w_code s)" "s' = s\<lparr>w_child := Reaped\<rparr>"
      by (subst (asm) block_env.simps, simp)+
    with reaps_now[OF 1(2)] show ?thesis by simp
  next
    case Reaped
    with alone_not_reaped[OF 1(2)] show ?thesis by simp
  qed
qed

lemma reaps_caches:
  assumes "alone s" and "reaps s s'"
  shows "holder_inv (s'\<lparr>hd_exit_code := Some (w_code s)\<rparr>)"
proof -
  from assms(2) obtain t where t: "holder_inv t" "same_frame s t" "s' = t\<lparr>w_child := Reaped\<rparr>"
    by (auto simp: reaps_def)
  with alone_frame[OF assms(1)] have "alone t" by blast
  moreover have "w_code t = w_code s" using t(2) by (simp add: same_frame_def)
  ultimately show ?thesis unfolding t(3) by (simp add: alone_def holder_inv_def wait_inv_def)
qed

lemma wait_for_alone:
  assumes "alone s" and "wait_for ph_host pid s = Some (v, s')"
  shows "v = w_code s \<and> reaps s s'"
proof -
  obtain r t where b: "block_env (w_env s) s = Some (r, t)"
    using assms(2) by (subst (asm) wait_for.simps) (auto simp: ph_host_def split: option.splits)
  from block_env_alone[OF assms(1) b] assms(2) b show ?thesis
    by (subst (asm) wait_for.simps) (simp add: ph_host_def exit_value_def)
qed

lemma poll_once_alone:
  assumes "alone s"
  shows "poll_once ph_host pid s =
    (if w_child s = Alive then (None, s) else (Some (w_code s, s\<lparr>w_child := Reaped\<rparr>), s))"
  using alone_not_reaped[OF assms]
  by (cases "w_child s")
    (simp_all add: poll_once_def poll_process_status_def ph_host_def peek_wid_def exit_value_def)

lemma wait_loop_alone:
  "wait_loop H pid p r e s = Some res \<Longrightarrow> H = ph_host \<Longrightarrow> alone s \<Longrightarrow>
   (case res of
      Waited b v s' \<Rightarrow> if b then v = w_code s \<and> reaps s s' else holder_inv s' \<and> same_frame s s'
    | Overflow \<Rightarrow> True)"
proof (induction rule: wait_loop.raw_induct[rotated 1, consumes 1])
  case (1 wl H pid p r e s res)
  note po = poll_once_alone[OF 1(4), of pid]
  show ?case
  proof (cases "w_child s = Alive")
    case False
    then have "res = Waited True (w_code s) (s\<lparr>w_child := Reaped\<rparr>)"
      using 1(2,3) po by simp
    with reaps_now[OF 1(4)] show ?thesis by simp
  next
    case True
    with po 1(3) have po: "poll_once H pid s = (None, s)" by simp
    show ?thesis
    proof (cases "r > 0")
      case False
      with 1(2) po have "res = Waited False e s" by simp
      with 1(4) show ?thesis by (simp add: alone_def)
    next
      case True
      have n: "h_nap H t s = (Nap_ok, tick s)" for t using 1(3) by (simp add: ph_host_def)
      have t: "alone (tick s)" using alone_frame[OF 1(4)] tick_inv tick_frame 1(4) by (simp add: alone_def)
      show ?thesis
      proof (cases "chk64 (r - p)")
        case None
        with 1(2) po True n have "res = Overflow" by (simp add: slept_ns_def)
        then show ?thesis by simp
      next
        case (Some r')
        with 1(2) po True n have "wl H pid p r' e (tick s) = Some res" by (simp add: slept_ns_def)
        from 1(1)[OF this 1(3) t] reaps_first[OF tick_frame] tick_frame[of s] show ?thesis
          by (auto simp: same_frame_def split: waited.splits if_splits)
      qed
    qed
  qed
qed

section \<open>Histories of a handle\<close>

definition keeps :: "holder \<Rightarrow> holder \<Rightarrow> bool" where
  "keeps s s' \<longleftrightarrow> holder_inv s' \<and> w_code s' = w_code s \<and> out_left s' = out_left s \<and> err_left s' = err_left s"

text \<open>An operation that returns text \<open>out\<close> of standard output and \<open>err\<close> of standard error.\<close>

definition delivers :: "holder \<Rightarrow> string \<Rightarrow> string \<Rightarrow> holder \<Rightarrow> bool" where
  "delivers s out err s' \<longleftrightarrow> holder_inv s' \<and> w_code s' = w_code s \<and> out_left s = out @ out_left s' \<and>
     err_left s = err @ err_left s'"

lemma keeps_delivers: "keeps s s' \<Longrightarrow> delivers s [] [] s'"
  by (simp add: keeps_def delivers_def)

lemma delivers_trans:
  "delivers s o1 e1 t \<Longrightarrow> delivers t o2 e2 u \<Longrightarrow> delivers s (o1 @ o2) (e1 @ e2) u"
  by (simp add: delivers_def)

lemma keeps_trans: "keeps s t \<Longrightarrow> keeps t u \<Longrightarrow> keeps s u"
  by (simp add: keeps_def)

lemma keeps_frame: "holder_inv s' \<Longrightarrow> same_frame s s' \<Longrightarrow> keeps s s'"
  by (simp add: keeps_def same_frame_def)

lemma caches_keeps:
  assumes "alone s" and "reaps s s1"
  shows "keeps s (s1\<lparr>hd_exit_code := Some (w_code s)\<rparr>)" "hd_info s1 = hd_info s"
proof -
  obtain t where "same_frame s t" "s1 = t\<lparr>w_child := Reaped\<rparr>" using assms(2) by (auto simp: reaps_def)
  then have "w_code s1 = w_code s" "out_left s1 = out_left s" "err_left s1 = err_left s" "hd_info s1 = hd_info s"
    by (simp_all add: same_frame_def)
  with reaps_caches[OF assms] show "keeps s (s1\<lparr>hd_exit_code := Some (w_code s)\<rparr>)" "hd_info s1 = hd_info s"
    by (simp_all add: keeps_def)
qed

lemma begin_wait_keeps: "holder_inv s \<Longrightarrow> keeps s (begin_wait s)"
proof -
  assume i: "holder_inv s"
  obtain ok s' where q: "uv_queue_work s = (ok, s')" by fastforce
  have "w_code (begin_wait s) = w_code s \<and> out_left (begin_wait s) = out_left s \<and> err_left (begin_wait s) = err_left s"
    using uv_queue_work_frame[OF q] by (cases ok) (simp_all add: begin_wait_def q same_frame_def)
  with begin_wait_inv[OF i] show ?thesis by (simp add: keeps_def)
qed

lemma close_stdin_keeps: "holder_inv s \<Longrightarrow> keeps s (close_stdin s)"
  using close_stdin_inv[of s] by (simp add: keeps_def) (simp add: close_stdin_def Let_def)

lemma take_wait_keeps: "holder_inv s \<Longrightarrow> work_done (hd_wait_work s) \<Longrightarrow> keeps s (take_wait s)"
  using take_wait_inv[of s] by (simp add: keeps_def) (simp add: take_wait_def)

lemma poll_wait_keeps:
  assumes "holder_inv s"
  shows "keeps s (snd (poll_wait sigchld stat s))"
proof -
  have u: "keeps s (uv_run s)" by (rule keeps_frame[OF uv_run_inv[OF assms] uv_run_frame])
  have "keeps s (take_wait (uv_run s))" if "work_done (hd_wait_work (uv_run s))"
    using keeps_trans[OF u take_wait_keeps[OF uv_run_inv[OF assms] that]] .
  moreover have "keeps s (snd (sync_check sigchld stat s))"
    using sync_check_inv[OF assms] by (simp add: keeps_def)
      (auto simp: sync_check_def process_exited_ph split: bool.split)
  ultimately show ?thesis using u assms by (simp add: poll_wait_def Let_def keeps_def)
qed

lemma collect_wait_code:
  assumes "holder_inv s" and "collect_wait s = Some (c, s')"
  shows "c = w_code s \<and> keeps s s' \<and> hd_exit_code s' = Some c \<and> hd_info s' = hd_info s"
proof (cases "hd_exit_code s")
  case (Some x)
  with assms show ?thesis by (auto simp: collect_wait_def keeps_def holder_inv_def)
next
  case None
  note e = this
  show ?thesis
  proof (cases "hd_wait_work s")
    case None
    with e assms(1) have al: "alone s" by (simp add: alone_def)
    from e None assms(2) obtain s1 where w: "wait_for ph_host (pi_pid (hd_info s)) s = Some (c, s1)"
      "s' = s1\<lparr>hd_exit_code := Some c\<rparr>" by (auto simp: collect_wait_def split: option.splits)
    note r = wait_for_alone[OF al w(1)]
    from caches_keeps[OF al conjunct2[OF r]] r w(2) show ?thesis by simp
  next
    case (Some a)
    with e assms(2) obtain s1 where sp: "spin hd_wait_work s = Some s1" "s' = take_wait s1"
      "c = the (hd_exit_code (take_wait s1))" by (auto simp: collect_wait_def split: option.splits)
    note i = spin_inv[OF sp(1) assms(1)]
    have "hd_exit_code s' = Some (w_code s1)" using take_wait_code i sp(2) by blast
    moreover have "keeps s s'"
      using keeps_trans[OF keeps_frame take_wait_keeps, of s1 s] i sp(2) by blast
    ultimately show ?thesis using i sp by (auto simp: same_frame_def take_wait_def)
  qed
qed

lemma wait_timeout_keeps:
  assumes "holder_inv s" and "hd_wait_work s = None"
    and "process_wait_timeout_ms timeout_ms poll s = Some (r, s')"
  shows "keeps s s' \<and> (\<forall>c. r = Some c \<longrightarrow> c = w_code s)"
proof (cases "hd_exit_code s")
  case (Some x)
  with assms show ?thesis by (auto simp: process_wait_timeout_ms_def keeps_def holder_inv_def)
next
  case None
  with assms(1,2) have al: "alone s" by (simp add: alone_def)
  from assms(3) None obtain b v s1 where
    w: "wait_timeout_ms ph_host (hd_info s) timeout_ms 0 poll s = Some (Waited b v s1)" and
    r: "r = (if b then Some v else None)" "s' = (if b then s1\<lparr>hd_exit_code := Some v\<rparr> else s1)"
    by (auto simp: process_wait_timeout_ms_def split: option.splits waited.splits bool.splits)
  have "if b then v = w_code s \<and> reaps s s1 else holder_inv s1 \<and> same_frame s s1"
  proof (cases "timeout_ms < 0")
    case True
    with w have "b" "wait_for ph_host (pi_pid (hd_info s)) s = Some (v, s1)"
      by (auto simp: wait_timeout_ms_def split: option.splits)
    with wait_for_alone[OF al] show ?thesis by simp
  next
    case False
    with w obtain p rem where "wait_loop ph_host (pi_pid (hd_info s)) p rem 0 s = Some (Waited b v s1)"
      by (auto simp: wait_timeout_ms_def split: option.splits)
    from wait_loop_alone[OF this refl al] show ?thesis by simp
  qed
  with caches_keeps(1)[OF al, of s1] r keeps_frame[of s1 s] show ?thesis by (cases b) simp_all
qed

lemma end_out_spec:
  assumes "holder_inv s" and "end_out s = Some (text, s')"
  shows "delivers s text [] s' \<and> text = (if hd_out_work s = None then [] else out_left s) \<and> hd_out_work s' = None \<and>
    (hd_err_work s' = None \<longleftrightarrow> hd_err_work s = None) \<and>
    hd_info s' = hd_info s"
proof (cases "hd_out_work s")
  case None
  with assms show ?thesis by (simp add: end_out_def delivers_def)
next
  case (Some a)
  with assms(2) obtain s1 where sp: "spin hd_out_work s = Some s1" "text = aw_output (the (hd_out_work s1))"
    "s' = s1\<lparr>hd_out_work := None\<rparr>" by (auto simp: end_out_def)
  note i = spin_inv[OF sp(1) assms(1)]
  have t: "aw_output (the (hd_out_work s1)) = out_left s1" "w_out s1 = []"
    using i by (auto simp: holder_inv_def read_inv_def work_done_def out_left_def held_def split: option.splits if_splits)
  moreover have "holder_inv s'" using i sp(3) by (auto simp: holder_inv_def read_inv_def)
  moreover have "out_left s' = []" "err_left s' = err_left s1" using t(2) sp(3) by (simp_all add: out_left_def)
  ultimately show ?thesis using i sp Some by (auto simp: delivers_def same_frame_def)
qed

lemma end_err_spec:
  assumes "holder_inv s" and "end_err s = Some (text, s')"
  shows "delivers s [] text s' \<and> text = (if hd_err_work s = None then [] else err_left s) \<and> hd_err_work s' = None \<and>
    hd_info s' = hd_info s"
proof (cases "hd_err_work s")
  case None
  with assms show ?thesis by (simp add: end_err_def delivers_def)
next
  case (Some a)
  with assms(2) obtain s1 where sp: "spin hd_err_work s = Some s1" "text = aw_output (the (hd_err_work s1))"
    "s' = s1\<lparr>hd_err_work := None\<rparr>" by (auto simp: end_err_def)
  note i = spin_inv[OF sp(1) assms(1)]
  have t: "aw_output (the (hd_err_work s1)) = err_left s1" "w_err s1 = []"
    using i by (auto simp: holder_inv_def read_inv_def work_done_def err_left_def held_def split: option.splits if_splits)
  moreover have "holder_inv s'" using i sp(3) by (auto simp: holder_inv_def read_inv_def)
  moreover have "err_left s' = []" "out_left s' = out_left s1" using t(2) sp(3) by (simp_all add: err_left_def)
  ultimately show ?thesis using i sp Some by (auto simp: delivers_def same_frame_def)
qed

lemma end_communicate_spec:
  assumes "holder_inv s" and "end_communicate s = Some (r, s')"
  shows "delivers s (cr_out r) (cr_err r) s' \<and> cr_out r = (if hd_out_work s = None then [] else out_left s) \<and>
    cr_err r = (if hd_err_work s = None then [] else err_left s) \<and> cr_exit_code r = w_code s \<and>
    hd_exit_code s' = Some (w_code s) \<and> hd_info s' = hd_info s"
proof -
  from assms(2) obtain out s1 err s2 code where o: "end_out s = Some (out, s1)" and e: "end_err s1 = Some (err, s2)"
    and c: "collect_wait s2 = Some (code, s')" and r: "r = \<lparr>cr_out = out, cr_err = err, cr_exit_code = code\<rparr>"
    by (auto simp: end_communicate_def split: option.splits)
  note 1 = end_out_spec[OF assms(1) o]
  from 1 have i1: "holder_inv s1" by (simp add: delivers_def)
  note 2 = end_err_spec[OF i1 e]
  from 2 have i2: "holder_inv s2" by (simp add: delivers_def)
  note 3 = collect_wait_code[OF i2 c]
  from 3 have "keeps s2 s'" by blast
  from delivers_trans[OF conjunct1[OF 1] delivers_trans[OF conjunct1[OF 2] keeps_delivers[OF this]]]
  have "delivers s out err s'" by simp
  moreover have "out = (if hd_out_work s = None then [] else out_left s)" using 1 by blast
  moreover have "err = (if hd_err_work s = None then [] else err_left s)"
    using conjunct1[OF conjunct2[OF 2]] 1 by (simp add: delivers_def)
  moreover have "w_code s2 = w_code s" "hd_info s' = hd_info s" using 1 2 3 by (simp_all add: delivers_def)
  ultimately show ?thesis using 3 by (simp add: r)
qed

lemma read_inv_new [simp]: "read_inv rest (Some async_work_new)"
  by (simp add: read_inv_def async_work_new_def)

lemma holder_inv_out: "holder_inv s \<Longrightarrow> holder_inv (s\<lparr>hd_out_work := Some async_work_new\<rparr>)"
  by (simp add: holder_inv_def)

lemma holder_inv_err: "holder_inv s \<Longrightarrow> holder_inv (s\<lparr>hd_err_work := Some async_work_new\<rparr>)"
  by (simp add: holder_inv_def)

text \<open>
  The reader for a stream is there after \<open>begin_communicate\<close> when the stream is a pipe and
  the submission succeeded.
\<close>

lemma begin_communicate_spec:
  assumes "holder_inv s" and "w_submit s = []"
  shows "keeps s (begin_communicate s) \<and>
    (hd_out_work (begin_communicate s) = None \<longleftrightarrow>
       pi_stdout (hd_info s) = FD_INVALID \<and> hd_out_work s = None) \<and>
    (hd_err_work (begin_communicate s) = None \<longleftrightarrow>
       pi_stderr (hd_info s) = FD_INVALID \<and> hd_err_work s = None) \<and>
    hd_info (begin_communicate s) = hd_info (close_stdin s)"
proof -
  let ?c = "close_stdin s" and ?b = "begin_wait (close_stdin s)"
  have c: "hd_out_work ?c = hd_out_work s" "hd_err_work ?c = hd_err_work s" "w_submit ?c = []"
    "pi_stdout (hd_info ?c) = pi_stdout (hd_info s)" "pi_stderr (hd_info ?c) = pi_stderr (hd_info s)"
    using assms(2) by (simp_all add: close_stdin_def Let_def)
  have b: "hd_out_work ?b = hd_out_work s" "hd_err_work ?b = hd_err_work s" "w_submit ?b = []" "hd_info ?b = hd_info ?c"
    using c by (simp_all add: begin_wait_def uv_queue_work_def)
  have k: "keeps s ?b"
    using keeps_trans[OF close_stdin_keeps[OF assms(1)] begin_wait_keeps[OF close_stdin_inv[OF assms(1)]]] .
  let ?o = "if pi_stdout (hd_info s) \<noteq> FD_INVALID \<and> hd_out_work s = None
    then ?b\<lparr>hd_out_work := Some async_work_new\<rparr> else ?b"
  have e: "begin_communicate s = (if pi_stderr (hd_info s) \<noteq> FD_INVALID \<and> hd_err_work s = None
      then ?o\<lparr>hd_err_work := Some async_work_new\<rparr> else ?o)"
    using b c by (simp add: begin_communicate_def uv_queue_work_def Let_def)
  have "holder_inv ?b" using k by (simp add: keeps_def)
  then have "holder_inv (begin_communicate s)" unfolding e
    by (simp add: holder_inv_out holder_inv_err)
  moreover have "out_left (begin_communicate s) = out_left ?b" "err_left (begin_communicate s) = err_left ?b"
    "w_code (begin_communicate s) = w_code ?b" using b by (simp_all add: e left_new)
  ultimately show ?thesis using k b c by (simp add: keeps_def) (auto simp: e)
qed

lemma begin_communicate_keeps:
  assumes "holder_inv s"
  shows "keeps s (begin_communicate s)"
proof -
  let ?b = "begin_wait (close_stdin s)"
  have k: "keeps s ?b"
    using keeps_trans[OF close_stdin_keeps[OF assms] begin_wait_keeps[OF close_stdin_inv[OF assms]]] .
  have out: "keeps t (case uv_queue_work t of (True, s') \<Rightarrow> s'\<lparr>hd_out_work := Some async_work_new\<rparr> | (False, s') \<Rightarrow> s')"
    if i: "holder_inv t" and n: "hd_out_work t = None" for t
  proof -
    obtain ok s' where q: "uv_queue_work t = (ok, s')" by fastforce
    have "hd_out_work s' = None" using uv_queue_work_frame[OF q] n by (simp add: same_frame_def)
    note left = left_new(1)[OF this]
    have "holder_inv (s'\<lparr>hd_out_work := Some async_work_new\<rparr>)"
      using uv_queue_work_inv[OF q i] by (simp add: holder_inv_out holder_inv_err)
    with uv_queue_work_inv[OF q i] uv_queue_work_frame[OF q] q show ?thesis
      by (cases ok) (simp_all add: keeps_def same_frame_def left)
  qed
  have err: "keeps t (case uv_queue_work t of (True, s') \<Rightarrow> s'\<lparr>hd_err_work := Some async_work_new\<rparr> | (False, s') \<Rightarrow> s')"
    if i: "holder_inv t" and n: "hd_err_work t = None" for t
  proof -
    obtain ok s' where q: "uv_queue_work t = (ok, s')" by fastforce
    have "hd_err_work s' = None" using uv_queue_work_frame[OF q] n by (simp add: same_frame_def)
    note left = left_new(2)[OF this]
    have "holder_inv (s'\<lparr>hd_err_work := Some async_work_new\<rparr>)"
      using uv_queue_work_inv[OF q i] by (simp add: holder_inv_out holder_inv_err)
    with uv_queue_work_inv[OF q i] uv_queue_work_frame[OF q] q show ?thesis
      by (cases ok) (simp_all add: keeps_def same_frame_def left)
  qed
  have i: "holder_inv t" if "keeps s t" for t using that by (simp add: keeps_def)
  define s1 where "s1 = (if pi_stdout (hd_info ?b) \<noteq> FD_INVALID \<and> hd_out_work ?b = None
      then (case uv_queue_work ?b of (True, s') \<Rightarrow> s'\<lparr>hd_out_work := Some async_work_new\<rparr> | (False, s') \<Rightarrow> s')
      else ?b)"
  have k1: "keeps s s1" using k keeps_trans[OF k out[OF i[OF k]]] by (auto simp: s1_def)
  have "begin_communicate s = (if pi_stderr (hd_info s1) \<noteq> FD_INVALID \<and> hd_err_work s1 = None
      then (case uv_queue_work s1 of (True, s') \<Rightarrow> s'\<lparr>hd_err_work := Some async_work_new\<rparr> | (False, s') \<Rightarrow> s')
      else s1)"
    unfolding begin_communicate_def Let_def s1_def ..
  then show ?thesis using k1 keeps_trans[OF k1 err[OF i[OF k1]]] by auto
qed

text \<open>
  Reading \<open>n\<close> characters through the stream that \<open>out\<close> or \<open>err\<close> gives, while no reader of
  \<open>communicate\<close> uses it: they come in order, and more than there are to come is a read that waits
  for the end of the child.
\<close>

definition read_out :: "nat \<Rightarrow> holder \<Rightarrow> (string \<times> holder) option" where
  "read_out n s =
     (if hd_out_work s = None \<and> (n \<le> length (w_out s) \<or> w_child s \<noteq> Alive)
      then Some (take n (w_out s), s\<lparr>w_out := drop n (w_out s)\<rparr>) else None)"

definition read_err :: "nat \<Rightarrow> holder \<Rightarrow> (string \<times> holder) option" where
  "read_err n s =
     (if hd_err_work s = None \<and> (n \<le> length (w_err s) \<or> w_child s \<noteq> Alive)
      then Some (take n (w_err s), s\<lparr>w_err := drop n (w_err s)\<rparr>) else None)"

lemma read_out_delivers:
  assumes "holder_inv s" and "read_out n s = Some (text, s')"
  shows "delivers s text [] s'"
proof -
  have s': "hd_out_work s = None" "text = take n (w_out s)" "s' = s\<lparr>w_out := drop n (w_out s)\<rparr>"
    using assms(2) by (simp_all add: read_out_def split: if_splits)
  have "holder_inv s'" using assms(1) s'(1) by (simp add: s'(3) holder_inv_def read_inv_def)
  then show ?thesis using s'(1) by (simp add: delivers_def s'(2,3) out_left_def err_left_def)
qed

lemma read_err_delivers:
  assumes "holder_inv s" and "read_err n s = Some (text, s')"
  shows "delivers s [] text s'"
proof -
  have s': "hd_err_work s = None" "text = take n (w_err s)" "s' = s\<lparr>w_err := drop n (w_err s)\<rparr>"
    using assms(2) by (simp_all add: read_err_def split: if_splits)
  have "holder_inv s'" using assms(1) s'(1) by (simp add: s'(3) holder_inv_def read_inv_def)
  then show ?thesis using s'(1) by (simp add: delivers_def s'(2,3) out_left_def err_left_def)
qed

text \<open>
  The steps that a handle can take, its operations and the environment's, with the text of standard
  output and of standard error that they return.
\<close>

inductive handle_step :: "holder \<Rightarrow> string \<Rightarrow> string \<Rightarrow> holder \<Rightarrow> bool" where
  hs_env: "handle_step s [] [] (env_step a s)"
| hs_begin_wait: "handle_step s [] [] (begin_wait s)"
| hs_poll_wait: "handle_step s [] [] (snd (poll_wait sigchld stat s))"
| hs_has_exited: "handle_step s [] [] (snd (has_exited sigchld stat s))"
| hs_collect_wait: "collect_wait s = Some (c, s') \<Longrightarrow> handle_step s [] [] s'"
| hs_wait_timeout: "hd_wait_work s = None \<Longrightarrow> process_wait_timeout_ms timeout_ms poll s = Some (r, s') \<Longrightarrow>
    handle_step s [] [] s'"
| hs_close_stdin: "handle_step s [] [] (close_stdin s)"
| hs_read_out: "read_out n s = Some (text, s') \<Longrightarrow> handle_step s text [] s'"
| hs_read_err: "read_err n s = Some (text, s') \<Longrightarrow> handle_step s [] text s'"
| hs_begin_communicate: "handle_step s [] [] (begin_communicate s)"
| hs_poll_communicate: "handle_step s [] [] (snd (poll_communicate s))"
| hs_end_communicate: "end_communicate s = Some (r, s') \<Longrightarrow> handle_step s (cr_out r) (cr_err r) s'"

lemma poll_communicate_keeps: "holder_inv s \<Longrightarrow> keeps s (snd (poll_communicate s))"
  using keeps_frame[OF uv_run_inv uv_run_frame] by (simp add: poll_communicate_def Let_def)

lemma handle_step_delivers: "handle_step s out err s' \<Longrightarrow> holder_inv s \<Longrightarrow> delivers s out err s'"
proof (induction rule: handle_step.induct)
  case (hs_env s a)
  with keeps_frame[OF env_step_inv env_step_frame] keeps_delivers show ?case by blast
next
  case (hs_collect_wait s c s')
  with collect_wait_code keeps_delivers show ?case by blast
next
  case (hs_wait_timeout s timeout_ms poll r s')
  with wait_timeout_keeps keeps_delivers show ?case by blast
next
  case (hs_end_communicate s r s')
  with end_communicate_spec show ?case by blast
next
  case (hs_has_exited s sigchld stat)
  then show ?case unfolding has_exited_poll_wait by (intro keeps_delivers poll_wait_keeps)
qed (simp_all add: keeps_delivers begin_wait_keeps poll_wait_keeps close_stdin_keeps begin_communicate_keeps
  poll_communicate_keeps read_out_delivers read_err_delivers)

text \<open>A history of a handle and all the text that its operations have returned.\<close>

inductive history :: "holder \<Rightarrow> string \<Rightarrow> string \<Rightarrow> holder \<Rightarrow> bool" for s0 where
  hist_start: "history s0 [] [] s0"
| hist_step: "history s0 out err s \<Longrightarrow> handle_step s out' err' s' \<Longrightarrow> history s0 (out @ out') (err @ err') s'"

lemma history_delivers: "history s0 out err s \<Longrightarrow> holder_inv s0 \<Longrightarrow> delivers s0 out err s"
proof (induction rule: history.induct)
  case hist_start
  then show ?case by (simp add: delivers_def)
next
  case (hist_step out err s out' err' s')
  then have "delivers s0 out err s" by blast
  moreover from this have "delivers s out' err' s'" using handle_step_delivers[OF hist_step(2)] by (simp add: delivers_def)
  ultimately show ?case by (rule delivers_trans)
qed

text \<open>A handle as \<open>start\<close> makes it.\<close>

definition fresh_handle :: "holder \<Rightarrow> bool" where
  "fresh_handle s \<longleftrightarrow> hd_exit_code s = None \<and> \<not> hd_observed_exited s \<and> hd_wait_work s = None \<and>
     hd_out_work s = None \<and> hd_err_work s = None \<and> w_child s \<noteq> Reaped"

lemma fresh_left: "fresh_handle s \<Longrightarrow> out_left s = w_out s \<and> err_left s = w_err s"
  by (simp add: fresh_handle_def out_left_def err_left_def)

lemma fresh_inv: "fresh_handle s \<Longrightarrow> holder_inv s"
  by (simp add: fresh_handle_def holder_inv_def wait_inv_def read_inv_def)

section \<open>Properties\<close>


definition demo_handle :: holder where
  "demo_handle = \<lparr>hd_info = process_info_new\<lparr>pi_pid := 77, pi_stdin := 4, pi_stdout := 5, pi_stderr := 7\<rparr>,
     hd_stdin = fdoutbuf_new, hd_exit_code = None, hd_observed_exited = False, hd_out_work = None,
     hd_err_work = None, hd_wait_work = None, w_child = Alive, w_code = 3, w_needs_eof = True,
     w_needs_drain = True, w_out = ''out'', w_err = ''err'', w_pool = 4, w_submit = [],
     w_fdt = [4 \<mapsto> \<lparr>obj = Pipe_W 0, cloexec = False\<rparr>],
     w_env = [Start_wait, Start_out, Child_exits, Start_err, Child_exits, Finish_err, Finish_wait, Finish_out]\<rparr>"


text \<open>
  C6. \<open>communicate\<close> returns the whole text of each captured stream, an empty text for one
  that is not captured, and the child's exit code, and leaves standard input closed, whatever
  the order in which the pool, the readers and the child proceed.
\<close>

theorem communicate_result:
  assumes "fresh_handle s" and "w_submit s = []" and "communicate s = Some (r, s')"
    and "\<not> pi_stdin_closed (hd_info s)"
  shows "cr_out r = (if pi_stdout (hd_info s) = FD_INVALID then [] else w_out s) \<and>
    cr_err r = (if pi_stderr (hd_info s) = FD_INVALID then [] else w_err s) \<and>
    cr_exit_code r = w_code s \<and> hd_exit_code s' = Some (w_code s) \<and>
    pi_stdin (hd_info s') = FD_INVALID \<and> pi_stdin_closed (hd_info s')"
proof -
  note b = begin_communicate_spec[OF fresh_inv[OF assms(1)] assms(2)]
  have i: "holder_inv (begin_communicate s)" using b by (simp add: keeps_def)
  have e: "end_communicate (begin_communicate s) = Some (r, s')" using assms(3) by (simp add: communicate_def)
  have "pi_stdin (hd_info (close_stdin s)) = FD_INVALID" "pi_stdin_closed (hd_info (close_stdin s))"
    using assms(4) by (simp_all add: close_stdin_def Let_def)
  with end_communicate_spec[OF i e] b assms(1) fresh_left[OF assms(1)] show ?thesis by (simp add: fresh_handle_def keeps_def)
qed

lemma demo_communicate:
  "case communicate demo_handle of Some (r, s') \<Rightarrow> True | None \<Rightarrow> False"
  by code_simp

theorem communicate_result_witness:
  "\<exists>s'. communicate demo_handle = Some (\<lparr>cr_out = ''out'', cr_err = ''err'', cr_exit_code = 3\<rparr>, s')"
proof -
  obtain r s' where c: "communicate demo_handle = Some (r, s')"
    using demo_communicate by (cases "communicate demo_handle") auto
  have "fresh_handle demo_handle" "w_submit demo_handle = []" "\<not> pi_stdin_closed (hd_info demo_handle)"
    by (simp_all add: fresh_handle_def demo_handle_def process_info_new_def)
  from communicate_result[OF this(1,2) c this(3)] have "r = \<lparr>cr_out = ''out'', cr_err = ''err'', cr_exit_code = 3\<rparr>"
    by (cases r) (simp add: demo_handle_def FD_INVALID_def)
  with c show ?thesis by blast
qed

text \<open>
  C7. No text of a stream is lost and none is returned twice: after any history of a handle, with
  reads through its streams and any number of calls of \<open>communicate\<close>, the text that has been
  returned is an initial part of what the child writes, and one more \<open>communicate\<close> returns just
  the rest of each captured stream.
\<close>

theorem output_delivered_once:
  assumes "fresh_handle s0" and "history s0 out err s"
  shows "prefix out (w_out s0) \<and> prefix err (w_err s0) \<and>
    (\<forall>r s'. communicate s = Some (r, s') \<and> w_submit s = [] \<longrightarrow>
       (pi_stdout (hd_info s) \<noteq> FD_INVALID \<longrightarrow> out @ cr_out r = w_out s0) \<and>
       (pi_stderr (hd_info s) \<noteq> FD_INVALID \<longrightarrow> err @ cr_err r = w_err s0))"
proof -
  have d: "delivers s0 out err s" by (rule history_delivers[OF assms(2) fresh_inv[OF assms(1)]])
  then have i: "holder_inv s" and w: "w_out s0 = out @ out_left s" "w_err s0 = err @ err_left s"
    using fresh_left[OF assms(1)] by (simp_all add: delivers_def)
  have c: "(pi_stdout (hd_info s) \<noteq> FD_INVALID \<longrightarrow> cr_out r = out_left s) \<and>
      (pi_stderr (hd_info s) \<noteq> FD_INVALID \<longrightarrow> cr_err r = err_left s)"
    if "communicate s = Some (r, s')" and "w_submit s = []" for r s'
  proof -
    note b = begin_communicate_spec[OF i that(2)]
    then have bi: "holder_inv (begin_communicate s)" and
      l: "out_left (begin_communicate s) = out_left s" "err_left (begin_communicate s) = err_left s"
      by (simp_all add: keeps_def)
    have "end_communicate (begin_communicate s) = Some (r, s')" using that(1) by (simp add: communicate_def)
    from end_communicate_spec[OF bi this] b l show ?thesis by simp
  qed
  with w show ?thesis by (auto simp: prefix_def)
qed

lemma demo_read: "read_out 2 demo_handle = Some (''ou'', demo_handle\<lparr>w_out := ''t''\<rparr>)"
  by (simp add: read_out_def demo_handle_def)

lemma demo_rest: "case communicate (demo_handle\<lparr>w_out := ''t''\<rparr>) of Some (r, s') \<Rightarrow> True | None \<Rightarrow> False"
  by code_simp

theorem output_delivered_once_witness:
  "\<exists>s r s'. history demo_handle ''ou'' [] s \<and> communicate s = Some (r, s') \<and> cr_out r = ''t''"
proof -
  let ?s = "demo_handle\<lparr>w_out := ''t''\<rparr>"
  have "history demo_handle ([] @ ''ou'') ([] @ []) ?s"
    by (rule hist_step[OF hist_start hs_read_out[OF demo_read]])
  then have h: "history demo_handle ''ou'' [] ?s" by (simp only: append_Nil)
  obtain r s' where c: "communicate ?s = Some (r, s')"
    using demo_rest by (cases "communicate ?s") auto
  have f: "fresh_handle demo_handle" "w_submit ?s = []" "pi_stdout (hd_info ?s) \<noteq> FD_INVALID" "w_out demo_handle = ''out''"
    by (simp_all add: fresh_handle_def demo_handle_def FD_INVALID_def)
  have "''ou'' @ cr_out r = w_out demo_handle" using output_delivered_once[OF f(1) h] c f(2,3) by blast
  with h c f(4) show ?thesis by auto
qed

text \<open>
  C40. The destructor joins the waiter before it closes standard input.  When the waiter is
  already in the pool's hands and the child ends only at the end of its input, it never
  returns, whatever the environment does.
\<close>

definition waits_for_eof :: "holder \<Rightarrow> bool" where
  "waits_for_eof s \<longleftrightarrow> w_child s = Alive \<and> w_needs_eof s \<and> pi_stdin (hd_info s) \<noteq> FD_INVALID \<and>
     (\<exists>a. hd_wait_work s = Some a \<and> aw_phase a = Working \<and> \<not> aw_done a)"

lemma waits_for_eof_step: "waits_for_eof s \<Longrightarrow> waits_for_eof (tick (uv_run s))"
proof -
  assume "waits_for_eof s"
  then obtain w where "hd_wait_work s = Some w" "aw_phase w = Working" by (auto simp: waits_for_eof_def)
  then have "hd_wait_work (uv_run s) = hd_wait_work s" by (simp add: uv_run_def after_work_cb_def)
  with \<open>waits_for_eof s\<close> have u: "waits_for_eof (uv_run s)" by (simp add: waits_for_eof_def) (simp add: uv_run_def)
  have e: "waits_for_eof (env_step a t)" if wt: "waits_for_eof t" for a t
  proof -
    obtain w where w: "hd_wait_work t = Some w" "aw_phase w = Working" "\<not> aw_done w"
      using wt by (auto simp: waits_for_eof_def)
    have "w_child t = Alive" "w_needs_eof t" "pi_stdin (hd_info t) \<noteq> FD_INVALID"
      using wt by (simp_all add: waits_for_eof_def)
    with w show ?thesis by (cases a) (simp_all add: waits_for_eof_def may_exit_def start_work_def)
  qed
  show ?thesis
  proof (cases "w_env (uv_run s)")
    case Nil
    with u show ?thesis by (simp add: tick_def)
  next
    case (Cons a rest)
    have "waits_for_eof ((uv_run s)\<lparr>w_env := rest\<rparr>)" using u by (simp add: waits_for_eof_def)
    from e[OF this] Cons show ?thesis by (simp add: tick_def)
  qed
qed

theorem destroy_waits_for_ever:
  assumes "waits_for_eof s"
  shows "destroy s = None"
proof -
  let ?c = "s\<lparr>hd_wait_work := map_option uv_cancel (hd_wait_work s)\<rparr>"
  obtain a where a: "hd_wait_work s = Some a" "aw_phase a = Working" using assms by (auto simp: waits_for_eof_def)
  then have "uv_cancel a = a" by (simp add: uv_cancel_def)
  with a assms have q: "waits_for_eof ?c" by (simp add: waits_for_eof_def)
  have "spin hd_wait_work ?c = None"
  proof (cases "spin hd_wait_work ?c")
    case (Some s')
    from spin_step[OF this, of waits_for_eof] q waits_for_eof_step
    have "waits_for_eof s'" "work_done (hd_wait_work s')" by blast+
    then show ?thesis by (auto simp: waits_for_eof_def work_done_def)
  qed
  then have "await_wait s = None" using a by (simp add: await_wait_def)
  then show ?thesis by (simp add: destroy_def)
qed

theorem destroy_waits_for_ever_witness:
  "destroy (env_step Start_wait (begin_wait demo_handle)) = None"
  by (rule destroy_waits_for_ever)
    (simp add: waits_for_eof_def begin_wait_def uv_queue_work_def demo_handle_def start_work_def busy_def
      is_working_def async_work_new_def FD_INVALID_def)

text \<open>
  The timed wait does not look at the waiter in the pool.  If that one has reaped the
  child, the timed wait returns 0 and caches it, and the code that the waiter got is never
  reported.
\<close>

theorem timed_wait_ignores_waiter:
  assumes "hd_exit_code s = None" and "w_child s = Reaped"
    and "0 \<le> timeout_ms" and "in_int32 timeout_ms" and "in_int32 poll"
  shows "process_wait_timeout_ms timeout_ms poll s = Some (Some 0, s\<lparr>hd_exit_code := Some 0\<rparr>) \<and>
    collect_wait (s\<lparr>hd_exit_code := Some 0\<rparr>) = Some (0, s\<lparr>hd_exit_code := Some 0\<rparr>)"
proof -
  have po: "poll_once ph_host pid s = (Some (0, s), s)" for pid
    using assms(2) by (simp add: poll_once_def poll_process_status_def ph_host_def peek_wid_def)
  have "in_int64 (max 1 poll * 1000000)" "in_int64 (timeout_ms * 1000000)"
    using assms(3-5) by (auto simp: in_int32_def in_int64_def max_def)
  then have "wait_timeout_ms ph_host (hd_info s) timeout_ms 0 poll s = Some (Waited True 0 s)"
    using assms(3) by (simp add: wait_timeout_ms_def) (subst wait_loop.simps, simp add: po)
  then show ?thesis using assms(1) by (simp add: process_wait_timeout_ms_def collect_wait_def)
qed

definition demo_reaped :: holder where
  "demo_reaped = foldl (\<lambda>s a. env_step a s) (begin_wait (close_stdin (demo_handle\<lparr>w_needs_drain := False\<rparr>)))
     [Start_wait, Child_exits, Finish_wait]"

theorem timed_wait_ignores_waiter_witness:
  "process_wait_timeout_ms 0 1 demo_reaped = Some (Some 0, demo_reaped\<lparr>hd_exit_code := Some 0\<rparr>) \<and> w_code demo_reaped = 3"
proof -
  have "hd_exit_code demo_reaped = None" "w_child demo_reaped = Reaped" "w_code demo_reaped = 3" by code_simp+
  with timed_wait_ignores_waiter[of demo_reaped 0 1] show ?thesis by (simp add: in_int32_def)
qed

end
