(* ===== verification/Handle_Live.thy ===== *)
theory Handle_Live
  imports Proc_Handle
begin

text \<open>
  When \<open>communicate\<close> of \<open>include/mozart++/mpp_system/process.hpp\<close> returns.  The steps of
  the environment are those of \<open>Proc_Handle\<close>; a schedule that lets everyone take three turns
  is enough if the pool has a thread for each of the three jobs, and one thread is not enough.
  Two states are compared by how far their jobs have got, a relation that every step keeps, so
  that marking a job as done or taking its result away never delays the others.
\<close>

section \<open>Comparing two states of a handle\<close>

text \<open>How far a job has got; a cancelled one goes nowhere.\<close>

fun rank :: "phase \<Rightarrow> nat" where
  "rank Cancelled = 0"
| "rank Queued = 1"
| "rank Working = 2"
| "rank Worked = 3"

definition ahead :: "async_work option \<Rightarrow> async_work option \<Rightarrow> bool" where
  "ahead w w' = (case w' of None \<Rightarrow> True
     | Some a' \<Rightarrow> (case w of None \<Rightarrow> False | Some a \<Rightarrow> rank (aw_phase a) \<le> rank (aw_phase a')))"

text \<open>The second state is at least as far as the first one, and has a thread for every job.\<close>

definition sim :: "holder \<Rightarrow> holder \<Rightarrow> bool" where
  "sim s s' \<longleftrightarrow> 3 \<le> w_pool s' \<and> hd_info s' = hd_info s \<and> w_needs_eof s' = w_needs_eof s \<and>
     w_needs_drain s' = w_needs_drain s \<and> (w_child s \<noteq> Alive \<longrightarrow> w_child s' \<noteq> Alive) \<and>
     ahead (hd_wait_work s) (hd_wait_work s') \<and> ahead (hd_out_work s) (hd_out_work s') \<and>
     ahead (hd_err_work s) (hd_err_work s') \<and>
     (w_child s' \<noteq> Alive \<or>
        (hd_out_work s' = None \<longleftrightarrow> hd_out_work s = None) \<and> (hd_err_work s' = None \<longleftrightarrow> hd_err_work s = None))"

lemma rank_working: "rank p = 2 \<longleftrightarrow> p = Working" and rank_worked: "3 \<le> rank p \<longleftrightarrow> p = Worked"
  and rank_reading: "2 \<le> rank p \<longleftrightarrow> p = Working \<or> p = Worked"
  by (cases p; simp)+

lemma busy_less:
  "hd_wait_work s = Some a \<and> aw_phase a = Queued \<or> hd_out_work s = Some a \<and> aw_phase a = Queued \<or>
   hd_err_work s = Some a \<and> aw_phase a = Queued \<Longrightarrow> busy s < 3"
  by (auto simp: busy_def is_working_def)

lemma ahead_refl [simp]: "ahead w w"
  by (simp add: ahead_def split: option.split)

lemma ahead_start:
  assumes "ahead w w'" and "\<And>a. w' = Some a \<Longrightarrow> aw_phase a = Queued \<Longrightarrow> busy s' < w_pool s'"
  shows "ahead (start_work s w) (start_work s' w')"
proof (cases w')
  case (Some a')
  with assms(1) obtain a where a: "w = Some a" "rank (aw_phase a) \<le> rank (aw_phase a')"
    by (auto simp: ahead_def split: option.splits)
  with Some assms(2)[of a'] show ?thesis
    by (cases "aw_phase a"; cases "aw_phase a'") (simp_all add: start_work_def ahead_def)
qed (simp add: start_work_def ahead_def)

lemma ahead_finish:
  assumes "ahead w w'"
    and "\<And>a. aw_phase (f a) = aw_phase a" and "\<And>a. aw_phase (g a) = aw_phase a"
  shows "ahead (finish_work f w) (finish_work g w')" "ahead w (finish_work g w')"
proof -
  have "ahead (finish_work f w) (finish_work g w') \<and> ahead w (finish_work g w')"
  proof (cases w')
    case (Some a')
    with assms(1) obtain a where a: "w = Some a" "rank (aw_phase a) \<le> rank (aw_phase a')"
      by (auto simp: ahead_def split: option.splits)
    with Some show ?thesis
      by (cases "aw_phase a"; cases "aw_phase a'") (simp_all add: finish_work_def ahead_def)
  qed (simp add: finish_work_def ahead_def)
  then show "ahead (finish_work f w) (finish_work g w')" "ahead w (finish_work g w')" by simp_all
qed

lemma ahead_reading: "ahead w w' \<Longrightarrow> w' \<noteq> None \<Longrightarrow> reading w \<Longrightarrow> reading w'"
  by (cases w; cases w'; simp add: ahead_def reading_def)
    (metis rank_reading le_trans)

lemma ahead_not_working:
  assumes "ahead w w'" and "is_working w" and "\<not> is_working w'" and "\<And>a. aw_phase (f a) = aw_phase a"
  shows "ahead (finish_work f w) w'"
proof (cases w')
  case (Some a')
  with assms(1) obtain a where "w = Some a" "rank (aw_phase a) \<le> rank (aw_phase a')"
    by (auto simp: ahead_def split: option.splits)
  with Some assms(2-4) show ?thesis
    by (cases "aw_phase a'") (simp_all add: finish_work_def ahead_def is_working_def)
qed (simp add: ahead_def)

lemma ahead_reading_iff: "ahead w w' \<Longrightarrow> w' = None \<longleftrightarrow> w = None \<Longrightarrow> reading w \<longrightarrow> reading w'"
  using ahead_reading[of w w'] by (auto simp: reading_def split: option.splits)

lemma sim_may_exit:
  assumes "sim s s'" and "w_child s' = Alive" and "may_exit s"
  shows "may_exit s'"
proof -
  have "reading (hd_out_work s) \<longrightarrow> reading (hd_out_work s')" "reading (hd_err_work s) \<longrightarrow> reading (hd_err_work s')"
    by (rule ahead_reading_iff; use assms(1,2) in \<open>simp add: sim_def\<close>)+
  with assms show ?thesis by (simp add: sim_def may_exit_def)
qed

lemma start_ahead:
  assumes "ahead w w'" and "3 \<le> w_pool s'"
    and "w' = hd_wait_work s' \<or> w' = hd_out_work s' \<or> w' = hd_err_work s'"
  shows "ahead (start_work s w) (start_work s' w')"
proof (rule ahead_start[OF assms(1)])
  fix a assume "w' = Some a" "aw_phase a = Queued"
  with assms(3) have "busy s' < 3" by (intro busy_less[of s' a]) auto
  with assms(2) show "busy s' < w_pool s'" by simp
qed

lemma sim_start:
  assumes "sim s s'"
  shows "ahead (start_work s (hd_wait_work s)) (start_work s' (hd_wait_work s'))"
    "ahead (start_work s (hd_out_work s)) (start_work s' (hd_out_work s'))"
    "ahead (start_work s (hd_err_work s)) (start_work s' (hd_err_work s'))"
  using assms by (simp_all add: sim_def start_ahead)

lemma finish_not_working: "\<not> is_working w \<Longrightarrow> finish_work f w = w"
  by (cases w) (simp_all add: is_working_def finish_work_def)

lemma sim_step: "sim s s' \<Longrightarrow> sim (env_step a s) (env_step a s')"
proof (cases a)
  case Child_exits
  assume s: "sim s s'"
  with Child_exits sim_may_exit[OF s] show ?thesis by (auto simp: sim_def)
next
  case Finish_wait
  assume s: "sim s s'"
  let ?f = "aw_exit_code_update (\<lambda>_. if w_child s = Zombie then w_code s else 0)"
  let ?g = "aw_exit_code_update (\<lambda>_. if w_child s' = Zombie then w_code s' else 0)"
  from s have "ahead (hd_wait_work s) (hd_wait_work s')" by (simp add: sim_def)
  from ahead_finish[OF this, of ?f ?g] ahead_not_working[OF this, of ?f]
    finish_not_working[of "hd_wait_work s'" ?g] s Finish_wait
  show ?thesis by (auto simp: sim_def)
next
  case Finish_out
  assume s: "sim s s'"
  let ?f = "aw_output_update (\<lambda>_. w_out s)" and ?g = "aw_output_update (\<lambda>_. w_out s')"
  from s have "ahead (hd_out_work s) (hd_out_work s')" by (simp add: sim_def)
  from ahead_finish[OF this, of ?f ?g] ahead_not_working[OF this, of ?f] s Finish_out
  show ?thesis by (auto simp: sim_def)
next
  case Finish_err
  assume s: "sim s s'"
  let ?f = "aw_output_update (\<lambda>_. w_err s)" and ?g = "aw_output_update (\<lambda>_. w_err s')"
  from s have "ahead (hd_err_work s) (hd_err_work s')" by (simp add: sim_def)
  from ahead_finish[OF this, of ?f ?g] ahead_not_working[OF this, of ?f] s Finish_err
  show ?thesis by (auto simp: sim_def)
qed (use sim_start in \<open>auto simp: sim_def\<close>)

definition run_env :: "env list \<Rightarrow> holder \<Rightarrow> holder" where
  "run_env es s = foldl (\<lambda>t a. env_step a t) s es"

lemma run_env_simps [simp]: "run_env [] s = s" "run_env (a # es) s = run_env es (env_step a s)"
  "run_env (xs @ ys) s = run_env ys (run_env xs s)"
  by (simp_all add: run_env_def)

lemma sim_run: "sim s s' \<Longrightarrow> sim (run_env es s) (run_env es s')"
  by (induction es arbitrary: s s') (simp_all add: sim_step)

section \<open>When the steps to come end every job\<close>

definition worked :: "async_work option \<Rightarrow> bool" where
  "worked w = (case w of None \<Rightarrow> True | Some a \<Rightarrow> aw_phase a = Worked)"

definition drained :: "holder \<Rightarrow> bool" where
  "drained s \<longleftrightarrow> worked (hd_wait_work s) \<and> worked (hd_out_work s) \<and> worked (hd_err_work s)"

definition will_end :: "holder \<Rightarrow> bool" where
  "will_end s \<longleftrightarrow> 3 \<le> w_pool s \<and> drained (run_env (w_env s) s)"

text \<open>A reader that is over has seen the end of its pipe, so the child is gone.\<close>

definition read_over :: "holder \<Rightarrow> bool" where
  "read_over s \<longleftrightarrow> (\<forall>a. (hd_out_work s = Some a \<or> hd_err_work s = Some a) \<and> aw_phase a = Worked \<longrightarrow> w_child s \<noteq> Alive)"

lemma ahead_worked: "ahead w w' \<Longrightarrow> worked w \<Longrightarrow> worked w'"
  by (auto simp: ahead_def worked_def rank_worked split: option.splits)

lemma sim_drained: "sim s s' \<Longrightarrow> drained s \<Longrightarrow> drained s'"
  by (auto simp: sim_def drained_def dest: ahead_worked)

lemma sim_will_end: "will_end s \<Longrightarrow> sim s s' \<Longrightarrow> w_env s' = w_env s \<Longrightarrow> will_end s'"
  by (metis will_end_def sim_def sim_drained sim_run)

lemma ahead_after [simp]: "ahead w (map_option after_work_cb w)"
  by (cases w) (simp_all add: ahead_def after_work_cb_def)

lemma will_end_step:
  assumes "will_end s"
  shows "will_end (tick (uv_run s))"
proof (cases "w_env s")
  case Nil
  have "sim s (uv_run s)" using assms by (simp add: sim_def uv_run_def will_end_def)
  then show ?thesis using sim_will_end[OF assms] Nil by (simp add: tick_def uv_run_def)
next
  case (Cons a es)
  let ?t = "(uv_run s)\<lparr>w_env := es\<rparr>"
  have "sim s ?t" using assms by (simp add: sim_def uv_run_def will_end_def)
  from sim_run[OF this, of "a # es"] assms Cons have "will_end (env_step a ?t)"
    using env_step_frame[of ?t a]
    by (auto simp: will_end_def env_keep_env same_frame_def uv_run_def dest: sim_drained)
  then show ?thesis using Cons by (simp add: tick_def uv_run_def)
qed

lemma read_over_env: "read_over s \<Longrightarrow> read_over (env_step a s)"
  by (cases a) (auto simp: read_over_def start_work_def finish_work_def split: if_splits)

lemma read_over_step: "read_over s \<Longrightarrow> read_over (tick (uv_run s))"
proof -
  assume "read_over s"
  then have u: "read_over (uv_run s)" by (auto simp: read_over_def uv_run_def after_work_cb_def split: if_splits)
  show ?thesis
  proof (cases "w_env (uv_run s)")
    case (Cons a es)
    have "read_over ((uv_run s)\<lparr>w_env := es\<rparr>)" using u by (simp add: read_over_def)
    from read_over_env[OF this] Cons show ?thesis by (simp add: tick_def)
  qed (simp add: tick_def u)
qed

text \<open>A job of the handle, by its field.\<close>

definition job :: "(holder \<Rightarrow> async_work option) \<Rightarrow> bool" where
  "job w \<longleftrightarrow> w = hd_wait_work \<or> w = hd_out_work \<or> w = hd_err_work"

lemma drained_done:
  assumes "job w" and "drained s" and "w s \<noteq> None"
  shows "work_done (w (uv_run s))"
  using assms by (auto simp: job_def drained_def worked_def work_done_def uv_run_def after_work_cb_def)

lemma job_step: "job w \<Longrightarrow> w (tick (uv_run s)) = None \<longleftrightarrow> w s = None"
  using tick_frame[of "uv_run s"] uv_run_frame[of s] by (auto simp: job_def same_frame_def)

lemma spin_returns:
  assumes "job w" and "will_end s" and "w s \<noteq> None"
  shows "\<exists>s'. spin w s = Some s'"
  using assms(2,3)
proof (induction "length (w_env s)" arbitrary: s)
  case 0
  then have "work_done (w (tick (uv_run s)))"
    using drained_done[OF assms(1), of s] by (simp add: tick_def uv_run_def will_end_def)
  then show ?case by (subst spin.simps, subst spin.simps) simp
next
  case (Suc n)
  then obtain a es where e: "w_env s = a # es" by (cases "w_env s") auto
  then have "w_env (tick (uv_run s)) = es" by (simp add: tick_def uv_run_def env_keep_env)
  with Suc e have "\<exists>s'. spin w (tick (uv_run s)) = Some s'"
    using will_end_step job_step[OF assms(1)] by (intro Suc.hyps(1)) auto
  then show ?case by (subst spin.simps) auto
qed

definition sound :: "holder \<Rightarrow> bool" where
  "sound s \<longleftrightarrow> holder_inv s \<and> read_over s \<and> will_end s"

lemma spin_sound:
  assumes "job w" and "sound s" and "w s \<noteq> None"
  shows "\<exists>s'. spin w s = Some s' \<and> sound s' \<and> same_frame s s' \<and> work_done (w s')"
proof -
  obtain s' where s': "spin w s = Some s'" using spin_returns assms by (auto simp: sound_def)
  have "sound (tick (uv_run t)) \<and> same_frame s (tick (uv_run t))" if "sound t \<and> same_frame s t" for t
    using that by (meson sound_def will_end_step read_over_step tick_inv uv_run_inv same_frame_trans tick_frame uv_run_frame)
  with spin_step[OF s', of "\<lambda>t. sound t \<and> same_frame s t"] assms(2) s' show ?thesis by auto
qed

lemma reader_gone:
  assumes "sound s" and "hd_out_work s = Some a \<or> hd_err_work s = Some a" and "aw_done a"
  shows "w_child s \<noteq> Alive"
  using assms by (auto simp: sound_def read_over_def holder_inv_def read_inv_def split: if_splits)

lemma sound_drop:
  assumes "sound s" and "w_child s \<noteq> Alive"
  shows "sound (s\<lparr>hd_out_work := None\<rparr>)" "sound (s\<lparr>hd_err_work := None\<rparr>)"
proof -
  have "sim s (s\<lparr>hd_out_work := None\<rparr>)" "sim s (s\<lparr>hd_err_work := None\<rparr>)"
    using assms by (simp_all add: sim_def sound_def will_end_def, simp_all add: ahead_def)
  then have "will_end (s\<lparr>hd_out_work := None\<rparr>)" "will_end (s\<lparr>hd_err_work := None\<rparr>)"
    using sim_will_end assms(1) by (auto simp: sound_def)
  moreover have "holder_inv (s\<lparr>hd_out_work := None\<rparr>)" "holder_inv (s\<lparr>hd_err_work := None\<rparr>)"
    using assms(1) by (simp_all add: sound_def holder_inv_def read_inv_def)
  moreover have "read_over (s\<lparr>hd_out_work := None\<rparr>)" "read_over (s\<lparr>hd_err_work := None\<rparr>)"
    using assms by (simp_all add: sound_def read_over_def)
  ultimately show "sound (s\<lparr>hd_out_work := None\<rparr>)" "sound (s\<lparr>hd_err_work := None\<rparr>)" by (simp_all add: sound_def)
qed

text \<open>What a result leaves as it was.\<close>

definition same_rest :: "holder \<Rightarrow> holder \<Rightarrow> bool" where
  "same_rest s s' \<longleftrightarrow> hd_info s' = hd_info s \<and> w_fdt s' = w_fdt s"

lemma same_rest_frame: "same_frame s s' \<Longrightarrow> same_rest s s'"
  by (simp add: same_rest_def same_frame_def)

lemma end_out_returns:
  assumes "sound s"
  shows "\<exists>out s'. end_out s = Some (out, s') \<and> sound s' \<and> same_rest s s' \<and> hd_out_work s' = None \<and>
    (hd_wait_work s' = None \<longleftrightarrow> hd_wait_work s = None)"
proof (cases "hd_out_work s")
  case None
  with assms show ?thesis by (simp add: end_out_def same_rest_def)
next
  case (Some a)
  then obtain s' where s': "spin hd_out_work s = Some s'" "sound s'" "same_frame s s'" "work_done (hd_out_work s')"
    using spin_sound[of hd_out_work s] assms by (auto simp: job_def)
  then have "w_child s' \<noteq> Alive" using reader_gone by (auto simp: work_done_def split: option.splits)
  with s' Some sound_drop(1)[OF s'(2)] show ?thesis by (simp add: end_out_def same_frame_def same_rest_def)
qed

lemma end_err_returns:
  assumes "sound s"
  shows "\<exists>err s'. end_err s = Some (err, s') \<and> sound s' \<and> same_rest s s' \<and> hd_err_work s' = None \<and>
    (hd_out_work s' = None \<longleftrightarrow> hd_out_work s = None) \<and> (hd_wait_work s' = None \<longleftrightarrow> hd_wait_work s = None)"
proof (cases "hd_err_work s")
  case None
  with assms show ?thesis by (simp add: end_err_def same_rest_def)
next
  case (Some a)
  then obtain s' where s': "spin hd_err_work s = Some s'" "sound s'" "same_frame s s'" "work_done (hd_err_work s')"
    using spin_sound[of hd_err_work s] assms by (auto simp: job_def)
  then have "w_child s' \<noteq> Alive" using reader_gone by (auto simp: work_done_def split: option.splits)
  with s' Some sound_drop(2)[OF s'(2)] show ?thesis by (simp add: end_err_def same_frame_def same_rest_def)
qed

lemma collect_returns:
  assumes "sound s" and "hd_wait_work s \<noteq> None"
  shows "\<exists>c s'. collect_wait s = Some (c, s') \<and> same_rest s s' \<and>
    (hd_exit_code s = None \<longrightarrow> hd_wait_work s' = None \<and>
       (hd_out_work s' = None \<longleftrightarrow> hd_out_work s = None) \<and> (hd_err_work s' = None \<longleftrightarrow> hd_err_work s = None))"
proof (cases "hd_exit_code s")
  case None
  obtain s' where "spin hd_wait_work s = Some s'" "same_frame s s'"
    using spin_sound[of hd_wait_work s] assms by (auto simp: job_def)
  with None assms(2) show ?thesis
    by (auto simp: collect_wait_def take_wait_def same_frame_def same_rest_def)
qed (simp add: collect_wait_def same_rest_def)

text \<open>No job is left when the result is there.\<close>

definition idle :: "holder \<Rightarrow> bool" where
  "idle s \<longleftrightarrow> hd_wait_work s = None \<and> hd_out_work s = None \<and> hd_err_work s = None"

lemma end_communicate_returns:
  assumes "sound s" and "hd_wait_work s \<noteq> None"
  shows "\<exists>r s'. end_communicate s = Some (r, s') \<and> same_rest s s' \<and> idle s'"
proof -
  obtain out s1 where o: "end_out s = Some (out, s1)" "sound s1" "same_rest s s1" "hd_out_work s1 = None"
    "hd_wait_work s1 \<noteq> None"
    using end_out_returns[OF assms(1)] assms(2) by auto
  obtain err s2 where e: "end_err s1 = Some (err, s2)" "sound s2" "same_rest s1 s2" "hd_err_work s2 = None"
    "hd_out_work s2 = None" "hd_wait_work s2 \<noteq> None"
    using end_err_returns[OF o(2)] o(4,5) by auto
  have "hd_exit_code s2 = None" using e(2,6) by (auto simp: sound_def holder_inv_def)
  with collect_returns[OF e(2,6)] e o(1,3) show ?thesis
    by (auto simp: end_communicate_def same_rest_def idle_def)
qed

section \<open>A schedule that gives everyone a turn\<close>

lemma run_reaches:
  assumes "a \<in> set es" and "I s"
    and "\<And>t b. I t \<Longrightarrow> I (env_step b t)" and "\<And>t. I t \<Longrightarrow> P (env_step a t)"
    and "\<And>t b. P t \<Longrightarrow> P (env_step b t)"
  shows "P (run_env es s)"
proof -
  obtain xs ys where es: "es = xs @ a # ys" using assms(1) by (meson split_list)
  have i: "I (run_env zs t)" if "I t" for zs t using that by (induction zs arbitrary: t) (simp_all add: assms(3))
  have p: "P (run_env zs t)" if "P t" for zs t using that by (induction zs arbitrary: t) (simp_all add: assms(5))
  have "P (env_step a (run_env xs s))" using assms(2,4) i by blast
  then show ?thesis by (simp add: es p)
qed

lemma run_keeps: "I s \<Longrightarrow> (\<And>t b. I t \<Longrightarrow> I (env_step b t)) \<Longrightarrow> I (run_env es s)"
  by (induction es arbitrary: s) simp_all

definition begun :: "async_work option \<Rightarrow> bool" where
  "begun w = (case w of None \<Rightarrow> True | Some a \<Rightarrow> aw_phase a = Working \<or> aw_phase a = Worked)"

definition all_begun :: "holder \<Rightarrow> bool" where
  "all_begun s \<longleftrightarrow> begun (hd_wait_work s) \<and> begun (hd_out_work s) \<and> begun (hd_err_work s)"

text \<open>Enough threads, nothing cancelled, standard input closed and a reader for every pipe.\<close>

definition served :: "holder \<Rightarrow> bool" where
  "served s \<longleftrightarrow> holder_inv s \<and> 3 \<le> w_pool s \<and> pi_stdin (hd_info s) = FD_INVALID \<and>
     (pi_stdout (hd_info s) \<noteq> FD_INVALID \<longrightarrow> hd_out_work s \<noteq> None) \<and>
     (pi_stderr (hd_info s) \<noteq> FD_INVALID \<longrightarrow> hd_err_work s \<noteq> None)"

lemma served_step: "served s \<Longrightarrow> served (env_step a s)"
  using env_step_frame[of s a] by (simp add: served_def env_step_inv same_frame_def)

lemma begun_start: "begun w \<Longrightarrow> begun (start_work s w)"
  and begun_finish: "begun w \<Longrightarrow> (\<And>a. aw_phase (f a) = aw_phase a) \<Longrightarrow> begun (finish_work f w)"
  by (auto simp: begun_def start_work_def finish_work_def split: option.splits)

lemma begun_step:
  "begun (hd_wait_work s) \<Longrightarrow> begun (hd_wait_work (env_step a s))"
  "begun (hd_out_work s) \<Longrightarrow> begun (hd_out_work (env_step a s))"
  "begun (hd_err_work s) \<Longrightarrow> begun (hd_err_work (env_step a s))"
  by (cases a; simp add: begun_start begun_finish)+

lemma not_cancelled: "wait_inv code c (Some a) \<Longrightarrow> aw_phase a \<noteq> Cancelled" "read_inv text (Some a) \<Longrightarrow> aw_phase a \<noteq> Cancelled"
  by (auto simp: wait_inv_def read_inv_def split: if_splits)

lemma started_begun:
  assumes "served s" and "w = hd_wait_work s \<or> w = hd_out_work s \<or> w = hd_err_work s"
  shows "begun (start_work s w)"
proof (cases w)
  case (Some a)
  with assms have "wait_inv (w_code s) (w_child s) (Some a) \<or> read_inv (w_out s) (Some a) \<or> read_inv (w_err s) (Some a)"
    by (auto simp: served_def holder_inv_def)
  then have "aw_phase a \<noteq> Cancelled" using not_cancelled by blast
  moreover have "busy s < w_pool s" if "aw_phase a = Queued"
    using busy_less[of s a] assms Some that by (auto simp: served_def)
  ultimately show ?thesis using Some by (cases "aw_phase a") (simp_all add: begun_def start_work_def)
qed (simp add: begun_def start_work_def)

definition gone :: "holder \<Rightarrow> bool" where
  "gone s \<longleftrightarrow> w_child s \<noteq> Alive"

lemma gone_step: "gone s \<Longrightarrow> gone (env_step a s)"
  by (cases a) (auto simp: gone_def)

lemma may_exit_begun: "served s \<Longrightarrow> all_begun s \<Longrightarrow> may_exit s"
  by (auto simp: served_def all_begun_def begun_def may_exit_def reading_def split: option.splits)

lemma worked_start: "worked w \<Longrightarrow> worked (start_work s w)"
  and worked_finish: "worked w \<Longrightarrow> worked (finish_work f w)"
  and begun_finished: "begun w \<Longrightarrow> worked (finish_work f w)"
  by (auto simp: worked_def begun_def start_work_def finish_work_def split: option.splits)

lemma worked_step:
  "worked (hd_wait_work s) \<Longrightarrow> worked (hd_wait_work (env_step a s))"
  "worked (hd_out_work s) \<Longrightarrow> worked (hd_out_work (env_step a s))"
  "worked (hd_err_work s) \<Longrightarrow> worked (hd_err_work (env_step a s))"
  by (cases a; simp add: worked_start worked_finish)+

lemma begun_idle: "begun w \<Longrightarrow> \<not> is_working w \<Longrightarrow> worked w"
  by (auto simp: begun_def is_working_def worked_def split: option.splits)

definition fair :: "env list \<Rightarrow> bool" where
  "fair es \<longleftrightarrow> (\<exists>e1 e2 e3 r. es = e1 @ e2 @ e3 @ r \<and> (\<forall>a. a \<in> set e1 \<and> a \<in> set e2 \<and> a \<in> set e3))"

lemma fair_drains:
  assumes "served s" and "fair es"
  shows "drained (run_env es s)"
proof -
  obtain e1 e2 e3 r where e: "es = e1 @ e2 @ e3 @ r" and all: "\<And>a. a \<in> set e1" "\<And>a. a \<in> set e2" "\<And>a. a \<in> set e3"
    using assms(2) by (auto simp: fair_def)
  let ?s1 = "run_env e1 s" and ?s2 = "run_env e2 (run_env e1 s)" and ?s3 = "run_env e3 (run_env e2 (run_env e1 s))"
  note start = run_reaches[where I = served and s = s and es = e1, OF all(1) assms(1) served_step]
  have "begun (hd_wait_work ?s1)" by (rule start[where a = Start_wait]) (simp_all add: begun_step started_begun)
  moreover have "begun (hd_out_work ?s1)" by (rule start[where a = Start_out]) (simp_all add: begun_step started_begun)
  moreover have "begun (hd_err_work ?s1)" by (rule start[where a = Start_err]) (simp_all add: begun_step started_begun)
  ultimately have s1: "served ?s1 \<and> all_begun ?s1" using run_keeps[of served, OF assms(1)] by (simp add: all_begun_def served_step)
  have k: "served (env_step b t) \<and> all_begun (env_step b t)" if "served t \<and> all_begun t" for t b
    using that by (simp add: all_begun_def begun_step served_step)
  have "gone ?s2"
    by (rule run_reaches[where I = "\<lambda>t. served t \<and> all_begun t" and a = Child_exits, OF all(2) s1 k])
      (simp_all add: gone_step, simp add: gone_def may_exit_begun)
  then have s2: "all_begun ?s2 \<and> gone ?s2" using run_keeps[of "\<lambda>t. served t \<and> all_begun t", OF s1 k] by simp
  have k2: "all_begun (env_step b t) \<and> gone (env_step b t)" if "all_begun t \<and> gone t" for t b
    using that by (simp add: all_begun_def begun_step gone_step)
  note finish = run_reaches[where I = "\<lambda>t. all_begun t \<and> gone t", OF all(3) s2 k2]
  have "worked (hd_wait_work ?s3)"
    by (rule finish[where a = Finish_wait]) (auto simp: worked_step all_begun_def gone_def begun_finished begun_idle)
  moreover have "worked (hd_out_work ?s3)"
    by (rule finish[where a = Finish_out]) (auto simp: worked_step all_begun_def gone_def begun_finished begun_idle)
  moreover have "worked (hd_err_work ?s3)"
    by (rule finish[where a = Finish_err]) (auto simp: worked_step all_begun_def gone_def begun_finished begun_idle)
  ultimately have "drained ?s3" by (simp add: drained_def)
  then show ?thesis using run_keeps[of drained ?s3 r] by (simp add: e drained_def worked_step)
qed

section \<open>Properties\<close>

lemma begin_communicate_served:
  assumes "fresh_handle s" and "w_submit s = []" and "\<not> pi_stdin_closed (hd_info s)" and "3 \<le> w_pool s"
  shows "served (begin_communicate s) \<and> read_over (begin_communicate s) \<and> w_env (begin_communicate s) = w_env s \<and>
    hd_wait_work (begin_communicate s) \<noteq> None"
proof -
  let ?b = "begin_communicate s" and ?c = "close_stdin s"
  note b = begin_communicate_spec[OF fresh_inv[OF assms(1)] assms(2)]
  have c: "pi_stdin (hd_info ?c) = FD_INVALID" "pi_stdout (hd_info ?c) = pi_stdout (hd_info s)"
    "pi_stderr (hd_info ?c) = pi_stderr (hd_info s)" "w_submit ?c = []" "w_pool ?c = w_pool s" "w_env ?c = w_env s"
    "hd_wait_work ?c = None" "hd_out_work ?c = None" "hd_err_work ?c = None" "hd_exit_code ?c = None"
    using assms by (simp_all add: close_stdin_def fresh_handle_def Let_def)
  then have w: "w_pool ?b = w_pool s" "w_env ?b = w_env s" "hd_wait_work ?b \<noteq> None"
    and o: "hd_out_work ?b = None \<or> hd_out_work ?b = Some async_work_new"
    and e: "hd_err_work ?b = None \<or> hd_err_work ?b = Some async_work_new"
    by (simp_all add: begin_communicate_def begin_wait_def uv_queue_work_def Let_def)
  have "served ?b" using b c(1-3) w(1) assms(4) by (auto simp: served_def keeps_def)
  moreover have "read_over ?b" using o e by (auto simp: read_over_def async_work_new_def)
  ultimately show ?thesis using w by simp
qed

lemma communicate_ends:
  assumes "fresh_handle s" and "w_submit s = []" and "\<not> pi_stdin_closed (hd_info s)"
    and "3 \<le> w_pool s" and "fair (w_env s)"
  shows "\<exists>s'. communicate s = Some (\<lparr>cr_out = if pi_stdout (hd_info s) = FD_INVALID then [] else w_out s,
      cr_err = if pi_stderr (hd_info s) = FD_INVALID then [] else w_err s, cr_exit_code = w_code s\<rparr>, s') \<and>
    hd_exit_code s' = Some (w_code s) \<and> same_rest (close_stdin s) s' \<and> idle s'"
proof -
  let ?b = "begin_communicate s"
  note left = conjunct1[OF fresh_left[OF assms(1)]] conjunct2[OF fresh_left[OF assms(1)]]
  note b = begin_communicate_served[OF assms(1-4)]
  then have "sound ?b" using fair_drains assms(5) by (simp add: sound_def will_end_def served_def)
  with b obtain r s' where c: "end_communicate ?b = Some (r, s')" "same_rest ?b s'" "idle s'"
    using end_communicate_returns by blast
  have "w_submit (close_stdin s) = []" using assms(2) by (simp add: close_stdin_def Let_def)
  then have "w_fdt ?b = w_fdt (close_stdin s)"
    by (simp add: begin_communicate_def begin_wait_def uv_queue_work_def Let_def)
  moreover have k: "keeps s ?b" "hd_info ?b = hd_info (close_stdin s)"
    "hd_out_work ?b = None \<longleftrightarrow> pi_stdout (hd_info s) = FD_INVALID"
    "hd_err_work ?b = None \<longleftrightarrow> pi_stderr (hd_info s) = FD_INVALID"
    using begin_communicate_spec[OF fresh_inv[OF assms(1)] assms(2)] assms(1) by (simp_all add: fresh_handle_def)
  moreover have "holder_inv ?b" using k(1) by (simp add: keeps_def)
  note end_communicate_spec[OF this c(1)]
  ultimately show ?thesis using c by (cases r) (auto simp: communicate_def same_rest_def keeps_def left)
qed

text \<open>
  C12. \<open>communicate\<close> returns when the pool has three threads for its jobs and the environment
  gives everyone a turn three times, in any order otherwise: the jobs start, the child, whose
  input is closed and whose output is read, exits, and the jobs end.  The result is the text
  of the streams and the exit code.
\<close>

theorem communicate_returns:
  assumes "fresh_handle s" and "w_submit s = []" and "\<not> pi_stdin_closed (hd_info s)"
    and "3 \<le> w_pool s" and "fair (w_env s)"
  shows "\<exists>s'. communicate s = Some (\<lparr>cr_out = if pi_stdout (hd_info s) = FD_INVALID then [] else w_out s,
      cr_err = if pi_stderr (hd_info s) = FD_INVALID then [] else w_err s, cr_exit_code = w_code s\<rparr>, s') \<and>
    hd_exit_code s' = Some (w_code s)"
  using communicate_ends[OF assms] by blast

theorem communicate_returns_witness:
  "\<exists>s'. communicate (demo_handle\<lparr>w_env := concat (replicate 3 [Finish_err, Finish_out, Finish_wait, Child_exits,
      Start_err, Start_out, Start_wait])\<rparr>) =
    Some (\<lparr>cr_out = ''out'', cr_err = ''err'', cr_exit_code = 3\<rparr>, s')"
proof -
  let ?r = "[Finish_err, Finish_out, Finish_wait, Child_exits, Start_err, Start_out, Start_wait]"
  have "a \<in> set ?r" for a by (cases a) simp_all
  moreover have "concat (replicate 3 ?r) = ?r @ ?r @ ?r @ []" by (simp add: numeral_3_eq_3)
  ultimately have "fair (concat (replicate 3 ?r))" unfolding fair_def by blast
  then show ?thesis
    using communicate_returns[of "demo_handle\<lparr>w_env := concat (replicate 3 ?r)\<rparr>"]
    by (auto simp: fresh_handle_def demo_handle_def process_info_new_def FD_INVALID_def)
qed

text \<open>The waiter has the only thread of the pool, and the child waits for a reader.\<close>

definition jammed :: "holder \<Rightarrow> bool" where
  "jammed s \<longleftrightarrow> w_pool s = 1 \<and> w_child s = Alive \<and> w_needs_drain s \<and> pi_stdout (hd_info s) \<noteq> FD_INVALID \<and>
     (\<exists>a b. hd_wait_work s = Some a \<and> aw_phase a = Working \<and> hd_out_work s = Some b \<and> aw_phase b = Queued \<and> \<not> aw_done b)"

lemma jammed_env: "jammed s \<Longrightarrow> jammed (env_step e s)"
proof -
  assume j: "jammed s"
  then obtain a b where "hd_wait_work s = Some a" "aw_phase a = Working" "hd_out_work s = Some b"
    "aw_phase b = Queued" "\<not> aw_done b" unfolding jammed_def by blast
  with j show ?thesis
    by (cases e) (simp_all add: jammed_def may_exit_def reading_def start_work_def busy_def is_working_def finish_work_def)
qed

lemma jammed_step:
  assumes "jammed s"
  shows "jammed (tick (uv_run s))"
proof -
  obtain a b where "hd_wait_work s = Some a" "aw_phase a = Working" "hd_out_work s = Some b"
    "aw_phase b = Queued" "\<not> aw_done b" using assms unfolding jammed_def by blast
  with assms have u: "jammed (uv_run s)" by (simp add: jammed_def uv_run_def after_work_cb_def)
  show ?thesis
  proof (cases "w_env (uv_run s)")
    case (Cons a es)
    have "jammed ((uv_run s)\<lparr>w_env := es\<rparr>)" using u by (simp add: jammed_def)
    from jammed_env[OF this] Cons show ?thesis by (simp add: tick_def)
  qed (simp add: tick_def u)
qed

text \<open>
  The waiter is queued before the readers.  When the pool has a single thread and the child
  ends only when its output is read, the waiter takes that thread, no reader ever starts and
  \<open>communicate\<close> never returns, whatever happens afterwards.
\<close>

theorem communicate_jams:
  assumes "fresh_handle s" and "w_submit s = []" and "w_pool s = 1" and "w_child s = Alive" and "w_needs_drain s"
    and "pi_stdout (hd_info s) \<noteq> FD_INVALID" and "w_env s = Start_wait # es"
  shows "communicate s = None"
proof -
  let ?b = "begin_communicate s"
  have c: "hd_exit_code (close_stdin s) = None" "hd_wait_work (close_stdin s) = None" "hd_out_work (close_stdin s) = None"
    "w_submit (close_stdin s) = []" "w_pool (close_stdin s) = 1" "w_child (close_stdin s) = Alive"
    "w_needs_drain (close_stdin s)" "pi_stdout (hd_info (close_stdin s)) \<noteq> FD_INVALID"
    "w_env (close_stdin s) = Start_wait # es" "hd_err_work (close_stdin s) = None"
    using assms by (simp_all add: close_stdin_def fresh_handle_def Let_def)
  then have b: "hd_out_work ?b = Some async_work_new" "hd_wait_work ?b = Some async_work_new"
    "hd_err_work ?b = None \<or> hd_err_work ?b = Some async_work_new" "w_pool ?b = 1" "w_child ?b = Alive" "w_needs_drain ?b"
    "pi_stdout (hd_info ?b) \<noteq> FD_INVALID" "w_env ?b = Start_wait # es"
    by (simp_all add: begin_communicate_def begin_wait_def uv_queue_work_def Let_def)
  then have "jammed (tick (uv_run ?b))"
    by (auto simp: tick_def uv_run_def after_work_cb_def async_work_new_def jammed_def start_work_def busy_def is_working_def)
  have "spin hd_out_work (tick (uv_run ?b)) = None"
  proof (cases "spin hd_out_work (tick (uv_run ?b))")
    case (Some s')
    from spin_step[OF this, of jammed] \<open>jammed (tick (uv_run ?b))\<close> jammed_step
    have "jammed s'" "work_done (hd_out_work s')" by blast+
    then show ?thesis by (auto simp: jammed_def work_done_def)
  qed
  then have "spin hd_out_work ?b = None" by (subst spin.simps) (simp add: b work_done_def async_work_new_def)
  then show ?thesis by (simp add: communicate_def end_communicate_def end_out_def b)
qed

theorem communicate_jams_witness:
  "communicate (demo_handle\<lparr>w_pool := 1, w_env := [Start_wait, Start_out, Start_err, Child_exits]\<rparr>) = None"
  by (rule communicate_jams) (simp_all add: fresh_handle_def demo_handle_def process_info_new_def FD_INVALID_def)

end
