(* ===== verification/Run_Process.thy ===== *)
theory Run_Process
  imports Handle_Live
begin

text \<open>
  From \<open>start\<close> to the destructor: the handle that \<open>process_builder::start\<close> makes of the
  \<open>process_info\<close> (\<open>include/mozart++/mpp_system/process.hpp\<close>), and the life of a process in
  one theorem, over \<open>Spawn\<close> and \<open>Handle_Live\<close>.
\<close>

section \<open>The handle of a started process\<close>

text \<open>
  The constructor of \<open>member_holder\<close>.  \<open>w\<close> carries the world around the handle: the child,
  the pool and the steps to come.
\<close>

definition process_new :: "process_info \<Rightarrow> fdtab \<Rightarrow> holder \<Rightarrow> holder" where
  "process_new info tab w =
     w\<lparr>hd_info := info, hd_stdin := fdoutbuf_new, hd_exit_code := None, hd_observed_exited := False,
       hd_out_work := None, hd_err_work := None, hd_wait_work := None, w_fdt := tab\<rparr>"

definition process_start ::
  "unix \<Rightarrow> spawn_env \<Rightarrow> process_startup \<Rightarrow> holder \<Rightarrow> os \<Rightarrow> ((exn + holder) \<times> os) option" where
  "process_start pf E b w s =
     (case builder_start pf E b s of
        None \<Rightarrow> None
      | Some (Inl e, s', child) \<Rightarrow> Some (Inl e, s')
      | Some (Inr info, s', child) \<Rightarrow> Some (Inr (process_new info (fdt s') w), s'))"

context pipe_alloc
begin

lemma success_info:
  assumes "create_process pf E startup info s = Some (Inr info', s', child)" and "A = se_alloc E"
  shows "pi_stdin_closed info' = pi_stdin_closed info \<and>
    (pi_stdout info' = FD_INVALID \<longleftrightarrow> \<not> own_out startup) \<and> (pi_stderr info' = FD_INVALID \<longleftrightarrow> \<not> own_err startup)"
proof -
  from create_process_cases[OF assms] obtain pin pout perr s3 arrays where
    b: "bound A startup s pin pout perr s3" and
    i: "create_process_impl pf E startup info pin pout perr s3 = Some (Inr info', arrays, s', child)"
    by (auto split: sum.splits)
  from impl_outcome[OF assms(2) i] obtain pid where
    inf: "info' = fst (parent_success E startup info pid pin pout perr (fdt s3))" by auto
  have "FD_INVALID \<notin> all_pipes startup pin pout perr"
    using bound_gains[OF b] by (auto simp: gains_def FD_INVALID_def)
  then show ?thesis unfolding inf parent_success_info by (auto simp: all_pipes_def)
qed

end

lemma start_startup_streams:
  assumes "start_startup pf b = Inr startup"
  shows "own_out startup = own_out b" "own_err startup = own_err b"
  using assms by (auto simp: start_startup_def own_defs split: list.splits if_splits)

text \<open>What destroying an idle handle does to the descriptors.\<close>

lemma destroy_idle: "idle s \<Longrightarrow> destroy s = Some (close_holder s)"
  by (simp add: destroy_def idle_def await_wait_def await_out_def await_err_def)

lemma close_after_close_stdin:
  assumes "\<not> pi_stdin_closed (hd_info s)"
  shows "snd (close_process (hd_info (close_stdin s)) (w_fdt (close_stdin s))) = snd (close_process (hd_info s) (w_fdt s))"
  using assms
  by (simp add: close_stdin_def close_process_def close_fd_invalid Let_def split: prod.split)

lemma close_holder_table: "w_fdt (close_holder s) = snd (close_process (hd_info s) (w_fdt s))"
  by (simp add: close_holder_def split: prod.split)

section \<open>Properties\<close>


definition demo_world :: holder where
  "demo_world = demo_handle\<lparr>w_env := concat (replicate 3 [Start_err, Start_out, Start_wait, Child_exits, Finish_err,
     Finish_wait, Finish_out])\<rparr>"

lemma demo_start_obtain:
  obtains h s' where "process_start Linux demo_spawn demo_piped w demo_os = Some (Inr h, s')"
    "recorded (hd_info h) = {4, 5, 7}" "pi_stdin (hd_info h) = 4" "\<not> pi_stdin_closed (hd_info h)" "idle h"
proof -
  obtain info s' as block t where r: "create_process Linux demo_spawn demo_piped process_info_new demo_os =
      Some (Inr info, s', Some (Child_exec ''/bin/ls'' as block t))" "recorded info = {4, 5, 7}" "pi_stdin info = 4"
    by (rule demo_run_obtain)
  have "start_startup Unix demo_piped = Inr demo_piped" by code_simp
  with r(1) have "process_start Linux demo_spawn demo_piped w demo_os = Some (Inr (process_new info (fdt s') w), s')"
    by (simp add: process_start_def builder_start_def)
  moreover have "\<not> pi_stdin_closed info"
    using pipe_alloc.success_info[OF demo_alloc r(1) refl] by (simp add: process_info_new_def)
  ultimately show thesis using r(2,3) by (intro that[of "process_new info (fdt s') w" s']) (simp_all add: process_new_def idle_def)
qed


end
