(* ===== verification/Handle_Stdin.thy ===== *)
theory Handle_Stdin
  imports Proc_Handle
begin

text \<open>
  The stream that \<open>in\<close> of the class \<open>process\<close> gives
  (\<open>include/mozart++/mpp_system/process.hpp\<close>), over the descriptor table of the process.  Its buffer
  (\<open>fdoutbuf\<close> of \<open>fdstream.hpp\<close>) keeps the number of the descriptor for good; after
  \<open>close_stdin\<close> that number is free and the next \<open>open\<close> may get it.
\<close>

section \<open>The stream over the descriptor table\<close>

abbreviation EBADF :: int where "EBADF \<equiv> 9"

text \<open>
  The handle, the descriptor that its \<open>fdostream\<close> was made with and the stream's \<open>badbit\<close>, what
  has been written to each open file, and the answers of the next calls of \<open>write\<close> as in \<open>Byte_Io\<close>.
\<close>

record stdin_world =
  sw_h :: holder
  sw_fd :: int
  sw_bad :: bool
  sw_sunk :: "ofile \<Rightarrow> string"
  sw_room :: "(int + nat) list"

definition fdostream_new :: "holder \<Rightarrow> (int + nat) list \<Rightarrow> stdin_world" where
  "fdostream_new h room = \<lparr>sw_h = h, sw_fd = pi_stdin (hd_info h), sw_bad = False, sw_sunk = (\<lambda>_. []), sw_room = room\<rparr>"

definition fd_write :: "int \<Rightarrow> (stdin_world, char) writer" where
  "fd_write fd w bs =
     (case w_fdt (sw_h w) fd of
        None \<Rightarrow> (Wfail EBADF, w)
      | Some e \<Rightarrow>
          (case pipe_write (sw_sunk w (obj e), sw_room w) bs of
             (r, out, room) \<Rightarrow> (r, w\<lparr>sw_sunk := (sw_sunk w)(obj e := out), sw_room := room\<rparr>)))"

text \<open>
  \<open>in().write\<close> and \<open>in().put\<close> go to the buffer unless the stream is bad, and when the buffer does
  not take all of it they make the stream bad.
\<close>

definition in_xsputn :: "string \<Rightarrow> stdin_world \<Rightarrow> nat \<times> stdin_world" where
  "in_xsputn str w = xsputn (fd_write (sw_fd w)) None (hd_stdin (sw_h w)) str w"

definition in_write :: "string \<Rightarrow> stdin_world \<Rightarrow> stdin_world" where
  "in_write str w =
     (if sw_bad w then w
      else case in_xsputn str w of (t, w') \<Rightarrow> if t \<noteq> length str then w'\<lparr>sw_bad := True\<rparr> else w')"

definition in_overflow :: "char \<Rightarrow> stdin_world \<Rightarrow> char option \<times> stdin_world" where
  "in_overflow c w = overflow (fd_write (sw_fd w)) (hd_stdin (sw_h w)) (Some c) w"

definition in_put :: "char \<Rightarrow> stdin_world \<Rightarrow> stdin_world" where
  "in_put c w =
     (if sw_bad w then w
      else case in_overflow c w of (r, w') \<Rightarrow> if r = None then w'\<lparr>sw_bad := True\<rparr> else w')"

definition fd_sunk :: "int \<Rightarrow> stdin_world \<Rightarrow> string" where
  "fd_sunk fd w = (case w_fdt (sw_h w) fd of None \<Rightarrow> [] | Some e \<Rightarrow> sw_sunk w (obj e))"

definition room_intr :: "stdin_world \<Rightarrow> nat" where
  "room_intr w = length (filter (\<lambda>x. x = Inl EINTR) (sw_room w))"

interpretation fdw: char_sink "fd_write fd" "fd_sunk fd" room_intr for fd
proof unfold_locales
  fix w :: stdin_world and bs n w'
  assume "fd_write fd w bs = (Wrote n, w')"
  then obtain e out room where e: "w_fdt (sw_h w) fd = Some e"
    and p: "pipe_write (sw_sunk w (obj e), sw_room w) bs = (Wrote n, out, room)"
    and w': "w' = w\<lparr>sw_sunk := (sw_sunk w)(obj e := out), sw_room := room\<rparr>"
    by (auto simp: fd_write_def split: option.splits prod.splits)
  from wpipe.wr_ok[OF p] e show "n \<le> length bs \<and> fd_sunk fd w' = fd_sunk fd w @ take n bs \<and> room_intr w' \<le> room_intr w"
    by (simp add: w' fd_sunk_def room_intr_def wpipe_intr_def)
next
  fix w :: stdin_world and bs er w'
  assume f: "fd_write fd w bs = (Wfail er, w')"
  show "fd_sunk fd w' = fd_sunk fd w \<and> room_intr w' \<le> room_intr w \<and> (er = EINTR \<longrightarrow> room_intr w' < room_intr w)"
  proof (cases "w_fdt (sw_h w) fd")
    case None
    with f show ?thesis by (auto simp: fd_write_def)
  next
    case (Some e)
    with f obtain out room where p: "pipe_write (sw_sunk w (obj e), sw_room w) bs = (Wfail er, out, room)"
      and w': "w' = w\<lparr>sw_sunk := (sw_sunk w)(obj e := out), sw_room := room\<rparr>"
      by (auto simp: fd_write_def split: prod.splits)
    from wpipe.wr_fail[OF p] Some show ?thesis
      by (simp add: w' fd_sunk_def room_intr_def wpipe_intr_def)
  qed
qed

text \<open>A write touches only the file that the descriptor refers to.\<close>

definition only_writes :: "ofile \<Rightarrow> stdin_world \<Rightarrow> stdin_world \<Rightarrow> bool" where
  "only_writes f w w' \<longleftrightarrow> sw_h w' = sw_h w \<and> sw_fd w' = sw_fd w \<and> sw_bad w' = sw_bad w \<and> (\<forall>g. g \<noteq> f \<longrightarrow> sw_sunk w' g = sw_sunk w g)"

lemma fd_write_only:
  "w_fdt (sw_h w) fd = Some e \<Longrightarrow> only_writes (obj e) w (snd (fd_write fd w bs))"
  by (auto simp: only_writes_def fd_write_def split: prod.split)

lemma xsputn_loop_keeps:
  assumes "P w" and "\<And>w bs. P w \<Longrightarrow> P (snd (wr w bs))"
  shows "P (snd (xsputn_loop wr mx s tot w))"
  using assms
proof (induction wr mx s tot w rule: xsputn_loop.induct)
  case (1 wr mx s tot w)
  obtain r w1 where r: "wr w (take (chunk_limit mx (length s - tot)) (drop tot s)) = (r, w1)" by fastforce
  then have "P w1" using 1(3)[OF 1(2)] by (metis snd_conv)
  with 1 r show ?case by (subst xsputn_loop.simps) auto
qed

lemma xsputn_only:
  assumes "w_fdt (sw_h w) fd = Some e"
  shows "only_writes (obj e) w (snd (xsputn (fd_write fd) mx b text w))"
proof -
  have "only_writes (obj e) w (snd (xsputn_loop (fd_write fd) mx text 0 w))"
  proof (rule xsputn_loop_keeps)
    show "only_writes (obj e) w (snd (fd_write fd v bs))" if "only_writes (obj e) w v" for v bs
      using fd_write_only[of v fd e bs] that assms by (simp add: only_writes_def)
  qed (simp add: only_writes_def)
  then show ?thesis by (simp add: xsputn_def only_writes_def)
qed

section \<open>Which operations touch standard input\<close>

definition same_stdin :: "holder \<Rightarrow> holder \<Rightarrow> bool" where
  "same_stdin s s' \<longleftrightarrow> hd_info s' = hd_info s \<and> hd_stdin s' = hd_stdin s \<and> w_fdt s' = w_fdt s"

lemma same_stdin_refl [simp]: "same_stdin s s"
  by (simp add: same_stdin_def)

lemma same_stdin_trans: "same_stdin s t \<Longrightarrow> same_stdin t u \<Longrightarrow> same_stdin s u"
  by (simp add: same_stdin_def)

lemma frame_stdin: "same_frame s s' \<Longrightarrow> same_stdin s s'"
  by (simp add: same_frame_def same_stdin_def)

lemma reaps_stdin: "reaps s s' \<Longrightarrow> same_stdin s s'"
  by (auto simp: reaps_def same_frame_def same_stdin_def)

lemma stdin_update [simp]:
  "same_stdin s (hd_exit_code_update f1 s') = same_stdin s s'"
  "same_stdin s (hd_observed_exited_update f2 s') = same_stdin s s'"
  "same_stdin s (hd_wait_work_update f3 s') = same_stdin s s'"
  "same_stdin s (hd_out_work_update f4 s') = same_stdin s s'"
  "same_stdin s (hd_err_work_update f5 s') = same_stdin s s'"
  "same_stdin s (w_out_update f6 s') = same_stdin s s'"
  "same_stdin s (w_err_update f7 s') = same_stdin s s'"
  by (simp_all add: same_stdin_def)

lemma queue_stdin: "uv_queue_work s = (ok, s') \<Longrightarrow> same_stdin s s'"
  using uv_queue_work_frame frame_stdin by blast

lemma begin_wait_stdin: "same_stdin s (begin_wait s)"
  by (auto simp: begin_wait_def queue_stdin split: prod.split bool.split)

lemma poll_wait_stdin: "same_stdin s (snd (poll_wait sigchld stat s))"
  using frame_stdin[OF uv_run_frame, of s]
  by (auto simp: poll_wait_def sync_check_def process_exited_ph take_wait_def Let_def split: bool.split)

lemma collect_wait_stdin:
  assumes "holder_inv s" and "collect_wait s = Some (c, s')"
  shows "same_stdin s s'"
proof (cases "hd_exit_code s")
  case None
  note e = this
  show ?thesis
  proof (cases "hd_wait_work s")
    case None
    with e assms(1) have "alone s" by (simp add: alone_def)
    from wait_for_alone[OF this] reaps_stdin e None assms(2) show ?thesis
      by (auto simp: collect_wait_def split: option.splits)
  next
    case (Some a)
    with spin_inv[OF _ assms(1)] frame_stdin e assms(2) show ?thesis
      by (fastforce simp: collect_wait_def take_wait_def split: option.splits)
  qed
qed (insert assms, auto simp: collect_wait_def)

lemma wait_timeout_stdin:
  assumes "holder_inv s" and "hd_wait_work s = None"
    and "process_wait_timeout_ms timeout_ms poll s = Some (r, s')"
  shows "same_stdin s s'"
proof (cases "hd_exit_code s")
  case None
  with assms(1,2) have al: "alone s" by (simp add: alone_def)
  from assms(3) None obtain b v s1 where
    w: "wait_timeout_ms ph_host (hd_info s) timeout_ms 0 poll s = Some (Waited b v s1)" and
    r: "s' = (if b then s1\<lparr>hd_exit_code := Some v\<rparr> else s1)"
    by (auto simp: process_wait_timeout_ms_def split: option.splits waited.splits bool.splits)
  have "same_stdin s s1"
  proof (cases "timeout_ms < 0")
    case True
    with w wait_for_alone[OF al] reaps_stdin show ?thesis
      by (auto simp: wait_timeout_ms_def split: option.splits)
  next
    case False
    with w obtain p rem where "wait_loop ph_host (pi_pid (hd_info s)) p rem 0 s = Some (Waited b v s1)"
      by (auto simp: wait_timeout_ms_def split: option.splits)
    from wait_loop_alone[OF this refl al] reaps_stdin frame_stdin show ?thesis by (cases b) auto
  qed
  then show ?thesis by (simp add: r)
qed (insert assms, auto simp: process_wait_timeout_ms_def)

lemma end_communicate_stdin:
  assumes "holder_inv s" and "end_communicate s = Some (r, s')"
  shows "same_stdin s s'"
proof -
  from assms(2) obtain out s1 err s2 code where o: "end_out s = Some (out, s1)" and e: "end_err s1 = Some (err, s2)"
    and c: "collect_wait s2 = Some (code, s')"
    by (auto simp: end_communicate_def split: option.splits)
  have i: "holder_inv s1" using end_out_spec[OF assms(1) o] by (simp add: delivers_def)
  then have i2: "holder_inv s2" using end_err_spec[OF i e] by (simp add: delivers_def)
  have "same_stdin s s1" using o spin_inv[OF _ assms(1)] frame_stdin by (fastforce simp: end_out_def split: if_splits)
  moreover have "same_stdin s1 s2" using e spin_inv[OF _ i] frame_stdin by (fastforce simp: end_err_def split: if_splits)
  ultimately show ?thesis using collect_wait_stdin[OF i2 c] same_stdin_trans by blast
qed

lemma begin_communicate_stdin: "same_stdin (close_stdin s) (begin_communicate s)"
proof -
  have q: "same_stdin u (case uv_queue_work t of (True, s') \<Rightarrow> f s' | (False, s') \<Rightarrow> s')"
    if "same_stdin u t" and "\<And>s'. same_stdin u s' \<Longrightarrow> same_stdin u (f s')" for u t f
    using that queue_stdin same_stdin_trans by (auto split: prod.split bool.split)
  show ?thesis unfolding begin_communicate_def Let_def
    by (auto intro!: q begin_wait_stdin)
qed

text \<open>So a step of the handle either leaves standard input alone or closes it.\<close>

lemma handle_step_stdin:
  "handle_step s out err s' \<Longrightarrow> holder_inv s \<Longrightarrow> same_stdin s s' \<or> same_stdin (close_stdin s) s'"
proof (induction rule: handle_step.induct)
  case (hs_env s a)
  then show ?case using frame_stdin[OF env_step_frame] by blast
next
  case (hs_read_out n s out s')
  then show ?case by (auto simp: read_out_def split: if_splits)
next
  case (hs_read_err n s err s')
  then show ?case by (auto simp: read_err_def split: if_splits)
next
  case (hs_collect_wait s c s')
  then show ?case using collect_wait_stdin by blast
next
  case (hs_wait_timeout s timeout_ms poll r s')
  then show ?case using wait_timeout_stdin by blast
next
  case (hs_end_communicate s r s')
  then show ?case using end_communicate_stdin by blast
qed (simp_all add: begin_wait_stdin poll_wait_stdin has_exited_poll_wait begin_communicate_stdin
  frame_stdin[OF uv_run_frame] poll_communicate_def Let_def)

section \<open>Histories\<close>

text \<open>
  Writes through the stream, steps of the handle, and what the rest of the program does with the
  descriptor table: it opens files at free numbers, and closes descriptors that are not the
  handle's.  The label is the text that the script writes.
\<close>

inductive stdin_step :: "nat \<Rightarrow> stdin_world \<Rightarrow> string \<Rightarrow> stdin_world \<Rightarrow> bool" for p where
  ss_write: "stdin_step p w str (in_write str w)"
| ss_put: "stdin_step p w [c] (in_put c w)"
| ss_handle: "handle_step (sw_h w) out err s' \<Longrightarrow> stdin_step p w [] (w\<lparr>sw_h := s'\<rparr>)"
| ss_open: "w_fdt (sw_h w) fd = None \<Longrightarrow> obj e \<noteq> Pipe_W p \<Longrightarrow>
    stdin_step p w [] (w\<lparr>sw_h := (sw_h w)\<lparr>w_fdt := (w_fdt (sw_h w))(fd \<mapsto> e)\<rparr>\<rparr>)"
| ss_close: "fd \<noteq> pi_stdin (hd_info (sw_h w)) \<Longrightarrow>
    stdin_step p w [] (w\<lparr>sw_h := (sw_h w)\<lparr>w_fdt := sys_close fd (w_fdt (sw_h w))\<rparr>\<rparr>)"

inductive stdin_history :: "nat \<Rightarrow> stdin_world \<Rightarrow> string \<Rightarrow> stdin_world \<Rightarrow> bool" for p w0 where
  sh_start: "stdin_history p w0 [] w0"
| sh_step: "stdin_history p w0 req w \<Longrightarrow> stdin_step p w str w' \<Longrightarrow> stdin_history p w0 (req @ str) w'"

text \<open>The stream can reach a file only while the descriptor is the handle's own.\<close>

definition owns_stdin :: "nat \<Rightarrow> int \<Rightarrow> holder \<Rightarrow> bool" where
  "owns_stdin p fd s \<longleftrightarrow>
     (out_valid (hd_stdin s) \<longrightarrow> \<not> pi_stdin_closed (hd_info s) \<and> pi_stdin (hd_info s) = fd) \<and>
     (\<not> pi_stdin_closed (hd_info s) \<longrightarrow> out_valid (hd_stdin s) \<and> fd \<noteq> FD_INVALID \<and>
        (case w_fdt s fd of None \<Rightarrow> False | Some e \<Rightarrow> obj e = Pipe_W p))"

lemma owns_same: "same_stdin s s' \<Longrightarrow> owns_stdin p fd s \<Longrightarrow> owns_stdin p fd s'"
  by (simp add: same_stdin_def owns_stdin_def)

lemma owns_closed: "owns_stdin p fd s \<Longrightarrow> owns_stdin p fd (close_stdin s)"
  by (auto simp: owns_stdin_def close_stdin_def invalidate_def Let_def)

text \<open>
  What has gone into the child's input is an initial part of what was written, all of it as long as
  the stream is good.
\<close>

definition stdin_inv :: "nat \<Rightarrow> string \<Rightarrow> stdin_world \<Rightarrow> bool" where
  "stdin_inv p req w \<longleftrightarrow> holder_inv (sw_h w) \<and> owns_stdin p (sw_fd w) (sw_h w) \<and>
     prefix (sw_sunk w (Pipe_W p)) req \<and> (\<not> sw_bad w \<longrightarrow> sw_sunk w (Pipe_W p) = req) \<and>
     (\<forall>f. f \<noteq> Pipe_W p \<longrightarrow> sw_sunk w f = [])"

lemma owned_entry:
  assumes "stdin_inv p req w" and "out_valid (hd_stdin (sw_h w))"
  obtains e where "w_fdt (sw_h w) (sw_fd w) = Some e" "obj e = Pipe_W p"
  using assms by (auto simp: stdin_inv_def owns_stdin_def split: option.splits)

lemma stdin_inv_bad: "stdin_inv p req w \<Longrightarrow> sw_bad w \<Longrightarrow> stdin_inv p (req @ str) w"
  by (simp add: stdin_inv_def)

text \<open>A write that takes \<open>taken\<close> of \<open>str\<close>, and makes the stream bad if that is not all.\<close>

lemma stdin_inv_write:
  assumes "stdin_inv p req w" and "\<not> sw_bad w" and "out_valid (hd_stdin (sw_h w))"
    and "only_writes (Pipe_W p) w w'" and "fd_sunk (sw_fd w) w' = fd_sunk (sw_fd w) w @ taken"
    and "prefix taken str" and "b \<longleftrightarrow> taken \<noteq> str"
  shows "stdin_inv p (req @ str) (w'\<lparr>sw_bad := b\<rparr>)"
proof -
  obtain e where "w_fdt (sw_h w) (sw_fd w) = Some e" "obj e = Pipe_W p" by (rule owned_entry[OF assms(1,3)])
  with assms(4,5) have "sw_sunk w' (Pipe_W p) = sw_sunk w (Pipe_W p) @ taken"
    by (simp add: fd_sunk_def only_writes_def)
  with assms show ?thesis by (auto simp: stdin_inv_def only_writes_def)
qed

lemma bad_same: "sw_bad w = b \<Longrightarrow> w\<lparr>sw_bad := b\<rparr> = w"
  by (cases w) simp

lemma in_write_inv:
  assumes "stdin_inv p req w"
  shows "stdin_inv p (req @ str) (in_write str w)"
proof (cases "sw_bad w")
  case True
  with stdin_inv_bad[OF assms] show ?thesis by (simp add: in_write_def)
next
  case False
  obtain t w' where t: "in_xsputn str w = (t, w')" by fastforce
  show ?thesis
  proof (cases "out_valid (hd_stdin (sw_h w))")
    case True
    then obtain e where e: "w_fdt (sw_h w) (sw_fd w) = Some e" "obj e = Pipe_W p" by (rule owned_entry[OF assms])
    have x: "xsputn (fd_write (sw_fd w)) None (hd_stdin (sw_h w)) str w = (t, w')"
      using t by (simp add: in_xsputn_def)
    have o: "only_writes (Pipe_W p) w w'" using xsputn_only[OF e(1), of None "hd_stdin (sw_h w)" str] e(2) x by simp
    have tk: "t \<le> length str" "fd_sunk (sw_fd w) w' = fd_sunk (sw_fd w) w @ take t str"
      using fdw.xsputn_spec[OF x] by simp_all
    have "in_write str w = w'\<lparr>sw_bad := (t \<noteq> length str)\<rparr>"
      using False o t by (auto simp: in_write_def bad_same only_writes_def)
    moreover have "t \<noteq> length str \<longleftrightarrow> take t str \<noteq> str" using tk(1) by auto
    ultimately show ?thesis
      using stdin_inv_write[OF assms False True o tk(2) take_is_prefix] by simp
  next
    case invalid: False
    then have "t = 0" "w' = w" using t by (simp_all add: in_xsputn_def xsputn_def)
    with assms False t show ?thesis by (cases str) (simp_all add: in_write_def stdin_inv_def owns_stdin_def)
  qed
qed

lemma in_put_inv:
  assumes "stdin_inv p req w"
  shows "stdin_inv p (req @ [c]) (in_put c w)"
proof (cases "sw_bad w")
  case True
  with stdin_inv_bad[OF assms] show ?thesis by (simp add: in_put_def)
next
  case False
  obtain r w' where r: "in_overflow c w = (r, w')" by fastforce
  show ?thesis
  proof (cases "out_valid (hd_stdin (sw_h w))")
    case True
    then obtain e where e: "w_fdt (sw_h w) (sw_fd w) = Some e" "obj e = Pipe_W p" by (rule owned_entry[OF assms])
    obtain q where q: "fd_write (sw_fd w) w [c] = (q, w')" and r': "r = (if wret q \<noteq> 1 then None else Some c)"
      using r True by (auto simp: in_overflow_def overflow_def split: prod.splits if_splits)
    have o: "only_writes (Pipe_W p) w w'" using fd_write_only[OF e(1), of "[c]"] e(2) q by simp
    have tk: "fd_sunk (sw_fd w) w' = fd_sunk (sw_fd w) w @ (if r = None then [] else [c])"
    proof (cases q)
      case (Wrote n)
      with fdw.wr_ok[OF q[unfolded Wrote]] r' show ?thesis by (cases n) auto
    next
      case (Wfail er)
      with fdw.wr_fail[OF q[unfolded Wfail]] r' show ?thesis by simp
    qed
    have "in_put c w = w'\<lparr>sw_bad := (r = None)\<rparr>"
      using False o r by (auto simp: in_put_def bad_same only_writes_def)
    then show ?thesis using stdin_inv_write[OF assms False True o tk, of "[c]" "r = None"] by simp
  next
    case invalid: False
    then have "r = None" "w' = w" using r by (simp_all add: in_overflow_def overflow_def)
    with assms False r show ?thesis by (simp add: in_put_def stdin_inv_def owns_stdin_def)
  qed
qed

lemma stdin_step_inv:
  "stdin_step p w str w' \<Longrightarrow> stdin_inv p req w \<Longrightarrow> stdin_inv p (req @ str) w'"
proof (induction rule: stdin_step.induct)
  case (ss_write w str)
  then show ?case by (rule in_write_inv)
next
  case (ss_put w c)
  then show ?case by (rule in_put_inv)
next
  case (ss_handle w out err s')
  then have "holder_inv (sw_h w)" "owns_stdin p (sw_fd w) (sw_h w)" by (simp_all add: stdin_inv_def)
  with handle_step_delivers[OF ss_handle(1)] handle_step_stdin[OF ss_handle(1)] owns_same owns_closed
  have "holder_inv s'" "owns_stdin p (sw_fd w) s'" by (auto simp: delivers_def)
  with ss_handle(2) show ?case by (simp add: stdin_inv_def)
next
  case (ss_open w fd e)
  then show ?case by (auto simp: stdin_inv_def owns_stdin_def holder_inv_def split: option.splits)
next
  case (ss_close fd w)
  then show ?case by (auto simp: stdin_inv_def owns_stdin_def holder_inv_def sys_close_def)
qed

lemma stdin_history_inv:
  "stdin_history p w0 req w \<Longrightarrow> stdin_inv p [] w0 \<Longrightarrow> stdin_inv p req w"
  by (induction rule: stdin_history.induct) (auto intro: stdin_step_inv)

text \<open>As long as nothing limits the pipe, all of the text is taken.\<close>

lemma xsputn_all:
  assumes "w_fdt (sw_h w) fd = Some e" and "sw_room w = []" and "out_valid b"
  shows "fst (xsputn (fd_write fd) None b str w) = length str"
  using assms
  by (simp add: xsputn_def) (subst xsputn_loop.simps, simp add: chunk_limit_def fd_write_def, simp add: xsputn_loop.simps)

section \<open>Properties\<close>

text \<open>
  C8. Over any history of a handle, with writes through \<open>in\<close>, its other operations, and a program
  that opens and closes other files: what has gone into the child's input is an initial part of all
  that was written, in order, and all of it while the stream is good; no other file got any of it; a
  good stream takes a whole text while the input is open and the child takes everything.  Once the
  input is closed a write only makes the stream bad, even if the number of the descriptor now belongs
  to another file.
\<close>

theorem stdin_reaches_child:
  assumes "fresh_handle h" and "owns_stdin p (pi_stdin (hd_info h)) h"
    and "stdin_history p (fdostream_new h room) req w"
  shows "prefix (sw_sunk w (Pipe_W p)) req \<and> (\<not> sw_bad w \<longrightarrow> sw_sunk w (Pipe_W p) = req) \<and>
    (\<forall>f. f \<noteq> Pipe_W p \<longrightarrow> sw_sunk w f = []) \<and>
    (if pi_stdin_closed (hd_info (sw_h w)) then in_write str w = w\<lparr>sw_bad := (sw_bad w \<or> str \<noteq> [])\<rparr>
     else sw_room w = [] \<and> \<not> sw_bad w \<longrightarrow> \<not> sw_bad (in_write str w))"
proof -
  have i: "stdin_inv p req w"
    using stdin_history_inv[OF assms(3)] fresh_inv[OF assms(1)] assms(2) by (simp add: stdin_inv_def fdostream_new_def)
  have "if pi_stdin_closed (hd_info (sw_h w)) then in_write str w = w\<lparr>sw_bad := (sw_bad w \<or> str \<noteq> [])\<rparr>
     else sw_room w = [] \<and> \<not> sw_bad w \<longrightarrow> \<not> sw_bad (in_write str w)"
  proof (cases "pi_stdin_closed (hd_info (sw_h w))")
    case True
    with i have "\<not> out_valid (hd_stdin (sw_h w))" by (simp add: stdin_inv_def owns_stdin_def)
    with True show ?thesis by (auto simp: in_write_def in_xsputn_def xsputn_def bad_same)
  next
    case False
    with i have v: "out_valid (hd_stdin (sw_h w))" by (simp add: stdin_inv_def owns_stdin_def)
    then obtain e where e: "w_fdt (sw_h w) (sw_fd w) = Some e" by (rule owned_entry[OF i])
    have "sw_bad (snd (in_xsputn str w)) = sw_bad w"
      using xsputn_only[OF e, of None "hd_stdin (sw_h w)" str] by (simp add: in_xsputn_def only_writes_def)
    moreover have "fst (in_xsputn str w) = length str" if "sw_room w = []"
      using xsputn_all[OF e that v] by (simp add: in_xsputn_def)
    ultimately show ?thesis using False by (auto simp: in_write_def split: prod.split)
  qed
  with i show ?thesis by (simp add: stdin_inv_def)
qed

definition demo_stdin :: stdin_world where
  "demo_stdin = fdostream_new demo_handle [Inr 2]"

text \<open>A text is written, the input closed, and its number given to another file.\<close>

definition demo_reused :: stdin_world where
  "demo_reused =
     (let w = in_write ''hello'' demo_stdin
      in w\<lparr>sw_h := (close_stdin (sw_h w))\<lparr>w_fdt := [4 \<mapsto> \<lparr>obj = Other 9, cloexec = False\<rparr>]\<rparr>\<rparr>)"

theorem stdin_reaches_child_witness:
  "stdin_history 0 demo_stdin ''hello'' demo_reused \<and> sw_sunk demo_reused (Pipe_W 0) = ''hello'' \<and>
   sw_sunk demo_reused (Other 9) = [] \<and> in_write ''x'' demo_reused = demo_reused\<lparr>sw_bad := True\<rparr>"
proof -
  let ?w1 = "in_write ''hello'' demo_stdin"
  have s1: "sw_h ?w1 = demo_handle" "\<not> sw_bad ?w1"
    by (simp_all add: in_write_def in_xsputn_def demo_stdin_def fdostream_new_def xsputn_def xsputn_loop.simps
      chunk_limit_def fd_write_def demo_handle_def fdoutbuf_new_def process_info_new_def)
  let ?w2 = "?w1\<lparr>sw_h := close_stdin (sw_h ?w1)\<rparr>"
  have c: "w_fdt (close_stdin demo_handle) = Map.empty" "pi_stdin_closed (hd_info (close_stdin demo_handle))"
    by (auto simp: close_stdin_def demo_handle_def close_fd_def sys_close_def process_info_new_def FD_INVALID_def Let_def)
  have r: "demo_reused = ?w2\<lparr>sw_h := (sw_h ?w2)\<lparr>w_fdt := (w_fdt (sw_h ?w2))(4 \<mapsto> \<lparr>obj = Other 9, cloexec = False\<rparr>)\<rparr>\<rparr>"
    using s1 c by (simp add: demo_reused_def Let_def)
  have "stdin_history 0 demo_stdin ''hello'' ?w1" using sh_step[OF sh_start ss_write] by fastforce
  then have "stdin_history 0 demo_stdin ''hello'' ?w2"
    using sh_step[OF _ ss_handle[OF hs_close_stdin]] by fastforce
  then have h: "stdin_history 0 demo_stdin ''hello'' demo_reused"
    unfolding r using sh_step[OF _ ss_open] c s1 by fastforce
  have f: "fresh_handle demo_handle" "owns_stdin 0 (pi_stdin (hd_info demo_handle)) demo_handle"
    by (simp_all add: fresh_handle_def owns_stdin_def demo_handle_def process_info_new_def
      fdoutbuf_new_def FD_INVALID_def)
  have "pi_stdin_closed (hd_info (sw_h demo_reused))" "\<not> sw_bad demo_reused" using c s1 by (simp_all add: r)
  with h stdin_reaches_child[OF f h[unfolded demo_stdin_def], of "''x''"] show ?thesis by simp
qed

end
