(* ===== verification/Handle_Close.thy ===== *)
theory Handle_Close
  imports Handle_Stdin
begin

text \<open>
  Which descriptors a handle closes (\<open>close_stdin\<close> and the destructor of
  \<open>include/mozart++/mpp_system/process.hpp\<close>), in a program that opens and closes other files in
  the meantime and may get the numbers that the handle has given back.
\<close>

section \<open>The descriptors of the handle\<close>

text \<open>
  The open files \<open>own\<close> are the parent's ends of the pipes.  The numbers that the handle has on record
  lead to them, and nothing else does.
\<close>

definition owns_recorded :: "ofile set \<Rightarrow> holder \<Rightarrow> bool" where
  "owns_recorded own s \<longleftrightarrow>
     (\<forall>fd\<in>recorded (hd_info s). \<exists>e. w_fdt s fd = Some e \<and> obj e \<in> own) \<and>
     (\<forall>fd e. w_fdt s fd = Some e \<and> obj e \<in> own \<longrightarrow> fd \<in> recorded (hd_info s)) \<and>
     (pi_stdin (hd_info s) \<noteq> FD_INVALID \<longrightarrow>
        pi_stdin (hd_info s) \<noteq> pi_stdout (hd_info s) \<and> pi_stdin (hd_info s) \<noteq> pi_stderr (hd_info s)) \<and>
     FD_INVALID \<notin> dom (w_fdt s)"

lemma owns_same_stdin: "same_stdin s s' \<Longrightarrow> owns_recorded own s \<Longrightarrow> owns_recorded own s'"
  by (simp add: same_stdin_def owns_recorded_def)

lemma owns_close_stdin:
  assumes "owns_recorded own s"
  shows "owns_recorded own (close_stdin s)"
proof (cases "pi_stdin_closed (hd_info s) \<or> pi_stdin (hd_info s) = FD_INVALID")
  case True
  then have "recorded (hd_info (close_stdin s)) = recorded (hd_info s)" "w_fdt (close_stdin s) = w_fdt s"
    "pi_stdin (hd_info (close_stdin s)) = pi_stdin (hd_info s)" "pi_stdout (hd_info (close_stdin s)) = pi_stdout (hd_info s)"
    "pi_stderr (hd_info (close_stdin s)) = pi_stderr (hd_info s)"
    by (auto simp: close_stdin_def recorded_def Let_def)
  with assms show ?thesis by (simp add: owns_recorded_def)
next
  case False
  let ?i = "hd_info s" and ?c = "close_stdin s"
  have d: "pi_stdin ?i \<notin> {pi_stdout ?i, pi_stderr ?i}" using assms False by (simp add: owns_recorded_def)
  have i: "hd_info ?c = ?i\<lparr>pi_stdin_closed := True, pi_stdin := FD_INVALID\<rparr>" "w_fdt ?c = (w_fdt s)(pi_stdin ?i := None)"
    using False by (simp_all add: close_stdin_def close_fd_def sys_close_def Let_def)
  have r: "recorded (hd_info ?c) = recorded ?i - {pi_stdin ?i}"
    using d False unfolding i(1) recorded_def by auto
  from assms have a: "\<And>fd. fd \<in> recorded ?i \<Longrightarrow> \<exists>e. w_fdt s fd = Some e \<and> obj e \<in> own"
    "\<And>fd e. w_fdt s fd = Some e \<Longrightarrow> obj e \<in> own \<Longrightarrow> fd \<in> recorded ?i" "w_fdt s FD_INVALID = None"
    unfolding owns_recorded_def by blast+
  have "\<exists>e. w_fdt ?c fd = Some e \<and> obj e \<in> own" if "fd \<in> recorded ?i - {pi_stdin ?i}" for fd
    using a(1)[of fd] that by (simp add: i(2))
  moreover have "fd \<in> recorded ?i - {pi_stdin ?i}" if "w_fdt ?c fd = Some e" "obj e \<in> own" for fd e
    using a(2)[of fd e] that by (simp add: i(2) split: if_splits)
  moreover have "FD_INVALID \<notin> dom (w_fdt ?c)" using a(3) by (simp add: i(2) dom_def)
  moreover have "pi_stdin (hd_info ?c) = FD_INVALID" by (simp add: i(1))
  ultimately show ?thesis unfolding owns_recorded_def r by blast
qed

text \<open>Steps of the handle, and what the rest of the program does with the descriptor table.\<close>

inductive program_step :: "ofile set \<Rightarrow> holder \<Rightarrow> holder \<Rightarrow> bool" for own where
  ps_handle: "handle_step s out err s' \<Longrightarrow> program_step own s s'"
| ps_open: "w_fdt s fd = None \<Longrightarrow> fd \<noteq> FD_INVALID \<Longrightarrow> obj e \<notin> own \<Longrightarrow> program_step own s (s\<lparr>w_fdt := (w_fdt s)(fd \<mapsto> e)\<rparr>)"
| ps_close: "w_fdt s fd = Some e \<Longrightarrow> obj e \<notin> own \<Longrightarrow> program_step own s (s\<lparr>w_fdt := sys_close fd (w_fdt s)\<rparr>)"

lemma program_step_owns:
  "program_step own s s' \<Longrightarrow> holder_inv s \<and> owns_recorded own s \<Longrightarrow> holder_inv s' \<and> owns_recorded own s'"
proof (induction rule: program_step.induct)
  case (ps_handle s out err s')
  with handle_step_delivers[OF ps_handle(1)] handle_step_stdin[OF ps_handle(1)] owns_same_stdin owns_close_stdin
  show ?case by (auto simp: delivers_def)
next
  case (ps_open s fd e)
  then have "holder_inv (s\<lparr>w_fdt := (w_fdt s)(fd \<mapsto> e)\<rparr>)" by (simp add: holder_inv_def)
  moreover have "fd \<notin> recorded (hd_info s)" using ps_open by (auto simp: owns_recorded_def)
  ultimately show ?case using ps_open by (auto simp: owns_recorded_def)
next
  case (ps_close s fd e)
  then have "holder_inv (s\<lparr>w_fdt := sys_close fd (w_fdt s)\<rparr>)" by (simp add: holder_inv_def)
  moreover have "fd \<notin> recorded (hd_info s)" using ps_close by (auto simp: owns_recorded_def)
  ultimately show ?case using ps_close by (auto simp: owns_recorded_def sys_close_def)
qed

lemma program_owns:
  "(program_step own)\<^sup>*\<^sup>* s s' \<Longrightarrow> holder_inv s \<Longrightarrow> owns_recorded own s \<Longrightarrow> holder_inv s' \<and> owns_recorded own s'"
  by (induction rule: rtranclp_induct) (use program_step_owns in blast)+

section \<open>The destructor\<close>

lemma spin_frame: "spin w s = Some s' \<Longrightarrow> same_frame s s'"
  using spin_step[of w s s' "same_frame s"] by (meson same_frame_refl same_frame_trans tick_frame uv_run_frame)

lemma await_stdin: "await_wait s = Some s' \<Longrightarrow> same_stdin s s'" "await_out s = Some s' \<Longrightarrow> same_stdin s s'"
  "await_err s = Some s' \<Longrightarrow> same_stdin s s'"
  using frame_stdin[OF spin_frame] by (fastforce simp: await_wait_def await_out_def await_err_def same_stdin_def split: if_splits)+

lemma close_process_table:
  "snd (close_process info tab) fd = (if fd \<in> recorded info then None else tab fd)"
  by (auto simp: close_process_def recorded_def close_fd_def sys_close_def Let_def split: prod.split)

lemma destroy_table:
  assumes "destroy s = Some s'"
  shows "w_fdt s' fd = (if fd \<in> recorded (hd_info s) then None else w_fdt s fd)"
proof -
  from assms obtain s1 s2 s3 where a: "await_wait s = Some s1" "await_out s1 = Some s2" "await_err s2 = Some s3"
    "s' = close_holder s3" by (auto simp: destroy_def split: option.splits)
  have "same_stdin s s3" using await_stdin a(1-3) same_stdin_trans by blast
  then show ?thesis by (simp add: a(4) same_stdin_def close_holder_def close_process_table[symmetric] split: prod.split)
qed

section \<open>Properties\<close>

text \<open>
  A handle closes its own descriptors and no others.  Whatever it does and whatever other files the
  program opens and closes meanwhile, also under numbers that the handle has already given back, when the
  destructor returns the parent's ends of the pipes are closed, all of them, and every other descriptor
  is as it was.
\<close>

theorem destroy_closes_own:
  assumes "fresh_handle s0" and "owns_recorded own s0" and "(program_step own)\<^sup>*\<^sup>* s0 s" and "destroy s = Some s'"
  shows "w_fdt s' fd =
    (case w_fdt s fd of None \<Rightarrow> None | Some e \<Rightarrow> if obj e \<in> own then None else Some e)"
proof -
  have "owns_recorded own s" using program_owns[OF assms(3) fresh_inv[OF assms(1)] assms(2)] by simp
  then show ?thesis unfolding destroy_table[OF assms(4)] by (auto simp: owns_recorded_def split: option.split)
qed

definition demo_pipes :: holder where
  "demo_pipes = demo_handle\<lparr>w_fdt := [4 \<mapsto> \<lparr>obj = Pipe_W 0, cloexec = True\<rparr>, 5 \<mapsto> \<lparr>obj = Pipe_R 1, cloexec = True\<rparr>,
     7 \<mapsto> \<lparr>obj = Pipe_R 2, cloexec = True\<rparr>]\<rparr>"

text \<open>Standard input is closed, another file gets its number, and the handle is destroyed.\<close>

definition demo_taken :: holder where
  "demo_taken = (close_stdin demo_pipes)\<lparr>w_fdt := (w_fdt (close_stdin demo_pipes))(4 \<mapsto> \<lparr>obj = Other 9, cloexec = True\<rparr>)\<rparr>"

theorem destroy_closes_own_witness:
  "\<exists>s'. destroy demo_taken = Some s' \<and> w_fdt s' 4 = Some \<lparr>obj = Other 9, cloexec = True\<rparr> \<and> w_fdt s' 5 = None"
proof -
  let ?own = "{Pipe_W 0, Pipe_R 1, Pipe_R 2}"
  have i: "hd_info demo_pipes = process_info_new\<lparr>pi_pid := 77, pi_stdin := 4, pi_stdout := 5, pi_stderr := 7\<rparr>"
    by (simp add: demo_pipes_def demo_handle_def)
  have f: "fresh_handle demo_pipes" by (simp add: fresh_handle_def demo_pipes_def demo_handle_def)
  have o: "owns_recorded ?own demo_pipes"
    unfolding owns_recorded_def i by (auto simp: recorded_def demo_pipes_def FD_INVALID_def process_info_new_def split: if_splits)
  have t: "w_fdt (close_stdin demo_pipes) 4 = None" "w_fdt (close_stdin demo_pipes) 5 = Some \<lparr>obj = Pipe_R 1, cloexec = True\<rparr>"
    by (simp_all add: close_stdin_def i close_fd_def sys_close_def FD_INVALID_def process_info_new_def Let_def)
      (simp_all add: demo_pipes_def)
  have "program_step ?own demo_pipes (close_stdin demo_pipes)" by (rule ps_handle[OF hs_close_stdin])
  moreover have "program_step ?own (close_stdin demo_pipes) demo_taken"
    unfolding demo_taken_def using t(1) by (intro ps_open) (simp_all add: FD_INVALID_def)
  ultimately have p: "(program_step ?own)\<^sup>*\<^sup>* demo_pipes demo_taken" by (meson converse_rtranclp_into_rtranclp r_into_rtranclp)
  have "destroy demo_taken = Some (close_holder demo_taken)"
    by (simp add: destroy_def await_wait_def await_out_def await_err_def demo_taken_def demo_pipes_def demo_handle_def
      close_stdin_def Let_def)
  moreover from this destroy_closes_own[OF f o p] t
  have "w_fdt (close_holder demo_taken) 4 = Some \<lparr>obj = Other 9, cloexec = True\<rparr>" "w_fdt (close_holder demo_taken) 5 = None"
    by (simp_all add: demo_taken_def)
  ultimately show ?thesis by blast
qed

end
