(* ===== verification/Handle_Destroy.thy ===== *)
theory Handle_Destroy
  imports Handle_Close Handle_Live
begin

text \<open>
  When the destructor of \<open>include/mozart++/mpp_system/process.hpp\<close> returns, and the move assignment,
  which destroys the handle that is overwritten.
\<close>

section \<open>Jobs that come to an end\<close>

text \<open>
  The child is gone, or nothing that the destructor does later keeps it from exiting: the destructor
  closes its standard input and reads its outputs no more.
\<close>

definition able_to_exit :: "holder \<Rightarrow> bool" where
  "able_to_exit s \<longleftrightarrow> w_child s \<noteq> Alive \<or>
     (w_needs_eof s \<longrightarrow> pi_stdin (hd_info s) = FD_INVALID) \<and>
     (w_needs_drain s \<longrightarrow> pi_stdout (hd_info s) = FD_INVALID \<and> pi_stderr (hd_info s) = FD_INVALID)"

text \<open>
  The steps to come are \<open>e1\<close> and then \<open>e2\<close>: the child exits in \<open>e1\<close>, and in \<open>e2\<close>
  no job starts and every job has its turn to finish.
\<close>

definition ends_in :: "env list \<Rightarrow> env list \<Rightarrow> holder \<Rightarrow> bool" where
  "ends_in e1 e2 s \<longleftrightarrow> w_env s = e1 @ e2 \<and> able_to_exit s \<and> (w_child s \<noteq> Alive \<or> Child_exits \<in> set e1) \<and>
     {Start_wait, Start_out, Start_err} \<inter> set e2 = {} \<and>
     (Finish_wait \<in> set e2 \<or> e1 = [] \<and> \<not> is_working (hd_wait_work s)) \<and>
     (Finish_out \<in> set e2 \<or> e1 = [] \<and> \<not> is_working (hd_out_work s)) \<and>
     (Finish_err \<in> set e2 \<or> e1 = [] \<and> \<not> is_working (hd_err_work s))"

definition settles :: "holder \<Rightarrow> bool" where
  "settles s \<longleftrightarrow> (\<exists>e1 e2. ends_in e1 e2 s)"

lemma is_working_finish: "\<not> is_working (finish_work f w)"
  by (cases w) (simp_all add: finish_work_def is_working_def)

lemma is_working_after [simp]: "is_working (map_option after_work_cb w) = is_working w"
  by (cases w) (simp_all add: is_working_def after_work_cb_def)

lemma is_working_cancel [simp]: "is_working (map_option uv_cancel w) = is_working w"
  by (cases w) (simp_all add: is_working_def uv_cancel_def)

lemma able_to_exit_step: "able_to_exit s \<Longrightarrow> able_to_exit (env_step a s)"
  by (cases a) (auto simp: able_to_exit_def)

lemma gone_env: "w_child s \<noteq> Alive \<Longrightarrow> w_child (env_step a s) \<noteq> Alive"
  by (cases a) auto

lemma child_exits_gone: "able_to_exit s \<Longrightarrow> w_child (env_step Child_exits s) \<noteq> Alive"
  by (auto simp: able_to_exit_def may_exit_def)

text \<open>A step that starts no job, taken when the child is gone.\<close>

lemma working_step:
  assumes "w_child s \<noteq> Alive" and "a \<notin> {Start_wait, Start_out, Start_err}"
  shows "is_working (hd_wait_work (env_step a s)) \<longleftrightarrow> is_working (hd_wait_work s) \<and> a \<noteq> Finish_wait"
    "is_working (hd_out_work (env_step a s)) \<longleftrightarrow> is_working (hd_out_work s) \<and> a \<noteq> Finish_out"
    "is_working (hd_err_work (env_step a s)) \<longleftrightarrow> is_working (hd_err_work s) \<and> a \<noteq> Finish_err"
  using assms by (cases a; simp add: is_working_finish)+

lemma ends_in_step:
  assumes "ends_in e1 e2 (s\<lparr>w_env := e1 @ e2\<rparr>)" and "e1 @ e2 = a # es"
  shows "settles (env_step a (s\<lparr>w_env := es\<rparr>))"
proof (cases e1)
  case (Cons b e1')
  with assms(2) have e: "b = a" "es = e1' @ e2" by simp_all
  let ?t = "env_step a (s\<lparr>w_env := es\<rparr>)"
  have "able_to_exit ?t" using assms(1) by (intro able_to_exit_step) (simp add: ends_in_def able_to_exit_def)
  moreover have "w_child ?t \<noteq> Alive \<or> Child_exits \<in> set e1'"
    using assms(1) e(1) Cons gone_env[of "s\<lparr>w_env := es\<rparr>" a] child_exits_gone[of "s\<lparr>w_env := es\<rparr>"]
    by (auto simp: ends_in_def able_to_exit_def)
  ultimately have "ends_in e1' e2 ?t" using assms(1) Cons e by (auto simp: ends_in_def env_keep_env)
  then show ?thesis by (auto simp: settles_def)
next
  case Nil
  with assms(2) have e: "e2 = a # es" by simp
  let ?s = "s\<lparr>w_env := es\<rparr>"
  from assms(1) Nil e have g: "w_child ?s \<noteq> Alive" "a \<notin> {Start_wait, Start_out, Start_err}"
    by (auto simp: ends_in_def)
  have "ends_in [] es (env_step a ?s)"
    using assms(1) Nil e working_step[OF g] gone_env[OF g(1), of a] by (auto simp: ends_in_def able_to_exit_def env_keep_env)
  then show ?thesis by (auto simp: settles_def)
qed

lemma settles_uv_run: "settles s \<Longrightarrow> settles (uv_run s)"
  by (simp add: settles_def ends_in_def able_to_exit_def uv_run_def)

lemma settles_turn:
  assumes "settles s"
  shows "settles (tick (uv_run s))"
proof (cases "w_env s")
  case Nil
  then show ?thesis using settles_uv_run[OF assms] by (simp add: tick_def uv_run_def)
next
  case (Cons a es)
  from settles_uv_run[OF assms] obtain e1 e2 where e: "ends_in e1 e2 (uv_run s)" by (auto simp: settles_def)
  then have w: "w_env (uv_run s) = e1 @ e2" by (simp add: ends_in_def)
  then have "ends_in e1 e2 ((uv_run s)\<lparr>w_env := e1 @ e2\<rparr>)" using e by (simp add: ends_in_def able_to_exit_def)
  from ends_in_step[OF this, of a es] w Cons have "settles (env_step a ((uv_run s)\<lparr>w_env := es\<rparr>))" by (simp add: uv_run_def)
  moreover have "w_env (uv_run s) = a # es" using Cons by (simp add: uv_run_def)
  ultimately show ?thesis by (simp add: tick_def)
qed

section \<open>The destructor returns\<close>

text \<open>A job that has begun or has been cancelled.\<close>

definition not_queued :: "async_work option \<Rightarrow> bool" where
  "not_queued w \<longleftrightarrow> (case w of None \<Rightarrow> False | Some a \<Rightarrow> aw_phase a \<noteq> Queued)"

lemma not_queued_start: "not_queued w \<Longrightarrow> not_queued (start_work s w)"
  and not_queued_finish: "not_queued w \<Longrightarrow> (\<And>a. aw_phase (f a) = aw_phase a) \<Longrightarrow> not_queued (finish_work f w)"
  and not_queued_after: "not_queued w \<Longrightarrow> not_queued (map_option after_work_cb w)"
  and not_queued_cancel: "w \<noteq> None \<Longrightarrow> not_queued (map_option uv_cancel w)"
  by (cases w; simp add: not_queued_def start_work_def finish_work_def after_work_cb_def uv_cancel_def)+

lemma not_queued_env:
  "not_queued (hd_wait_work s) \<Longrightarrow> not_queued (hd_wait_work (env_step a s))"
  "not_queued (hd_out_work s) \<Longrightarrow> not_queued (hd_out_work (env_step a s))"
  "not_queued (hd_err_work s) \<Longrightarrow> not_queued (hd_err_work (env_step a s))"
  by (cases a; simp add: not_queued_start not_queued_finish)+

lemma not_queued_turn:
  "not_queued (hd_wait_work s) \<Longrightarrow> not_queued (hd_wait_work (tick (uv_run s)))"
  "not_queued (hd_out_work s) \<Longrightarrow> not_queued (hd_out_work (tick (uv_run s)))"
  "not_queued (hd_err_work s) \<Longrightarrow> not_queued (hd_err_work (tick (uv_run s)))"
  by (simp_all add: tick_def uv_run_def not_queued_env not_queued_after split: list.split)

lemma spin_settles:
  assumes "job w" and "settles s" and "not_queued (w s)"
  shows "\<exists>s'. spin w s = Some s' \<and> settles s'"
  using assms(2,3)
proof (induction "length (w_env s)" arbitrary: s)
  case 0
  let ?t = "tick (uv_run s)"
  from 0 have e: "w_env s = []" by simp
  with 0(2) assms(1) have "\<not> is_working (w s)" by (auto simp: settles_def ends_in_def job_def)
  with 0(3) obtain a where a: "w s = Some a" "aw_phase a = Worked \<or> aw_phase a = Cancelled"
    by (cases "w s"; cases "aw_phase (the (w s))") (simp_all add: not_queued_def is_working_def)
  have t: "?t = uv_run s" using e by (simp add: tick_def uv_run_def)
  have "work_done (w ?t)" unfolding t using assms(1) a by (auto simp: job_def uv_run_def after_work_cb_def work_done_def)
  then have "spin w ?t = Some ?t" by (subst spin.simps) simp
  then show ?case using 0(2) settles_turn[OF 0(2)] by (subst spin.simps) simp
next
  case (Suc n)
  then obtain a es where "w_env s = a # es" by (cases "w_env s") auto
  then have "length (w_env (tick (uv_run s))) = n" using Suc(2) by (simp add: tick_def uv_run_def env_keep_env)
  moreover have "not_queued (w (tick (uv_run s)))" using assms(1) Suc(4) not_queued_turn by (auto simp: job_def)
  ultimately have "\<exists>s'. spin w (tick (uv_run s)) = Some s' \<and> settles s'"
    using Suc(1) settles_turn[OF Suc(3)] by blast
  then show ?case using Suc(3) by (subst spin.simps) auto
qed

text \<open>Waiting for one job and taking it out of the handle.\<close>

lemma await_job:
  assumes "job w" and "settles c" and "not_queued v" and "\<And>t. settles t \<Longrightarrow> settles (f t)" and "w c = v"
  shows "\<exists>s'. map_option f (spin w c) = Some s' \<and> settles s'"
  using spin_settles[OF assms(1,2)] assms(3-5) by auto

lemma await_settles:
  assumes "settles s"
  shows "\<exists>s'. await_wait s = Some s' \<and> settles s'" "\<exists>s'. await_out s = Some s' \<and> settles s'"
    "\<exists>s'. await_err s = Some s' \<and> settles s'"
proof -
  have drop: "settles (t\<lparr>hd_wait_work := None\<rparr>)" "settles (t\<lparr>hd_out_work := None\<rparr>)" "settles (t\<lparr>hd_err_work := None\<rparr>)"
    if "settles t" for t
    using that unfolding settles_def ends_in_def able_to_exit_def by (simp_all add: is_working_def) blast+
  have cancel: "settles (s\<lparr>hd_wait_work := map_option uv_cancel (hd_wait_work s)\<rparr>)"
    "settles (s\<lparr>hd_out_work := map_option uv_cancel (hd_out_work s)\<rparr>)"
    "settles (s\<lparr>hd_err_work := map_option uv_cancel (hd_err_work s)\<rparr>)"
    using assms by (simp_all add: settles_def ends_in_def able_to_exit_def)
  show "\<exists>s'. await_wait s = Some s' \<and> settles s'"
    using assms await_job[OF _ cancel(1) not_queued_cancel drop(1)]
    by (cases "hd_wait_work s = None") (simp_all add: await_wait_def job_def del: not_None_eq)
  show "\<exists>s'. await_out s = Some s' \<and> settles s'"
    using assms await_job[OF _ cancel(2) not_queued_cancel drop(2)]
    by (cases "hd_out_work s = None") (simp_all add: await_out_def job_def del: not_None_eq)
  show "\<exists>s'. await_err s = Some s' \<and> settles s'"
    using assms await_job[OF _ cancel(3) not_queued_cancel drop(3)]
    by (cases "hd_err_work s = None") (simp_all add: await_err_def job_def del: not_None_eq)
qed

lemma destroy_ends:
  assumes "settles s"
  shows "\<exists>s'. destroy s = Some s'"
proof -
  from await_settles(1)[OF assms] obtain s1 where 1: "await_wait s = Some s1" "settles s1" by blast
  from await_settles(2)[OF 1(2)] obtain s2 where 2: "await_out s1 = Some s2" "settles s2" by blast
  from await_settles(3)[OF 2(2)] obtain s3 where "await_err s2 = Some s3" by blast
  with 1 2 show ?thesis by (simp add: destroy_def)
qed

text \<open>
  C39. The destructor returns, whatever jobs are queued, running or over and however many threads the
  pool has, if the child is gone or exits in time without the destructor's help, and every
  job that runs has a turn to finish after that: queued jobs are cancelled, running ones are waited
  for.  The recorded descriptors are closed then and no others.
\<close>

theorem destroy_returns:
  assumes "w_env s = e1 @ e2" and "w_child s \<noteq> Alive \<or> Child_exits \<in> set e1"
    and "w_child s \<noteq> Alive \<or> (w_needs_eof s \<longrightarrow> pi_stdin (hd_info s) = FD_INVALID) \<and>
      (w_needs_drain s \<longrightarrow> pi_stdout (hd_info s) = FD_INVALID \<and> pi_stderr (hd_info s) = FD_INVALID)"
    and "{Start_wait, Start_out, Start_err} \<inter> set e2 = {}" and "{Finish_wait, Finish_out, Finish_err} \<subseteq> set e2"
  shows "\<exists>s'. destroy s = Some s' \<and> (\<forall>fd. w_fdt s' fd = (if fd \<in> recorded (hd_info s) then None else w_fdt s fd))"
proof -
  have "settles s" unfolding settles_def ends_in_def using assms by (auto simp: able_to_exit_def)
  with destroy_ends obtain s' where "destroy s = Some s'" by blast
  with destroy_table show ?thesis by blast
qed

text \<open>A waiter and two readers are queued; one thread; the waiter starts, the child exits, the waiter ends.\<close>

definition demo_leaving :: holder where
  "demo_leaving = demo_pipes\<lparr>hd_wait_work := Some async_work_new, hd_out_work := Some async_work_new,
     hd_err_work := Some async_work_new, w_pool := 1, w_needs_eof := False, w_needs_drain := False,
     w_env := [Start_wait, Start_out, Child_exits, Finish_wait, Finish_out, Finish_err]\<rparr>"

theorem destroy_returns_witness:
  "\<exists>s'. destroy demo_leaving = Some s' \<and> w_fdt s' 4 = None \<and> w_fdt s' 5 = None \<and> w_fdt s' 7 = None"
proof -
  let ?e1 = "[Start_wait, Start_out, Child_exits]" and ?e2 = "[Finish_wait, Finish_out, Finish_err]"
  have "w_env demo_leaving = ?e1 @ ?e2" "\<not> w_needs_eof demo_leaving" "\<not> w_needs_drain demo_leaving"
    by (simp_all add: demo_leaving_def)
  then have "\<exists>s'. destroy demo_leaving = Some s' \<and>
    (\<forall>fd. w_fdt s' fd = (if fd \<in> recorded (hd_info demo_leaving) then None else w_fdt demo_leaving fd))"
    by (intro destroy_returns[of _ ?e1 ?e2]) simp_all
  then obtain s' where "destroy demo_leaving = Some s'"
    "\<And>fd. w_fdt s' fd = (if fd \<in> recorded (hd_info demo_leaving) then None else w_fdt demo_leaving fd)" by blast
  moreover have "recorded (hd_info demo_leaving) = {4, 5, 7}"
    by (auto simp: recorded_def demo_leaving_def demo_pipes_def demo_handle_def FD_INVALID_def process_info_new_def)
  ultimately show ?thesis by auto
qed

end
