(* ===== verification/Process_Life.thy ===== *)
theory Process_Life
  imports Run_Process Handle_Destroy
begin

text \<open>
  From \<open>start\<close> to the destructor in a program that goes on opening and closing files: \<open>Spawn\<close>,
  \<open>Run_Process\<close> and \<open>Handle_Close\<close> together; and the move assignment of a handle
  (\<open>include/mozart++/mpp_system/process.hpp\<close>).
\<close>

section \<open>What a started handle owns\<close>

text \<open>The open files that the recorded descriptors lead to, and a table without given files.\<close>

definition parent_ends :: "holder \<Rightarrow> ofile set" where
  "parent_ends h = {obj e |fd e. fd \<in> recorded (hd_info h) \<and> w_fdt h fd = Some e}"

definition others :: "ofile set \<Rightarrow> fdtab \<Rightarrow> fdtab" where
  "others own tab fd = (case tab fd of None \<Rightarrow> None | Some e \<Rightarrow> if obj e \<in> own then None else Some e)"

text \<open>Pipes are numbered in the order of their creation; \<open>FD_INVALID\<close> is the number of no file.\<close>

definition known_pipes :: "os \<Rightarrow> bool" where
  "known_pipes s \<longleftrightarrow> FD_INVALID \<notin> dom (fdt s) \<and>
     (\<forall>fd e k. fdt s fd = Some e \<and> (obj e = Pipe_R k \<or> obj e = Pipe_W k) \<longrightarrow> k < npipe s)"

context pipe_alloc
begin

lemma success_recorded:
  assumes "create_process pf E startup info s = Some (Inr info', s', child)" and "A = se_alloc E"
  shows "\<forall>fd\<in>recorded info'. \<exists>k\<ge>npipe s. file_of (fdt s') fd = Some (Pipe_R k) \<or> file_of (fdt s') fd = Some (Pipe_W k)"
    "pi_stdin info' \<noteq> FD_INVALID \<Longrightarrow> pi_stdin info' \<noteq> pi_stdout info' \<and> pi_stdin info' \<noteq> pi_stderr info'"
proof -
  from create_process_cases[OF assms] obtain pin pout perr s3 arrays where
    b: "bound A startup s pin pout perr s3" and
    i: "create_process_impl pf E startup info pin pout perr s3 = Some (Inr info', arrays, s', child)"
    by (auto split: sum.splits)
  from impl_outcome[OF assms(2) i] obtain pid where
    inf: "info' = fst (parent_success E startup info pid pin pout perr (fdt s3))" and
    t: "fdt s' = snd (snd (parent_success E startup info pid pin pout perr (fdt s3)))" by auto
  have k: "fdt s' fd = fdt s3 fd" if "fd \<in> kept startup pin pout perr" for fd
    using that kept_dropped(2)[OF b] unfolding t parent_success_table
    by (auto simp: close_if_def close_fd_def sys_close_def dropped_def)
  have src: "own_in startup \<Longrightarrow> \<exists>k\<ge>npipe s. file_of (fdt s3) (pwrite pin) = Some (Pipe_W k)"
    "own_out startup \<Longrightarrow> \<exists>k\<ge>npipe s. file_of (fdt s3) (pread pout) = Some (Pipe_R k)"
    "own_err startup \<Longrightarrow> \<exists>k\<ge>npipe s. file_of (fdt s3) (pread perr) = Some (Pipe_R k)"
    using bound_sources[OF b] by (auto simp: source_ok_def own_defs)
  have "\<exists>k\<ge>npipe s. file_of (fdt s') fd = Some (Pipe_R k) \<or> file_of (fdt s') fd = Some (Pipe_W k)"
    if "fd \<in> recorded info'" for fd
  proof -
    have "fd \<in> kept startup pin pout perr"
      using that unfolding inf recorded_def parent_success_info by (auto simp: kept_def split: if_splits)
    with k src show ?thesis by (auto simp: kept_def split: if_splits)
  qed
  then show "\<forall>fd\<in>recorded info'. \<exists>k\<ge>npipe s. file_of (fdt s') fd = Some (Pipe_R k) \<or> file_of (fdt s') fd = Some (Pipe_W k)"
    by blast
  show "pi_stdin info' \<noteq> FD_INVALID \<Longrightarrow> pi_stdin info' \<noteq> pi_stdout info' \<and> pi_stdin info' \<noteq> pi_stderr info'"
    using src unfolding inf parent_success_info by (auto split: if_splits)
qed

end

lemma start_builds:
  assumes "process_start pf E b w s = Some (Inr h, s')"
  obtains startup info child where "create_process pf E startup process_info_new s = Some (Inr info, s', child)"
    "h = process_new info (fdt s') w"
  using assms that by (auto simp: process_start_def builder_start_def split: option.splits sum.splits)

lemma started_owns:
  assumes "pipe_alloc (se_alloc E)" and "known_pipes s" and "process_start pf E b w s = Some (Inr h, s')"
  shows "owns_recorded (parent_ends h) h" "others (parent_ends h) (w_fdt h) = fdt s"
proof -
  from start_builds[OF assms(3)] obtain startup info child where
    c: "create_process pf E startup process_info_new s = Some (Inr info, s', child)" and
    "h = process_new info (fdt s') w" .
  then have h: "hd_info h = info" "w_fdt h = fdt s'" by (simp_all add: process_new_def)
  note r = pipe_alloc.success_recorded[OF assms(1) c refl]
  from pipe_alloc.success_gains[OF assms(1) c refl] have
    g: "fd \<notin> recorded info \<Longrightarrow> fdt s' fd = fdt s fd" "fd \<in> recorded info \<Longrightarrow> fdt s fd = None" for fd
    by (simp_all add: gains_def)
  have new: "fd \<in> recorded info" if f: "w_fdt h fd = Some e" "obj e \<in> parent_ends h" for fd e
  proof (rule ccontr)
    assume "fd \<notin> recorded info"
    with f(1) g(1) h have o: "fdt s fd = Some e" by simp
    from f(2) obtain fd' e' where e': "fd' \<in> recorded info" "fdt s' fd' = Some e'" "obj e' = obj e"
      by (auto simp: parent_ends_def h)
    with r(1) obtain k where "npipe s \<le> k" "obj e = Pipe_R k \<or> obj e = Pipe_W k" by fastforce
    with o assms(2) show False by (simp add: known_pipes_def) (metis not_le)
  qed
  have some: "\<exists>e. w_fdt h fd = Some e \<and> obj e \<in> parent_ends h" if "fd \<in> recorded info" for fd
  proof -
    from r(1) that obtain e where "fdt s' fd = Some e" by fastforce
    with that h show ?thesis by (auto simp: parent_ends_def)
  qed
  have "FD_INVALID \<notin> dom (w_fdt h)"
    using assms(2) g(1)[of FD_INVALID] by (auto simp: h known_pipes_def recorded_def dom_def)
  with new some r(2) show "owns_recorded (parent_ends h) h" unfolding owns_recorded_def h(1) by blast
  show "others (parent_ends h) (w_fdt h) = fdt s"
  proof
    fix fd
    show "others (parent_ends h) (w_fdt h) fd = fdt s fd"
    proof (cases "fd \<in> recorded info")
      case True
      with some g(2) show ?thesis by (fastforce simp: others_def)
    next
      case False
      with new have "\<not> (\<exists>e. w_fdt h fd = Some e \<and> obj e \<in> parent_ends h)" by blast
      with False g(1) show ?thesis by (auto simp: others_def h split: option.split)
    qed
  qed
qed

lemma closed_others:
  assumes "owns_recorded own h"
  shows "(if fd \<in> recorded (hd_info h) then None else w_fdt h fd) = others own (w_fdt h) fd"
  using assms by (auto simp: owns_recorded_def others_def split: option.split)

section \<open>Properties\<close>

text \<open>
  C10. From \<open>start\<close> to the destructor in a program with other files.  The start adds the parent's ends
  of the new pipes to the files of the program and nothing else.  Whatever the handle does and whatever
  other files the program opens and closes after that, also under numbers that the handle has given
  back, the destructor takes these ends out of the table, all of them, and leaves the other files of the
  program as they are then.
\<close>

theorem started_handle_closes_own:
  assumes "pipe_alloc (se_alloc E)" and "known_pipes s" and "process_start pf E b w s = Some (Inr h, s')"
    and "w_child w \<noteq> Reaped" and "(program_step (parent_ends h))\<^sup>*\<^sup>* h h1" and "destroy h1 = Some h2"
  shows "others (parent_ends h) (w_fdt h) = fdt s \<and> w_fdt h2 = others (parent_ends h) (w_fdt h1)"
proof -
  note o = started_owns[OF assms(1-3)]
  from start_builds[OF assms(3)] obtain info where "h = process_new info (fdt s') w" .
  with assms(4) have "fresh_handle h" by (simp add: fresh_handle_def process_new_def)
  from program_owns[OF assms(5) fresh_inv[OF this] o(1)] have "owns_recorded (parent_ends h) h1" by simp
  from closed_others[OF this] o(2) show ?thesis by (auto simp: destroy_table[OF assms(6)] fun_eq_iff)
qed

text \<open>Standard input is closed, another file gets its number, and the handle is destroyed.\<close>

theorem started_handle_closes_own_witness:
  "\<exists>h s' h1 h2. process_start Linux demo_spawn demo_piped demo_world demo_os = Some (Inr h, s') \<and>
     h1 = (close_stdin h)\<lparr>w_fdt := (w_fdt (close_stdin h))(4 \<mapsto> \<lparr>obj = Other 9, cloexec = True\<rparr>)\<rparr> \<and> destroy h1 = Some h2 \<and>
     w_fdt h2 4 = Some \<lparr>obj = Other 9, cloexec = True\<rparr> \<and> w_fdt h2 5 = None"
proof -
  obtain h s' where st: "process_start Linux demo_spawn demo_piped demo_world demo_os = Some (Inr h, s')"
    and r: "recorded (hd_info h) = {4, 5, 7}" "pi_stdin (hd_info h) = 4" "\<not> pi_stdin_closed (hd_info h)" "idle h"
    by (rule demo_start_obtain[of demo_world])
  let ?f = "\<lparr>obj = Other 9, cloexec = True\<rparr>" and ?own = "parent_ends h"
  let ?h1 = "(close_stdin h)\<lparr>w_fdt := (w_fdt (close_stdin h))(4 \<mapsto> ?f)\<rparr>"
  have known: "known_pipes demo_os" by (auto simp: known_pipes_def demo_os_def FD_INVALID_def dom_def split: if_splits)
  note own = started_owns[OF demo_alloc known st]
  have w: "w_fdt (close_stdin h) = (w_fdt h)(4 := None)"
    using r(2,3) by (simp add: close_stdin_def close_fd_def sys_close_def FD_INVALID_def Let_def)
  have other: "Other 9 \<notin> ?own"
  proof
    assume "Other 9 \<in> ?own"
    then obtain fd e where fd: "fd \<in> recorded (hd_info h)" "w_fdt h fd = Some e" "obj e = Other 9" by (auto simp: parent_ends_def)
    from start_builds[OF st] obtain startup info child where
      "create_process Linux demo_spawn startup process_info_new demo_os = Some (Inr info, s', child)"
      "h = process_new info (fdt s') demo_world" .
    with pipe_alloc.success_recorded(1)[OF demo_alloc this(1) refl] fd show False by (auto simp: process_new_def)
  qed
  then have "program_step ?own (close_stdin h) ?h1" using w by (intro ps_open) (simp_all add: FD_INVALID_def)
  moreover have "program_step ?own h (close_stdin h)" by (rule ps_handle[OF hs_close_stdin])
  ultimately have p: "(program_step ?own)\<^sup>*\<^sup>* h ?h1" by (meson converse_rtranclp_into_rtranclp r_into_rtranclp)
  have "idle ?h1" using r(4) by (simp add: idle_def close_stdin_def Let_def)
  note d = destroy_idle[OF this]
  have "w_child demo_world \<noteq> Reaped" by (simp add: demo_world_def demo_handle_def)
  from started_handle_closes_own[OF demo_alloc known st this p d]
  have t: "w_fdt (close_holder ?h1) = others ?own (w_fdt ?h1)" by simp
  have "\<exists>e. w_fdt h 5 = Some e \<and> obj e \<in> ?own" using own(1) r(1) by (simp add: owns_recorded_def)
  then have "w_fdt (close_holder ?h1) 5 = None" unfolding t using w by (auto simp: others_def)
  moreover have "w_fdt (close_holder ?h1) 4 = Some ?f" unfolding t using other by (simp add: others_def)
  ultimately show ?thesis using st d by blast
qed

section \<open>Move assignment\<close>

text \<open>
  \<open>*this = std::move(other)\<close> of two handles that share the descriptors \<open>tab\<close> of the program:
  nothing happens if they are the same object; otherwise the pointer of \<open>other\<close> is taken out of
  it and stored, and the holder that \<open>this\<close> had, if it had one, is destroyed.  \<open>None\<close>: the
  destructor does not return.
\<close>

definition process_assign ::
  "bool \<Rightarrow> holder option \<Rightarrow> holder option \<Rightarrow> fdtab \<Rightarrow> (holder option \<times> holder option \<times> fdtab) option" where
  "process_assign same this other tab =
     (if same then Some (this, other, tab)
      else case this of
             None \<Rightarrow> Some (other, None, tab)
           | Some old \<Rightarrow>
               (case destroy (old\<lparr>w_fdt := tab\<rparr>) of None \<Rightarrow> None | Some s \<Rightarrow> Some (other, None, w_fdt s)))"

text \<open>
  Assigning to a handle closes the descriptors of the process that it stood for before and no
  others: the assignment returns if the destructor of the old handle can, the new handle keeps all its
  descriptors, and the object that was moved from has no process any more.
\<close>

theorem assign_closes_old:
  assumes "owns_recorded own (old\<lparr>w_fdt := tab\<rparr>)" and "owns_recorded own' (new\<lparr>w_fdt := tab\<rparr>)" and "own \<inter> own' = {}"
    and "settles old"
  shows "process_assign False (Some old) (Some new) tab = Some (Some new, None, others own tab) \<and>
    owns_recorded own' (new\<lparr>w_fdt := others own tab\<rparr>) \<and>
    (\<forall>fd\<in>recorded (hd_info new). others own tab fd = tab fd)"
proof -
  have "settles (old\<lparr>w_fdt := tab\<rparr>)" using assms(4) by (simp add: settles_def ends_in_def able_to_exit_def)
  from destroy_ends[OF this] obtain s where s: "destroy (old\<lparr>w_fdt := tab\<rparr>) = Some s" by blast
  have "w_fdt s = others own tab"
    using closed_others[OF assms(1)] destroy_table[OF s] by (simp add: fun_eq_iff)
  moreover have k: "others own tab fd = tab fd" if "fd \<in> recorded (hd_info new)" for fd
    using assms(2,3) that by (fastforce simp: owns_recorded_def others_def split: option.split)
  moreover have "owns_recorded own' (new\<lparr>w_fdt := others own tab\<rparr>)"
  proof -
    have "\<exists>e. others own tab fd = Some e \<and> obj e \<in> own'" if "fd \<in> recorded (hd_info new)" for fd
      using assms(2) k[OF that] that by (simp add: owns_recorded_def)
    moreover have "fd \<in> recorded (hd_info new)" if "others own tab fd = Some e" "obj e \<in> own'" for fd e
      using assms(2) that by (auto simp: owns_recorded_def others_def split: option.splits if_splits)
    moreover have "FD_INVALID \<notin> dom (others own tab)"
      using assms(2) by (auto simp: owns_recorded_def others_def dom_def split: option.splits)
    ultimately show ?thesis using assms(2) by (simp add: owns_recorded_def)
  qed
  ultimately show ?thesis using s by (simp add: process_assign_def)
qed

text \<open>Two processes with three pipes each; the second handle is moved over the first one.\<close>

definition demo_second :: holder where
  "demo_second = demo_handle\<lparr>hd_info := process_info_new\<lparr>pi_pid := 78, pi_stdin := 10, pi_stdout := 11, pi_stderr := 13\<rparr>\<rparr>"

definition demo_both :: fdtab where
  "demo_both = (w_fdt demo_pipes)(10 \<mapsto> \<lparr>obj = Pipe_W 3, cloexec = True\<rparr>, 11 \<mapsto> \<lparr>obj = Pipe_R 4, cloexec = True\<rparr>,
     13 \<mapsto> \<lparr>obj = Pipe_R 5, cloexec = True\<rparr>)"

theorem assign_closes_old_witness:
  "\<exists>tab. process_assign False (Some demo_leaving) (Some demo_second) demo_both = Some (Some demo_second, None, tab) \<and>
     tab 4 = None \<and> tab 5 = None \<and> tab 7 = None \<and> tab 10 = demo_both 10 \<and> tab 13 = demo_both 13"
proof -
  have i: "hd_info demo_leaving = process_info_new\<lparr>pi_pid := 77, pi_stdin := 4, pi_stdout := 5, pi_stderr := 7\<rparr>"
    "hd_info demo_second = process_info_new\<lparr>pi_pid := 78, pi_stdin := 10, pi_stdout := 11, pi_stderr := 13\<rparr>"
    by (simp_all add: demo_leaving_def demo_pipes_def demo_handle_def demo_second_def)
  let ?own = "{Pipe_W 0, Pipe_R 1, Pipe_R 2}" and ?own' = "{Pipe_W 3, Pipe_R 4, Pipe_R 5}"
  have "owns_recorded ?own (demo_leaving\<lparr>w_fdt := demo_both\<rparr>)"
    by (auto simp: owns_recorded_def i recorded_def demo_both_def demo_pipes_def FD_INVALID_def process_info_new_def split: if_splits)
  moreover have "owns_recorded ?own' (demo_second\<lparr>w_fdt := demo_both\<rparr>)"
    by (auto simp: owns_recorded_def i recorded_def demo_both_def demo_pipes_def FD_INVALID_def process_info_new_def split: if_splits)
  moreover have "settles demo_leaving"
    unfolding settles_def ends_in_def
    by (intro exI[of _ "[Start_wait, Start_out, Child_exits]"] exI[of _ "[Finish_wait, Finish_out, Finish_err]"])
      (simp add: able_to_exit_def demo_leaving_def)
  ultimately have "process_assign False (Some demo_leaving) (Some demo_second) demo_both =
      Some (Some demo_second, None, others ?own demo_both)"
    using assign_closes_old[of ?own demo_both demo_leaving ?own' demo_second] by simp
  then show ?thesis by (simp add: others_def demo_both_def demo_pipes_def)
qed

end
