(* ===== verification/Async_Loop.thy ===== *)
theory Async_Loop
  imports Proc_Handle
begin

text \<open>
  The calls by which a script drives the event loop itself: \<open>async.poll\<close>, \<open>poll_once\<close>,
  \<open>stop\<close> and \<open>restart\<close> (\<open>src/process.cpp\<close> of the root), for the jobs of one handle.
\<close>

section \<open>The loop\<close>

text \<open>
  The loop with its stop flag.  A job is a request of the loop until its callback has run.  Of a run
  that finds the flag set libuv says only that it ends as soon as possible and does not block: it clears
  the flag, and it may make one pass or none (\<open>passes\<close>).
\<close>

record uv_loop =
  lp_stop :: bool
  lp_h :: holder

definition pending :: "async_work option \<Rightarrow> bool" where
  "pending w = (case w of None \<Rightarrow> False | Some a \<Rightarrow> \<not> aw_done a)"

definition ready :: "async_work option \<Rightarrow> bool" where
  "ready w = (case w of None \<Rightarrow> False | Some a \<Rightarrow> \<not> aw_done a \<and> (aw_phase a = Worked \<or> aw_phase a = Cancelled))"

definition loop_alive :: "holder \<Rightarrow> bool" where
  "loop_alive s \<longleftrightarrow> pending (hd_wait_work s) \<or> pending (hd_out_work s) \<or> pending (hd_err_work s)"

definition loop_ready :: "holder \<Rightarrow> bool" where
  "loop_ready s \<longleftrightarrow> ready (hd_wait_work s) \<or> ready (hd_out_work s) \<or> ready (hd_err_work s)"

definition uv_stopped_run :: "bool \<Rightarrow> uv_loop \<Rightarrow> bool \<times> uv_loop" where
  "uv_stopped_run passes l =
     (let h = (if passes then uv_run (lp_h l) else lp_h l) in (loop_alive h, \<lparr>lp_stop = False, lp_h = h\<rparr>))"

definition async_poll :: "bool \<Rightarrow> uv_loop \<Rightarrow> bool \<times> uv_loop" where
  "async_poll passes l =
     (if lp_stop l then uv_stopped_run passes l
      else let h = uv_run (lp_h l) in (loop_alive h, l\<lparr>lp_h := h\<rparr>))"

text \<open>\<open>UV_RUN_ONCE\<close> waits for a request that is over, unless there is none.\<close>

partial_function (option) async_poll_once :: "bool \<Rightarrow> uv_loop \<Rightarrow> (bool \<times> uv_loop) option" where
  "async_poll_once passes l =
     (if lp_stop l then Some (uv_stopped_run passes l)
      else if \<not> loop_alive (lp_h l) then Some (False, l)
      else if loop_ready (lp_h l) then (let h = uv_run (lp_h l) in Some (loop_alive h, l\<lparr>lp_h := h\<rparr>))
      else async_poll_once passes (l\<lparr>lp_h := tick (lp_h l)\<rparr>))"

declare async_poll_once.simps [code]

definition async_stop :: "uv_loop \<Rightarrow> uv_loop" where
  "async_stop l = l\<lparr>lp_stop := True\<rparr>"

definition async_restart :: "uv_loop \<Rightarrow> uv_loop" where
  "async_restart l = l"

section \<open>What a run leaves\<close>

text \<open>A run does to the handle what the environment and \<open>uv_run\<close> do.\<close>

definition runs_to :: "holder \<Rightarrow> holder \<Rightarrow> bool" where
  "runs_to s s' \<longleftrightarrow> holder_inv s' \<and> same_frame s s'"

lemma runs_to_uv_run: "runs_to s t \<Longrightarrow> runs_to s (uv_run t)"
  unfolding runs_to_def using uv_run_inv uv_run_frame same_frame_trans by blast

lemma runs_to_tick: "runs_to s t \<Longrightarrow> runs_to s (tick t)"
  unfolding runs_to_def using tick_inv tick_frame same_frame_trans by blast

lemma poll_once_runs:
  "async_poll_once passes l = Some r \<Longrightarrow> runs_to s (lp_h l) \<Longrightarrow>
   runs_to s (lp_h (snd r)) \<and> \<not> lp_stop (snd r) \<and> fst r = loop_alive (lp_h (snd r))"
proof (induction rule: async_poll_once.raw_induct[rotated 1, consumes 1])
  case (1 once passes l r)
  show ?case
  proof (cases "lp_stop l \<or> \<not> loop_alive (lp_h l) \<or> loop_ready (lp_h l)")
    case True
    with 1(2,3) show ?thesis by (auto simp: uv_stopped_run_def runs_to_uv_run Let_def split: if_splits)
  next
    case False
    with 1(2) have "once passes (l\<lparr>lp_h := tick (lp_h l)\<rparr>) = Some r" by simp
    from 1(1)[OF this] runs_to_tick[OF 1(3)] show ?thesis by simp
  qed
qed

lemma poll_runs:
  "runs_to s (lp_h l) \<Longrightarrow> async_poll passes l = r \<Longrightarrow>
   runs_to s (lp_h (snd r)) \<and> fst r = loop_alive (lp_h (snd r))"
  by (cases "lp_stop l"; cases passes) (auto simp: async_poll_def uv_stopped_run_def runs_to_uv_run Let_def)

text \<open>When no job is pending, those that are there are over and their callbacks have run.\<close>

lemma not_alive_done: "\<not> loop_alive s \<Longrightarrow> hd_wait_work s \<noteq> None \<Longrightarrow> work_done (hd_wait_work s)"
  "\<not> loop_alive s \<Longrightarrow> hd_out_work s \<noteq> None \<Longrightarrow> work_done (hd_out_work s)"
  "\<not> loop_alive s \<Longrightarrow> hd_err_work s \<noteq> None \<Longrightarrow> work_done (hd_err_work s)"
  by (auto simp: loop_alive_def pending_def work_done_def)

lemma done_spin: "work_done (w s) \<Longrightarrow> spin w s = Some s"
  by (subst spin.simps) simp

lemma idle_end_communicate:
  assumes "\<not> loop_alive s" and "hd_wait_work s \<noteq> None" and "holder_inv s"
  shows "\<exists>r s'. end_communicate s = Some (r, s') \<and> w_env s' = w_env s \<and> w_child s' = w_child s"
proof -
  have e: "hd_exit_code s = None" using assms(2,3) by (auto simp: holder_inv_def)
  obtain out s1 where o: "end_out s = Some (out, s1)" "s1 = s\<lparr>hd_out_work := None\<rparr>"
    using not_alive_done(2)[OF assms(1)] by (cases "hd_out_work s") (auto simp: end_out_def done_spin)
  have "hd_err_work s1 = hd_err_work s" by (simp add: o(2))
  then obtain err s2 where er: "end_err s1 = Some (err, s2)" "s2 = s1\<lparr>hd_err_work := None\<rparr>"
    using not_alive_done(3)[OF assms(1)] by (cases "hd_err_work s") (auto simp: end_err_def done_spin)
  have "hd_wait_work s2 = hd_wait_work s" "hd_exit_code s2 = None" using e by (simp_all add: o(2) er(2))
  then have "collect_wait s2 = Some (the (hd_exit_code (take_wait s2)), take_wait s2)"
    using assms(2) not_alive_done(1)[OF assms(1,2)] by (auto simp: collect_wait_def done_spin)
  then show ?thesis using o er by (simp add: end_communicate_def take_wait_def)
qed

section \<open>Properties\<close>

text \<open>
  A script may drive the loop until it has no more work.  When \<open>poll\<close> or \<open>poll_once\<close> answers that
  nothing is left, everything that was begun can be collected at once: \<open>end_communicate\<close> returns without
  letting time pass, with the complete texts and the child's code.
\<close>

theorem drained_loop_collects:
  assumes "holder_inv (lp_h l)" and "hd_wait_work (lp_h l) \<noteq> None"
    and "async_poll_once passes l = Some (False, l') \<or> async_poll passes l = (False, l')"
  shows "\<exists>r s'. end_communicate (lp_h l') = Some (r, s') \<and> w_env s' = w_env (lp_h l') \<and>
    cr_exit_code r = w_code (lp_h l) \<and>
    (hd_out_work (lp_h l) \<noteq> None \<longrightarrow> cr_out r = out_left (lp_h l)) \<and>
    (hd_err_work (lp_h l) \<noteq> None \<longrightarrow> cr_err r = err_left (lp_h l))"
proof -
  have "runs_to (lp_h l) (lp_h l)" using assms(1) by (simp add: runs_to_def)
  from poll_once_runs[OF _ this] poll_runs[OF this] assms(3)
  have r: "holder_inv (lp_h l')" "same_frame (lp_h l) (lp_h l')" "\<not> loop_alive (lp_h l')"
    unfolding runs_to_def by fastforce+
  then have "hd_wait_work (lp_h l') \<noteq> None" using assms(2) by (simp add: same_frame_def)
  from idle_end_communicate[OF r(3) this r(1)] obtain x s' where
    e: "end_communicate (lp_h l') = Some (x, s')" "w_env s' = w_env (lp_h l')" by blast
  from end_communicate_spec[OF r(1) e(1)] r(2) e show ?thesis by (auto simp: same_frame_def)
qed

definition demo_loop :: uv_loop where
  "demo_loop = \<lparr>lp_stop = False, lp_h = begin_communicate demo_handle\<rparr>"

lemma demo_loop_drains:
  "case async_poll_once True demo_loop of
     Some (m1, l1) \<Rightarrow> (case async_poll_once True l1 of
       Some (m2, l2) \<Rightarrow> (case async_poll_once True l2 of Some (False, l3) \<Rightarrow> True | _ \<Rightarrow> False) | _ \<Rightarrow> False)
   | _ \<Rightarrow> False"
  by code_simp

theorem drained_loop_collects_witness:
  "\<exists>l l' r s'. async_poll_once True l = Some (False, l') \<and> end_communicate (lp_h l') = Some (r, s') \<and> cr_exit_code r = 3"
proof -
  obtain m1 l1 where p1: "async_poll_once True demo_loop = Some (m1, l1)"
    using demo_loop_drains by (cases "async_poll_once True demo_loop") auto
  obtain m2 l2 where p2: "async_poll_once True l1 = Some (m2, l2)"
    using demo_loop_drains p1 by (cases "async_poll_once True l1") auto
  obtain m3 l3 where p3: "async_poll_once True l2 = Some (m3, l3)"
    using demo_loop_drains p1 p2 by (cases "async_poll_once True l2") auto
  have "\<not> m3" using demo_loop_drains p1 p2 p3 by (cases m3) auto
  with p1 p2 p3 have p: "async_poll_once True demo_loop = Some (m1, l1)" "async_poll_once True l1 = Some (m2, l2)"
    "async_poll_once True l2 = Some (False, l3)" by simp_all
  have f: "fresh_handle demo_handle" "w_submit demo_handle = []" "w_code demo_handle = 3"
    by (simp_all add: fresh_handle_def demo_handle_def)
  have b: "holder_inv (lp_h demo_loop)" "w_code (lp_h demo_loop) = 3"
    using begin_communicate_spec[OF fresh_inv[OF f(1)] f(2)] f(3) by (simp_all add: demo_loop_def keeps_def)
  have "case hd_wait_work (lp_h demo_loop) of None \<Rightarrow> False | Some a \<Rightarrow> True" by code_simp
  then have w: "hd_wait_work (lp_h demo_loop) \<noteq> None" by (cases "hd_wait_work (lp_h demo_loop)") simp_all
  have "runs_to (lp_h demo_loop) (lp_h demo_loop)" using b(1) by (simp add: runs_to_def)
  from poll_once_runs[OF p(1) this] have "runs_to (lp_h demo_loop) (lp_h l1)" by simp
  from poll_once_runs[OF p(2) this] have "runs_to (lp_h demo_loop) (lp_h l2)" by simp
  then have l2: "holder_inv (lp_h l2)" "hd_wait_work (lp_h l2) \<noteq> None" "w_code (lp_h l2) = 3"
    using w b(2) by (simp_all add: runs_to_def same_frame_def)
  from drained_loop_collects[OF l2(1,2), of True l3] p(3) l2(3) show ?thesis by auto
qed

text \<open>
  \<open>poll_once\<close> waits as long as the job that it waits for.  While the only job is a waiter, the child
  waits for the end of its input and the input is open, it never returns, and no other fiber can run to
  close the input.
\<close>

theorem poll_once_blocks:
  assumes "waits_for_eof (lp_h l)" and "hd_out_work (lp_h l) = None" and "hd_err_work (lp_h l) = None"
    and "\<not> lp_stop l"
  shows "async_poll_once passes l = None"
proof (cases "async_poll_once passes l")
  case (Some r)
  then have False using assms
  proof (induction rule: async_poll_once.raw_induct[rotated 1, consumes 1])
    case (1 once passes l r)
    let ?s = "lp_h l"
    obtain a where a: "hd_wait_work ?s = Some a" "aw_phase a = Working" "\<not> aw_done a"
      using 1(3) by (auto simp: waits_for_eof_def)
    with 1(4,5) have "uv_run ?s = ?s" by (simp add: uv_run_def after_work_cb_def)
    with waits_for_eof_step[OF 1(3)] have t: "waits_for_eof (tick ?s)" by simp
    have n: "hd_out_work (tick ?s) = None" "hd_err_work (tick ?s) = None"
      using tick_frame[of ?s] 1(4,5) by (simp_all add: same_frame_def)
    have "loop_alive ?s" "\<not> loop_ready ?s"
      using a 1(4,5) by (simp_all add: loop_alive_def loop_ready_def pending_def ready_def)
    with 1(2,6) have "once passes (l\<lparr>lp_h := tick ?s\<rparr>) = Some r" by simp
    from 1(1)[OF this] t n 1(6) show False by simp
  qed
  then show ?thesis ..
qed

theorem poll_once_blocks_witness:
  "async_poll_once True \<lparr>lp_stop = False, lp_h = env_step Start_wait (begin_wait demo_handle)\<rparr> = None"
  by (rule poll_once_blocks)
    (simp_all add: waits_for_eof_def begin_wait_def uv_queue_work_def demo_handle_def start_work_def busy_def
      is_working_def async_work_new_def FD_INVALID_def)

end
