(* ===== verification/Mpp_File.thy ===== *)
theory Mpp_File
  imports Builder
begin

text \<open>
  The class \<open>file\<close> and \<open>open_file\<close> of \<open>include/mozart++/mpp_system/file.hpp\<close>, on both
  platforms.
\<close>

section \<open>State\<close>

text \<open>A stream wrapper is the descriptor it was made for.\<close>

record mfile =
  f_readable :: bool
  f_writable :: bool
  f_closed :: bool
  f_append :: bool
  f_read_pos :: int
  f_write_pos :: int
  f_istream :: "int option"
  f_ostream :: "int option"
  f_handle :: int
  f_uv_fd :: int
  f_fd :: int

text \<open>\<open>f_fd\<close> is used on Unix, \<open>f_handle\<close> and \<open>f_uv_fd\<close> on Windows.\<close>

abbreviation INVALID_HANDLE :: int where "INVALID_HANDLE \<equiv> -1"

definition file_new :: mfile where
  "file_new = \<lparr>f_readable = False, f_writable = False, f_closed = False, f_append = False, f_read_pos = 0,
     f_write_pos = 0, f_istream = None, f_ostream = None, f_handle = INVALID_HANDLE, f_uv_fd = -1, f_fd = -1\<rparr>"

definition configure :: "bool \<Rightarrow> bool \<Rightarrow> bool \<Rightarrow> mfile \<Rightarrow> mfile" where
  "configure readable writable append_mode f =
     f\<lparr>f_readable := readable, f_writable := writable, f_append := append_mode\<rparr>"

definition is_readable :: "mfile \<Rightarrow> bool" where
  "is_readable f \<longleftrightarrow> f_readable f \<and> \<not> f_closed f"

definition is_writable :: "mfile \<Rightarrow> bool" where
  "is_writable f \<longleftrightarrow> f_writable f \<and> \<not> f_closed f"

definition advance_read :: "int \<Rightarrow> mfile \<Rightarrow> mfile" where
  "advance_read n f = f\<lparr>f_read_pos := f_read_pos f + n\<rparr>"

definition advance_write :: "int \<Rightarrow> mfile \<Rightarrow> mfile" where
  "advance_write n f = f\<lparr>f_write_pos := f_write_pos f + n\<rparr>"

definition native_fd :: "platform \<Rightarrow> mfile \<Rightarrow> int" where
  "native_fd pf f = (case pf of Unix \<Rightarrow> f_fd f | Win32 \<Rightarrow> f_handle f)"

text \<open>The calls that close something.\<close>

datatype close_call = Close int | Crt_close int | Close_handle int

definition close_file :: "platform \<Rightarrow> mfile \<Rightarrow> mfile \<times> close_call list" where
  "close_file pf f =
     (if f_closed f then (f, [])
      else let f = f\<lparr>f_closed := True, f_istream := None, f_ostream := None\<rparr>
           in case pf of
                Win32 \<Rightarrow>
                  if f_uv_fd f \<ge> 0
                  then (f\<lparr>f_uv_fd := -1, f_handle := INVALID_HANDLE\<rparr>, [Crt_close (f_uv_fd f)])
                  else if f_handle f \<noteq> INVALID_HANDLE
                  then (f\<lparr>f_handle := INVALID_HANDLE\<rparr>, [Close_handle (f_handle f)])
                  else (f, [])
              | Unix \<Rightarrow> if f_fd f \<ge> 0 then (f\<lparr>f_fd := -1\<rparr>, [Close (f_fd f)]) else (f, []))"

definition out_stream :: "platform \<Rightarrow> mfile \<Rightarrow> int \<times> mfile" where
  "out_stream pf f =
     (let f = (if f_istream f = None then f\<lparr>f_istream := Some (native_fd pf f)\<rparr> else f)
      in (the (f_istream f), f))"

definition in_stream :: "platform \<Rightarrow> mfile \<Rightarrow> int \<times> mfile" where
  "in_stream pf f =
     (let f = (if f_ostream f = None then f\<lparr>f_ostream := Some (native_fd pf f)\<rparr> else f)
      in (the (f_ostream f), f))"

section \<open>Opening\<close>

text \<open>
  The file system maps a path to a content.  \<open>denied\<close> says which paths the system refuses to
  open, \<open>next\<close> is the descriptor or handle it gives, \<open>crt\<close> the descriptor of the C runtime
  (-1 when \<open>_open_osfhandle\<close> fails).
\<close>

type_synonym files = "string \<rightharpoonup> string"

datatype access = Rdonly | Wronly | Rdwr

record open_flags =
  of_access :: access
  of_creat :: bool
  of_trunc :: bool
  of_append :: bool
  of_cloexec :: bool

definition sys_open :: "(string \<Rightarrow> bool) \<Rightarrow> int \<Rightarrow> string \<Rightarrow> open_flags \<Rightarrow> files \<Rightarrow> int \<times> files" where
  "sys_open denied nxt path flags fs =
     (if denied path \<or> fs path = None \<and> \<not> of_creat flags then (-1, fs)
      else (nxt, if of_trunc flags \<or> fs path = None then fs(path \<mapsto> []) else fs))"

datatype disposition = Open_existing | Create_always | Open_always

definition CreateFileA ::
  "(string \<Rightarrow> bool) \<Rightarrow> int \<Rightarrow> string \<Rightarrow> bool \<times> bool \<Rightarrow> disposition \<Rightarrow> files \<Rightarrow> int \<times> files" where
  "CreateFileA denied nxt path access disposition fs =
     (if denied path \<or> fs path = None \<and> disposition = Open_existing then (INVALID_HANDLE, fs)
      else (nxt, if disposition = Create_always \<or> fs path = None then fs(path \<mapsto> []) else fs))"

text \<open>What a call leaves: \<open>o_pos\<close> is the file position of the new descriptor or handle.\<close>

record opened =
  o_file :: "mfile option result"
  o_files :: files
  o_closes :: "close_call list"
  o_flags :: "open_flags option"
  o_pos :: nat

definition file_mode :: "string \<Rightarrow> (bool \<times> bool \<times> bool \<times> bool \<times> bool) result" where
  "file_mode mode =
     (let read_only = (mode = ''r'');
          write_only = (mode = ''w'' \<or> mode = ''a'');
          read_write = (mode = ''r+'' \<or> mode = ''w+'' \<or> mode = ''a+'');
          append_mode = (mode = ''a'' \<or> mode = ''a+'');
          create_trunc = (mode = ''w'' \<or> mode = ''w+'')
      in if \<not> read_only \<and> \<not> write_only \<and> \<not> read_write
         then Inl (Runtime_error (''unsupported file mode: '' @ mode))
         else Inr (read_only, write_only, read_write, append_mode, create_trunc))"

definition open_unix :: "(string \<Rightarrow> bool) \<Rightarrow> int \<Rightarrow> string \<Rightarrow> string \<Rightarrow> files \<Rightarrow> opened" where
  "open_unix denied nxt path mode fs =
     (case file_mode mode of
        Inl e \<Rightarrow> \<lparr>o_file = Inl e, o_files = fs, o_closes = [], o_flags = None, o_pos = 0\<rparr>
      | Inr (read_only, write_only, read_write, append_mode, create_trunc) \<Rightarrow>
          let f = configure (read_only \<or> read_write) (write_only \<or> read_write) append_mode file_new;
              flags = (if read_only
                       then \<lparr>of_access = Rdonly, of_creat = False, of_trunc = False, of_append = False, of_cloexec = True\<rparr>
                       else if write_only
                       then \<lparr>of_access = Wronly, of_creat = True, of_trunc = create_trunc,
                             of_append = \<not> create_trunc, of_cloexec = True\<rparr>
                       else \<lparr>of_access = Rdwr, of_creat = create_trunc \<or> append_mode, of_trunc = create_trunc,
                             of_append = \<not> create_trunc \<and> append_mode, of_cloexec = True\<rparr>);
              (fd, fs') = sys_open denied nxt path flags fs
          in if fd < 0 then \<lparr>o_file = Inr None, o_files = fs', o_closes = snd (close_file Unix f), o_flags = Some flags, o_pos = 0\<rparr>
             else \<lparr>o_file = Inr (Some (f\<lparr>f_fd := fd\<rparr>)), o_files = fs', o_closes = [], o_flags = Some flags, o_pos = 0\<rparr>)"

text \<open>
  A \<open>shared_ptr\<close> that is dropped on the way destroys the file, which closes it.  For appending the
  handle is moved to the end of the file, once.
\<close>

definition open_win :: "(string \<Rightarrow> bool) \<Rightarrow> int \<Rightarrow> int \<Rightarrow> string \<Rightarrow> string \<Rightarrow> files \<Rightarrow> opened" where
  "open_win denied nxt crt path mode fs =
     (case file_mode mode of
        Inl e \<Rightarrow> \<lparr>o_file = Inl e, o_files = fs, o_closes = [], o_flags = None, o_pos = 0\<rparr>
      | Inr (read_only, write_only, read_write, append_mode, create_trunc) \<Rightarrow>
          let f = configure (read_only \<or> read_write) (write_only \<or> read_write) append_mode file_new;
              access = (is_readable f, is_writable f);
              disposition = (if create_trunc then Create_always else if append_mode then Open_always else Open_existing);
              (h, fs') = CreateFileA denied nxt path access disposition fs
          in if h = INVALID_HANDLE
             then \<lparr>o_file = Inr None, o_files = fs', o_closes = snd (close_file Win32 f), o_flags = None, o_pos = 0\<rparr>
             else let f = f\<lparr>f_handle := h\<rparr>
                  in if crt = -1
                     then \<lparr>o_file = Inl (Runtime_error ''_open_osfhandle failed for file handle''), o_files = fs',
                           o_closes = Close_handle h # snd (close_file Win32 f), o_flags = None, o_pos = 0\<rparr>
                     else \<lparr>o_file = Inr (Some (f\<lparr>f_uv_fd := crt\<rparr>)), o_files = fs', o_closes = [], o_flags = None,
                           o_pos = (if append_mode then length (the (fs' path)) else 0)\<rparr>)"

section \<open>The life of a file\<close>

text \<open>What can be done with an open file, with the closing calls so far.\<close>

inductive file_step :: "platform \<Rightarrow> mfile \<times> close_call list \<Rightarrow> mfile \<times> close_call list \<Rightarrow> bool" for pf where
  fs_close: "close_file pf f = (f', cs) \<Longrightarrow> file_step pf (f, log) (f', log @ cs)"
| fs_out: "out_stream pf f = (fd, f') \<Longrightarrow> file_step pf (f, log) (f', log)"
| fs_in: "in_stream pf f = (fd, f') \<Longrightarrow> file_step pf (f, log) (f', log)"
| fs_read: "file_step pf (f, log) (advance_read n f, log)"
| fs_write: "file_step pf (f, log) (advance_write n f, log)"

inductive_cases file_stepE: "file_step pf s s'"

text \<open>An open file owns one descriptor; a closed one owns none and has been closed once.\<close>

definition file_inv :: "platform \<Rightarrow> close_call \<Rightarrow> int \<times> int \<times> int \<Rightarrow> mfile \<times> close_call list \<Rightarrow> bool" where
  "file_inv pf c own s = (case s of (f, log) \<Rightarrow>
     (if f_closed f then log = [c] \<and> native_fd pf f = -1 \<and> (pf = Win32 \<longrightarrow> f_uv_fd f = -1)
      else log = [] \<and> (f_fd f, f_handle f, f_uv_fd f) = own \<and>
        (\<forall>fd. f_istream f = Some fd \<or> f_ostream f = Some fd \<longrightarrow> fd = native_fd pf f)))"

definition owns :: "platform \<Rightarrow> int \<times> int \<times> int \<Rightarrow> close_call \<Rightarrow> bool" where
  "owns pf own c = (case own of (fd, h, crt) \<Rightarrow>
     (case pf of Unix \<Rightarrow> fd \<ge> 0 \<and> c = Close fd | Win32 \<Rightarrow> crt \<ge> 0 \<and> c = Crt_close crt))"

lemma file_step_inv:
  assumes "file_step pf s s'" and "file_inv pf c own s" and "owns pf own c"
  shows "file_inv pf c own s'"
  using assms(1)
proof (cases rule: file_step.cases)
  case (fs_close f f' cs log)
  with assms(2,3) show ?thesis
    by (cases pf) (auto simp: file_inv_def owns_def close_file_def native_fd_def Let_def split: if_splits prod.splits)
next
  case (fs_out f fd f' log)
  with assms(2) show ?thesis by (cases pf) (auto simp: file_inv_def out_stream_def native_fd_def Let_def split: if_splits)
next
  case (fs_in f fd f' log)
  with assms(2) show ?thesis by (cases pf) (auto simp: file_inv_def in_stream_def native_fd_def Let_def split: if_splits)
next
  case (fs_read f log n)
  with assms(2) show ?thesis by (cases pf) (auto simp: file_inv_def advance_read_def native_fd_def split: if_splits)
next
  case (fs_write f log n)
  with assms(2) show ?thesis by (cases pf) (auto simp: file_inv_def advance_write_def native_fd_def split: if_splits)
qed

lemma file_steps_inv:
  "(file_step pf)\<^sup>*\<^sup>* s s' \<Longrightarrow> file_inv pf c own s \<Longrightarrow> owns pf own c \<Longrightarrow> file_inv pf c own s'"
  by (induction rule: rtranclp_induct) (use file_step_inv in blast)+

lemma destroyed_once:
  assumes "file_inv pf c own (f, log)" and "owns pf own c"
  shows "log @ snd (close_file pf f) = [c]"
  using assms by (cases pf) (auto simp: file_inv_def owns_def close_file_def Let_def split: if_splits)

section \<open>Properties\<close>

text \<open>
  The table of modes in the documentation: reading, writing, appending, creating a missing file,
  truncating an existing one.
\<close>

definition mode_table :: "(string \<times> bool \<times> bool \<times> bool \<times> bool \<times> bool) list" where
  "mode_table =
     [(''r'', True, False, False, False, False), (''w'', False, True, False, True, True),
      (''a'', False, True, True, True, False), (''r+'', True, True, False, False, False),
      (''w+'', True, True, False, True, True), (''a+'', True, True, True, True, False)]"

definition opens_as ::
  "platform \<Rightarrow> (string \<Rightarrow> bool) \<Rightarrow> int \<Rightarrow> string \<Rightarrow> string \<Rightarrow> files \<Rightarrow> opened \<Rightarrow> bool" where
  "opens_as pf denied nxt path mode fs r \<longleftrightarrow>
     (case map_of mode_table mode of
        None \<Rightarrow> o_file r = Inl (Runtime_error (''unsupported file mode: '' @ mode)) \<and> o_files r = fs
      | Some (rd, wr, app, creat, trunc) \<Rightarrow>
          if denied path \<or> fs path = None \<and> \<not> creat then o_file r = Inr None \<and> o_files r = fs
          else o_files r = (if trunc \<or> fs path = None then fs(path \<mapsto> []) else fs) \<and>
            (case o_file r of
               Inr (Some f) \<Rightarrow> is_readable f = rd \<and> is_writable f = wr \<and> f_append f = app \<and> native_fd pf f = nxt
             | _ \<Rightarrow> False)) \<and> o_closes r = []"

lemma mode_cases:
  "(\<exists>row. map_of mode_table mode = Some row \<and> mode \<in> {''r'', ''w'', ''a'', ''r+'', ''w+'', ''a+''}) \<or>
   map_of mode_table mode = None \<and> mode \<notin> {''r'', ''w'', ''a'', ''r+'', ''w+'', ''a+''}"
  by (auto simp: mode_table_def)

lemma open_unix_as:
  assumes "0 \<le> nxt"
  shows "opens_as Unix denied nxt path mode fs (open_unix denied nxt path mode fs)"
proof (cases "map_of mode_table mode")
  case None
  with mode_cases[of mode] have "mode \<notin> {''r'', ''w'', ''a'', ''r+'', ''w+'', ''a+''}" by simp
  with None show ?thesis by (simp add: opens_as_def open_unix_def file_mode_def)
next
  case (Some row)
  with mode_cases[of mode] consider "mode = ''r''" | "mode = ''w''" | "mode = ''a''" | "mode = ''r+''"
    | "mode = ''w+''" | "mode = ''a+''" by auto
  then show ?thesis using assms
    by cases (simp_all add: opens_as_def open_unix_def file_mode_def mode_table_def sys_open_def configure_def
      file_new_def is_readable_def is_writable_def native_fd_def close_file_def Let_def)
qed

lemma open_win_as:
  assumes "0 \<le> nxt" and "0 \<le> crt"
  shows "opens_as Win32 denied nxt path mode fs (open_win denied nxt crt path mode fs)"
proof (cases "map_of mode_table mode")
  case None
  with mode_cases[of mode] have "mode \<notin> {''r'', ''w'', ''a'', ''r+'', ''w+'', ''a+''}" by simp
  with None show ?thesis by (simp add: opens_as_def open_win_def file_mode_def)
next
  case (Some row)
  with mode_cases[of mode] consider "mode = ''r''" | "mode = ''w''" | "mode = ''a''" | "mode = ''r+''"
    | "mode = ''w+''" | "mode = ''a+''" by auto
  then show ?thesis using assms
    by cases (simp_all add: opens_as_def open_win_def file_mode_def mode_table_def CreateFileA_def configure_def
      file_new_def is_readable_def is_writable_def native_fd_def close_file_def Let_def)
qed

text \<open>
  On both platforms \<open>open_file\<close> does what the table of modes says: the same permissions, the
  same effect on the file system, the same failures, and nothing is left open after a failure.
\<close>

theorem open_file_modes:
  assumes "0 \<le> nxt" and "0 \<le> crt"
  shows "opens_as Unix denied nxt path mode fs (open_unix denied nxt path mode fs) \<and>
    opens_as Win32 denied nxt path mode fs (open_win denied nxt crt path mode fs)"
  using open_unix_as[OF assms(1)] open_win_as[OF assms] by blast

theorem open_file_modes_witness:
  "o_files (open_unix (\<lambda>_. False) 3 ''log'' ''a'' [''log'' \<mapsto> ''x'']) = [''log'' \<mapsto> ''x''] \<and>
   o_file (open_win (\<lambda>_. False) 3 4 ''data'' ''r+'' [''log'' \<mapsto> ''x'']) = Inr None"
  using open_file_modes[of 3 4 "\<lambda>_. False" "''log''" "''a''" "[''log'' \<mapsto> ''x'']"]
    open_file_modes[of 3 4 "\<lambda>_. False" "''data''" "''r+''" "[''log'' \<mapsto> ''x'']"]
  by (simp add: opens_as_def mode_table_def)

definition open_on :: "platform \<Rightarrow> (string \<Rightarrow> bool) \<Rightarrow> int \<Rightarrow> int \<Rightarrow> string \<Rightarrow> string \<Rightarrow> files \<Rightarrow> opened" where
  "open_on pf denied nxt crt path mode fs =
     (case pf of Unix \<Rightarrow> open_unix denied nxt path mode fs | Win32 \<Rightarrow> open_win denied nxt crt path mode fs)"

lemma opened_inv:
  assumes "o_file (open_on pf denied nxt crt path mode fs) = Inr (Some f)" and "0 \<le> nxt" and "0 \<le> crt"
  shows "file_inv pf (case pf of Unix \<Rightarrow> Close nxt | Win32 \<Rightarrow> Crt_close crt) (f_fd f, f_handle f, f_uv_fd f) (f, []) \<and>
    owns pf (f_fd f, f_handle f, f_uv_fd f) (case pf of Unix \<Rightarrow> Close nxt | Win32 \<Rightarrow> Crt_close crt)"
  using assms
  by (cases pf)
    (auto simp: open_on_def open_unix_def open_win_def file_inv_def owns_def configure_def file_new_def sys_open_def
      CreateFileA_def Let_def split: sum.splits if_splits prod.splits)

text \<open>
  C35. Whatever is done with an open file, closing it any number of times included, once it is
  destroyed its descriptor has been closed exactly once; and while it counts as readable or
  writable its streams and its descriptor are the one that was opened.
\<close>

theorem file_closed_once:
  assumes "o_file (open_on pf denied nxt crt path mode fs) = Inr (Some f)" and "0 \<le> nxt" and "0 \<le> crt"
    and "(file_step pf)\<^sup>*\<^sup>* (f, []) (f', log)"
  shows "log @ snd (close_file pf f') = [case pf of Unix \<Rightarrow> Close nxt | Win32 \<Rightarrow> Crt_close crt] \<and>
    (is_readable f' \<or> is_writable f' \<longrightarrow> log = [] \<and> native_fd pf f' = native_fd pf f \<and>
      (\<forall>fd. f_istream f' = Some fd \<or> f_ostream f' = Some fd \<longrightarrow> fd = native_fd pf f))"
proof -
  let ?c = "case pf of Unix \<Rightarrow> Close nxt | Win32 \<Rightarrow> Crt_close crt" and ?own = "(f_fd f, f_handle f, f_uv_fd f)"
  have i: "file_inv pf ?c ?own (f', log)" and o: "owns pf ?own ?c"
    using file_steps_inv[OF assms(4)] opened_inv[OF assms(1-3)] by blast+
  have "native_fd pf f' = native_fd pf f" if "\<not> f_closed f'"
    using i that by (cases pf) (simp_all add: file_inv_def native_fd_def)
  with destroyed_once[OF i o] i show ?thesis
    by (auto simp: file_inv_def is_readable_def is_writable_def split: if_splits)
qed

theorem file_closed_once_witness:
  "\<exists>f f'. o_file (open_unix (\<lambda>_. False) 3 ''a'' ''w'' Map.empty) = Inr (Some f) \<and>
     (file_step Unix)\<^sup>*\<^sup>* (f, []) (f', [Close 3]) \<and> snd (close_file Unix f') = []"
proof -
  obtain f where f: "o_file (open_on Unix (\<lambda>_. False) 3 4 ''a'' ''w'' Map.empty) = Inr (Some f)"
    by (simp add: open_on_def open_unix_def file_mode_def sys_open_def)
  obtain f' cs where c: "close_file Unix f = (f', cs)" by fastforce
  have s: "(file_step Unix)\<^sup>*\<^sup>* (f, []) (f', cs)" using fs_close[OF c, of "[]"] by auto
  have "cs = [Close 3]" using file_closed_once[OF f _ _ rtranclp.rtrancl_refl] c by simp
  moreover from this have "snd (close_file Unix f') = []" using file_closed_once[OF f _ _ s] by simp
  moreover have "o_file (open_unix (\<lambda>_. False) 3 ''a'' ''w'' Map.empty) = Inr (Some f)" using f by (simp add: open_on_def)
  ultimately show ?thesis using s by blast
qed

text \<open>
  When \<open>_open_osfhandle\<close> fails on Windows, the handle is closed and then closed again by
  the destructor of the file, which still holds it.
\<close>

theorem osfhandle_failure_closes_twice:
  assumes "map_of mode_table mode \<noteq> None" and "\<not> denied path" and "fs path \<noteq> None" and "0 \<le> nxt"
  shows "o_closes (open_win denied nxt (-1) path mode fs) = [Close_handle nxt, Close_handle nxt] \<and>
    o_file (open_win denied nxt (-1) path mode fs) = Inl (Runtime_error ''_open_osfhandle failed for file handle'')"
proof -
  from assms(1) mode_cases[of mode] consider "mode = ''r''" | "mode = ''w''" | "mode = ''a''" | "mode = ''r+''"
    | "mode = ''w+''" | "mode = ''a+''" by auto
  then show ?thesis using assms(2-4)
    by cases (simp_all add: open_win_def file_mode_def CreateFileA_def configure_def file_new_def close_file_def Let_def)
qed

theorem osfhandle_failure_closes_twice_witness:
  "o_closes (open_win (\<lambda>_. False) 8 (-1) ''a'' ''r'' [''a'' \<mapsto> []]) = [Close_handle 8, Close_handle 8]"
  using osfhandle_failure_closes_twice[of "''r''" "\<lambda>_. False" "''a''" "[''a'' \<mapsto> []]" 8] by (simp add: mode_table_def)

end
