(* ===== verification/Uv_Fs.thy ===== *)
theory Uv_Fs
  imports Mpp_File
begin

text \<open>
  Asynchronous file operations of the CovScript interface (\<open>src/process.cpp\<close> of the root):
  a request on libuv's pool, the wait for it with a deadline, and \<open>read\<close>, \<open>write\<close> and
  \<open>flush\<close> of \<open>file_t\<close>.
\<close>

section \<open>A request\<close>

text \<open>
  The request waits in the queue of the pool, executes, and is over when its callback has run.
  The numbers say after how many pauses of the waiting thread the next phase begins
  (\<open>None\<close>: never).  The operation itself, with its effect, happens at the end of the execution.
\<close>

datatype rq_phase = In_queue "nat option" "nat option" | Executing "nat option" | Executed | Cancelled_rq | Called_back

text \<open>
  \<open>uv_fs_request\<close> with the clock in milliseconds, the lengths of the next pauses (a
  pause is 1 ms when the list is used up), the result that the operation will have, and the
  content of the file with the effect that the operation has on it.
\<close>

record uv_world =
  u_done :: bool
  u_result :: int
  u_phase :: rq_phase
  u_clock :: int
  u_pauses :: "nat list"
  u_answer :: int
  u_content :: string
  u_effect :: "string \<Rightarrow> string"

abbreviation UV_ECANCELED :: int where "UV_ECANCELED \<equiv> -125"
abbreviation UV_EBUSY :: int where "UV_EBUSY \<equiv> -16"

definition uv_fs_complete :: "int \<Rightarrow> uv_world \<Rightarrow> uv_world" where
  "uv_fs_complete result w = w\<lparr>u_result := result, u_done := True, u_phase := Called_back\<rparr>"

text \<open>\<open>uv_run(loop, UV_RUN_NOWAIT)\<close> calls back a request that is over.\<close>

definition uv_run_loop :: "uv_world \<Rightarrow> uv_world" where
  "uv_run_loop w =
     (case u_phase w of
        Executed \<Rightarrow> uv_fs_complete (u_answer w) w
      | Cancelled_rq \<Rightarrow> uv_fs_complete UV_ECANCELED w
      | _ \<Rightarrow> w)"

definition uv_cancel_rq :: "uv_world \<Rightarrow> int \<times> uv_world" where
  "uv_cancel_rq w = (case u_phase w of In_queue q x \<Rightarrow> (0, w\<lparr>u_phase := Cancelled_rq\<rparr>) | _ \<Rightarrow> (UV_EBUSY, w))"

definition countdown :: "nat option \<Rightarrow> nat option" where
  "countdown n = map_option (\<lambda>k. k - 1) n"

text \<open>
  \<open>cs_runtime_yield\<close>: the fiber gives way, or the thread sleeps; either way time passes and the
  pool goes on.
\<close>

definition cs_runtime_yield :: "uv_world \<Rightarrow> uv_world" where
  "cs_runtime_yield w =
     (let w = (case u_pauses w of [] \<Rightarrow> w\<lparr>u_clock := u_clock w + 1\<rparr>
               | p # rest \<Rightarrow> w\<lparr>u_clock := u_clock w + int p, u_pauses := rest\<rparr>)
      in case u_phase w of
           In_queue q x \<Rightarrow> if q = Some 0 then w\<lparr>u_phase := Executing x\<rparr> else w\<lparr>u_phase := In_queue (countdown q) x\<rparr>
         | Executing x \<Rightarrow>
             if x = Some 0 then w\<lparr>u_phase := Executed, u_content := u_effect w (u_content w)\<rparr>
             else w\<lparr>u_phase := Executing (countdown x)\<rparr>
         | _ \<Rightarrow> w)"

partial_function (option) wait_rq :: "int option \<Rightarrow> bool \<Rightarrow> uv_world \<Rightarrow> (bool \<times> uv_world) option" where
  "wait_rq deadline deadline_reached w =
     (if u_done w then Some (\<not> deadline_reached, w)
      else let w = uv_run_loop w
           in if u_done w then Some (\<not> deadline_reached, w)
              else if deadline \<noteq> None \<and> \<not> deadline_reached \<and> u_clock w \<ge> the deadline
              then (case uv_cancel_rq w of
                      (rc, w') \<Rightarrow>
                        if rc = 0 then wait_rq deadline True w'
                        else wait_rq deadline True (cs_runtime_yield w'))
              else wait_rq deadline deadline_reached (cs_runtime_yield w))"

declare wait_rq.simps [code]

definition uv_wait_fs_with_deadline :: "int \<Rightarrow> uv_world \<Rightarrow> (bool \<times> uv_world) option" where
  "uv_wait_fs_with_deadline deadline_ms w =
     wait_rq (if deadline_ms \<ge> 0 then Some (u_clock w + deadline_ms) else None) False w"

definition to_uv_file :: "platform \<Rightarrow> mfile \<Rightarrow> int" where
  "to_uv_file pf f = (case pf of Win32 \<Rightarrow> f_uv_fd f | Unix \<Rightarrow> native_fd pf f)"

section \<open>read, write, flush\<close>

text \<open>
  What the system does with a request: whether it can be submitted, when it runs, how long the
  pauses are, its error or the length of the transfer (at most what is asked for), and the file
  position of the handle at that time.
\<close>

record rq_plan =
  rp_submit :: int
  rp_queue :: "nat option"
  rp_exec :: "nat option"
  rp_pauses :: "nat list"
  rp_error :: "int option"
  rp_length :: nat
  rp_pos :: nat

definition submit :: "rq_plan \<Rightarrow> int \<Rightarrow> (string \<Rightarrow> string) \<Rightarrow> string \<Rightarrow> uv_world" where
  "submit p answer effect content =
     \<lparr>u_done = False, u_result = UV_ECANCELED, u_phase = In_queue (rp_queue p) (rp_exec p), u_clock = 0,
      u_pauses = rp_pauses p, u_answer = answer, u_content = content, u_effect = effect\<rparr>"

text \<open>The bytes a read gets, and the file after a write, as the system does them at an offset.\<close>

definition read_at :: "rq_plan \<Rightarrow> nat \<Rightarrow> nat \<Rightarrow> string \<Rightarrow> string" where
  "read_at p pos sz content = take (min sz (max 1 (rp_length p))) (drop pos content)"

definition written :: "rq_plan \<Rightarrow> string \<Rightarrow> string" where
  "written p data = take (max 1 (rp_length p)) data"

definition overwrite :: "nat \<Rightarrow> string \<Rightarrow> string \<Rightarrow> string" where
  "overwrite pos data content =
     take pos (content @ replicate (pos - length content) (CHR 0x00)) @ data @ drop (pos + length data) content"

text \<open>
  A value of CovScript: null or a string.  The operations take the file object (\<open>None\<close>: an
  empty \<open>file_t\<close>) and the content of the file.
\<close>

datatype cs_var = Cs_null | Cs_string string | Cs_number int

text \<open>
  A read or a write has a part before the request, which gives the result at once or the descriptor
  and the offset of the request, and a part after it.  Other fibers may run in between.  \<open>rc\<close> is what
  the submission returns.
\<close>

definition read_start :: "platform \<Rightarrow> int \<Rightarrow> mfile \<Rightarrow> int \<Rightarrow> cs_var + int \<times> int" where
  "read_start pf rc f sz =
     (if \<not> is_readable f then Inl Cs_null
      else if sz \<le> 0 then Inl (Cs_string [])
      else if to_uv_file pf f < 0 then Inl Cs_null
      else if rc < 0 then Inl Cs_null
      else Inr (to_uv_file pf f, f_read_pos f))"

definition read_end :: "string \<Rightarrow> bool \<Rightarrow> int \<Rightarrow> mfile \<Rightarrow> cs_var \<times> mfile" where
  "read_end buf on_time n f =
     (if n > 0 then
        (if \<not> on_time then (Cs_null, f)
         else (Cs_string (take (nat n) buf), advance_read n f))
      else if n = 0 then (Cs_string [], f)
      else (Cs_null, f))"

definition cni_read ::
  "platform \<Rightarrow> rq_plan \<Rightarrow> mfile option \<Rightarrow> int \<Rightarrow> int \<Rightarrow> string \<Rightarrow> (cs_var \<times> mfile option \<times> string) option" where
  "cni_read pf p fo sz deadline_ms content =
     (case fo of
        None \<Rightarrow> Some (Cs_null, fo, content)
      | Some f \<Rightarrow>
          (case read_start pf (rp_submit p) f sz of
             Inl v \<Rightarrow> Some (v, fo, content)
           | Inr (ufd, pos) \<Rightarrow>
               (let buf = read_at p (nat pos) (nat sz) content;
                    answer = (case rp_error p of Some e \<Rightarrow> e | None \<Rightarrow> int (length buf))
                in case uv_wait_fs_with_deadline deadline_ms (submit p answer id content) of
                     None \<Rightarrow> None
                   | Some (on_time, w) \<Rightarrow>
                       (case read_end buf on_time (u_result w) f of (v, f') \<Rightarrow> Some (v, Some f', u_content w)))))"

abbreviation UINT_MAX :: int where "UINT_MAX \<equiv> 0xFFFFFFFF"

definition write_start :: "platform \<Rightarrow> int \<Rightarrow> mfile \<Rightarrow> string \<Rightarrow> int + int \<times> int" where
  "write_start pf rc f data =
     (if \<not> is_writable f then Inl (-1)
      else if int (length data) > UINT_MAX then Inl (-1)
      else if to_uv_file pf f < 0 then Inl (-1)
      else if rc < 0 then Inl (-1)
      else Inr (to_uv_file pf f, if f_append f then -1 else f_write_pos f))"

definition write_end :: "bool \<Rightarrow> int \<Rightarrow> mfile \<Rightarrow> int \<times> mfile" where
  "write_end on_time result f =
     (if result > 0 then
        (if \<not> on_time then (-1, f)
         else (result, if \<not> f_append f then advance_write result f else f))
      else if \<not> on_time then (-1, f)
      else (result, f))"

text \<open>
  Where the system writes.  With the offset -1 that is the end of the file on Unix, where an appended
  file is open with \<open>O_APPEND\<close>, and the position of the handle on Windows.
\<close>

definition place_at :: "platform \<Rightarrow> nat \<Rightarrow> int \<Rightarrow> string \<Rightarrow> nat" where
  "place_at pf position offset content =
     (if offset = -1 then (case pf of Unix \<Rightarrow> length content | Win32 \<Rightarrow> position) else nat offset)"

definition cni_write ::
  "platform \<Rightarrow> rq_plan \<Rightarrow> mfile option \<Rightarrow> string \<Rightarrow> int \<Rightarrow> string \<Rightarrow> (int \<times> mfile option \<times> string) option" where
  "cni_write pf p fo data deadline_ms content =
     (case fo of
        None \<Rightarrow> Some (-1, fo, content)
      | Some f \<Rightarrow>
          (case write_start pf (rp_submit p) f data of
             Inl v \<Rightarrow> Some (v, fo, content)
           | Inr (ufd, offset) \<Rightarrow>
               (let answer = (case rp_error p of Some e \<Rightarrow> e | None \<Rightarrow> int (length (written p data)));
                    effect = (\<lambda>c. if rp_error p \<noteq> None then c
                                  else overwrite (place_at pf (rp_pos p) offset c) (written p data) c)
                in case uv_wait_fs_with_deadline deadline_ms (submit p answer effect content) of
                     None \<Rightarrow> None
                   | Some (on_time, w) \<Rightarrow>
                       (case write_end on_time (u_result w) f of (r, f') \<Rightarrow> Some (r, Some f', u_content w)))))"

definition cni_flush ::
  "platform \<Rightarrow> rq_plan \<Rightarrow> mfile option \<Rightarrow> int \<Rightarrow> string \<Rightarrow> bool option" where
  "cni_flush pf p fo deadline_ms content =
     (case fo of
        None \<Rightarrow> Some False
      | Some f \<Rightarrow>
          if \<not> is_writable f then Some False
          else if to_uv_file pf f < 0 then Some False
          else if rp_submit p < 0 then Some False
          else
            (let answer = (case rp_error p of Some e \<Rightarrow> e | None \<Rightarrow> 0)
             in case uv_wait_fs_with_deadline deadline_ms (submit p answer id content) of
                  None \<Rightarrow> None
                | Some (on_time, w) \<Rightarrow> Some (u_result w \<ge> 0 \<and> on_time)))"

definition cni_close :: "platform \<Rightarrow> mfile option \<Rightarrow> mfile option \<times> close_call list" where
  "cni_close pf fo =
     (case fo of None \<Rightarrow> (None, []) | Some f \<Rightarrow> (case close_file pf f of (f', cs) \<Rightarrow> (Some f', cs)))"

definition cni_is_readable :: "mfile option \<Rightarrow> bool" where
  "cni_is_readable fo = (case fo of None \<Rightarrow> False | Some f \<Rightarrow> is_readable f)"

definition cni_is_writable :: "mfile option \<Rightarrow> bool" where
  "cni_is_writable fo = (case fo of None \<Rightarrow> False | Some f \<Rightarrow> is_writable f)"

text \<open>The descriptor of the stream that \<open>out\<close> and \<open>in\<close> give, or null.\<close>

definition cni_out :: "platform \<Rightarrow> mfile option \<Rightarrow> int option \<times> mfile option" where
  "cni_out pf fo =
     (case fo of
        None \<Rightarrow> (None, fo)
      | Some f \<Rightarrow> if \<not> is_readable f then (None, fo)
                  else (case out_stream pf f of (fd, f') \<Rightarrow> (Some fd, Some f')))"

definition cni_in :: "platform \<Rightarrow> mfile option \<Rightarrow> int option \<times> mfile option" where
  "cni_in pf fo =
     (case fo of
        None \<Rightarrow> (None, fo)
      | Some f \<Rightarrow> if \<not> is_writable f then (None, fo)
                  else (case in_stream pf f of (fd, f') \<Rightarrow> (Some fd, Some f')))"

section \<open>The wait\<close>

text \<open>
  What is known of a request on the way: \<open>c\<close> is the content before the operation.  Only a request
  that was cancelled after the deadline has no effect.
\<close>

definition rq_inv :: "string \<Rightarrow> bool \<Rightarrow> uv_world \<Rightarrow> bool" where
  "rq_inv c reached w \<longleftrightarrow> (u_done w \<longleftrightarrow> u_phase w = Called_back) \<and>
     (case u_phase w of
        In_queue q x \<Rightarrow> u_content w = c
      | Executing x \<Rightarrow> u_content w = c
      | Executed \<Rightarrow> u_content w = u_effect w c
      | Cancelled_rq \<Rightarrow> u_content w = c \<and> reached
      | Called_back \<Rightarrow> u_result w = u_answer w \<and> u_content w = u_effect w c \<or>
          u_result w = UV_ECANCELED \<and> u_content w = c \<and> reached)"

definition same_rq :: "uv_world \<Rightarrow> uv_world \<Rightarrow> bool" where
  "same_rq w w' \<longleftrightarrow> u_answer w' = u_answer w \<and> u_effect w' = u_effect w"

lemma same_rq_trans: "same_rq a b \<Longrightarrow> same_rq b c \<Longrightarrow> same_rq a c"
  by (simp add: same_rq_def)

lemma uv_loop_inv: "rq_inv c r w \<Longrightarrow> rq_inv c r (uv_run_loop w) \<and> same_rq w (uv_run_loop w)"
  by (auto simp: rq_inv_def uv_run_loop_def uv_fs_complete_def same_rq_def split: rq_phase.splits)

lemma uv_run_done: "u_phase (uv_run_loop w) \<noteq> Executed \<and> u_phase (uv_run_loop w) \<noteq> Cancelled_rq"
  by (auto simp: uv_run_loop_def uv_fs_complete_def split: rq_phase.splits)

lemma yield_phase:
  "u_phase (cs_runtime_yield w) =
     (case u_phase w of
        In_queue q x \<Rightarrow> if q = Some 0 then Executing x else In_queue (countdown q) x
      | Executing x \<Rightarrow> if x = Some 0 then Executed else Executing (countdown x)
      | ph \<Rightarrow> ph)"
  "u_content (cs_runtime_yield w) =
     (if u_phase w = Executing (Some 0) then u_effect w (u_content w) else u_content w)"
  "u_done (cs_runtime_yield w) = u_done w" "u_result (cs_runtime_yield w) = u_result w"
  "u_answer (cs_runtime_yield w) = u_answer w" "u_effect (cs_runtime_yield w) = u_effect w"
  by (auto simp: cs_runtime_yield_def Let_def split: rq_phase.splits list.splits)

lemma yield_inv: "rq_inv c r w \<Longrightarrow> rq_inv c r (cs_runtime_yield w) \<and> same_rq w (cs_runtime_yield w)"
  by (auto simp: rq_inv_def same_rq_def yield_phase split: rq_phase.splits)

lemma cancel_inv:
  assumes "rq_inv c r w" and "uv_cancel_rq w = (rc, w')"
  shows "rq_inv c True w' \<and> same_rq w w'"
  using assms by (auto simp: rq_inv_def same_rq_def uv_cancel_rq_def split: rq_phase.splits)

text \<open>One round of the loop.\<close>

lemma wait_rq_round:
  "wait_rq dl r w =
     (if u_done w \<or> u_done (uv_run_loop w) then Some (\<not> r, if u_done w then w else uv_run_loop w)
      else if dl \<noteq> None \<and> \<not> r \<and> u_clock (uv_run_loop w) \<ge> the dl
      then if fst (uv_cancel_rq (uv_run_loop w)) = 0 then wait_rq dl True (snd (uv_cancel_rq (uv_run_loop w)))
           else wait_rq dl True (cs_runtime_yield (snd (uv_cancel_rq (uv_run_loop w))))
      else wait_rq dl r (cs_runtime_yield (uv_run_loop w)))"
  by (subst wait_rq.simps) (simp add: Let_def split: prod.split)

lemma wait_rq_inv:
  assumes "wait_rq dl r w = Some res" and "rq_inv c r w"
  shows "\<exists>r'. rq_inv c r' (snd res) \<and> fst res = (\<not> r') \<and> u_done (snd res) \<and> same_rq w (snd res)"
  using assms
proof (induction rule: wait_rq.raw_induct[rotated 1, consumes 1])
  case (1 wait dl r w res)
  let ?u = "uv_run_loop w"
  note i = uv_loop_inv[OF 1(3)] and ih = 1(1) and inv = 1(3)
  have eq: "(if u_done w then Some (\<not> r, w)
      else let w = uv_run_loop w
           in if u_done w then Some (\<not> r, w)
              else if dl \<noteq> None \<and> \<not> r \<and> u_clock w \<ge> the dl
              then (case uv_cancel_rq w of
                      (rc, w') \<Rightarrow>
                        if rc = 0 then wait dl True w' else wait dl True (cs_runtime_yield w'))
              else wait dl r (cs_runtime_yield w)) = Some res" by (rule 1(2))
  obtain rc w2 where c: "uv_cancel_rq ?u = (rc, w2)" by fastforce
  have "rq_inv c r ?u" using i by blast
  note ci = cancel_inv[OF this c]
  consider "u_done w" | "\<not> u_done w" "u_done ?u"
    | "\<not> u_done w" "\<not> u_done ?u" "dl \<noteq> None \<and> \<not> r \<and> u_clock ?u \<ge> the dl"
    | "\<not> u_done w" "\<not> u_done ?u" "\<not> (dl \<noteq> None \<and> \<not> r \<and> u_clock ?u \<ge> the dl)" by blast
  then show ?case
  proof cases
    case 1
    with eq have "res = (\<not> r, w)" by simp
    with 1 inv show ?thesis by (auto simp: same_rq_def)
  next
    case 2
    with eq have "res = (\<not> r, ?u)" by (simp add: Let_def)
    with 2 i show ?thesis by auto
  next
    case 3
    show ?thesis
    proof (cases "rc = 0")
      case True
      with 3 c eq have "wait dl True w2 = Some res" by (simp add: Let_def)
      from ih[OF this] ci i show ?thesis using same_rq_trans by blast
    next
      case False
      with 3 c eq have "wait dl True (cs_runtime_yield w2) = Some res"
        by (simp add: Let_def)
      from ih[OF this] yield_inv[of c True w2] ci i show ?thesis using same_rq_trans by blast
    qed
  next
    case 4
    then have "wait dl r (cs_runtime_yield ?u) = Some res"
      using eq by (simp add: Let_def split: if_splits)
    from ih[OF this] yield_inv[of c r ?u] i show ?thesis using same_rq_trans by blast
  qed
qed

text \<open>
  The rank of a request falls with every round: the phases that are left, or the time to the
  deadline while it is stuck in the queue.
\<close>

definition rq_rank :: "int option \<Rightarrow> uv_world \<Rightarrow> nat" where
  "rq_rank dl w =
     (case u_phase w of
        In_queue q x \<Rightarrow> the x + 4 +
          (case q of Some j \<Rightarrow> j | None \<Rightarrow> length (u_pauses w) + nat (the dl - u_clock w))
      | Executing x \<Rightarrow> the x + 2
      | Called_back \<Rightarrow> 0
      | _ \<Rightarrow> 1)"

definition ends :: "int option \<Rightarrow> bool \<Rightarrow> uv_world \<Rightarrow> bool" where
  "ends dl r w \<longleftrightarrow>
     (case u_phase w of
        In_queue q x \<Rightarrow> x \<noteq> None \<and> (q \<noteq> None \<or> dl \<noteq> None \<and> \<not> r)
      | Executing x \<Rightarrow> x \<noteq> None
      | _ \<Rightarrow> True)"

lemma uv_run_other:
  "u_phase w \<noteq> Executed \<Longrightarrow> u_phase w \<noteq> Cancelled_rq \<Longrightarrow> uv_run_loop w = w"
  by (simp add: uv_run_loop_def split: rq_phase.splits)

lemma yield_queue_None:
  assumes "u_phase w = In_queue None x" and "u_clock w < d"
  shows "rq_rank (Some d) (cs_runtime_yield w) < rq_rank (Some d) w"
  using assms by (auto simp: rq_rank_def cs_runtime_yield_def Let_def countdown_def split: list.splits)

lemma yield_rank:
  assumes "ends dl r w" and "u_phase w \<noteq> Executed" and "u_phase w \<noteq> Cancelled_rq" and "u_phase w \<noteq> Called_back"
    and "\<not> (dl \<noteq> None \<and> \<not> r \<and> u_clock w \<ge> the dl) \<or> (\<forall>q x. u_phase w \<noteq> In_queue q x)"
  shows "ends dl r (cs_runtime_yield w) \<and> rq_rank dl (cs_runtime_yield w) < rq_rank dl w"
proof (cases "u_phase w")
  case (In_queue q x)
  show ?thesis
  proof (cases q)
    case None
    with In_queue assms obtain d where d: "dl = Some d" "u_clock w < d" by (auto simp: ends_def)
    from yield_queue_None[of w x d] In_queue None d assms(1) show ?thesis
      by (simp add: ends_def yield_phase countdown_def)
  next
    case (Some j)
    with In_queue assms(1) show ?thesis
      by (cases j) (auto simp: ends_def rq_rank_def yield_phase countdown_def)
  qed
next
  case (Executing x)
  then obtain k where "x = Some k" using assms(1) by (auto simp: ends_def)
  with Executing show ?thesis by (cases k) (auto simp: ends_def rq_rank_def yield_phase countdown_def)
qed (use assms in simp_all)

lemma wait_rq_returns:
  assumes "ends dl r w" and "u_done w \<longleftrightarrow> u_phase w = Called_back"
  shows "\<exists>res. wait_rq dl r w = Some res"
  using assms
proof (induction "rq_rank dl w" arbitrary: r w rule: less_induct)
  case less
  consider "u_phase w = Called_back" | "u_phase w = Executed \<or> u_phase w = Cancelled_rq"
    | "u_phase w \<noteq> Executed" "u_phase w \<noteq> Cancelled_rq" "u_phase w \<noteq> Called_back" by blast
  then show ?case
  proof cases
    case 1
    with less.prems(2) show ?thesis by (subst wait_rq_round) simp
  next
    case 2
    then have "u_done (uv_run_loop w)" by (auto simp: uv_run_loop_def uv_fs_complete_def)
    then show ?thesis by (subst wait_rq_round) simp
  next
    case 3
    then have u: "uv_run_loop w = w" "\<not> u_done w" using less.prems(2) by (simp_all add: uv_run_other)
    show ?thesis
    proof (cases "dl \<noteq> None \<and> \<not> r \<and> u_clock w \<ge> the dl")
      case False
      then have "wait_rq dl r w = wait_rq dl r (cs_runtime_yield w)" using u by (subst wait_rq_round) auto
      moreover have "ends dl r (cs_runtime_yield w) \<and> rq_rank dl (cs_runtime_yield w) < rq_rank dl w"
        using yield_rank[OF less.prems(1) 3] False by blast
      moreover have "u_done (cs_runtime_yield w) \<longleftrightarrow> u_phase (cs_runtime_yield w) = Called_back"
        using 3 u by (simp add: yield_phase split: rq_phase.splits)
      ultimately show ?thesis using less.hyps by simp
    next
      case dl: True
      show ?thesis
      proof (cases "\<exists>q x. u_phase w = In_queue q x")
        case True
        then have c: "uv_cancel_rq w = (0, w\<lparr>u_phase := Cancelled_rq\<rparr>)" by (auto simp: uv_cancel_rq_def)
        then have "wait_rq dl r w = wait_rq dl True (w\<lparr>u_phase := Cancelled_rq\<rparr>)" using u dl by (subst wait_rq_round) simp
        moreover have "rq_rank dl (w\<lparr>u_phase := Cancelled_rq\<rparr>) < rq_rank dl w" using True by (auto simp: rq_rank_def)
        ultimately show ?thesis using less.hyps[of "w\<lparr>u_phase := Cancelled_rq\<rparr>" True] u by (simp add: ends_def)
      next
        case False
        then have c: "uv_cancel_rq w = (UV_EBUSY, w)" by (simp add: uv_cancel_rq_def split: rq_phase.splits)
        then have "wait_rq dl r w = wait_rq dl True (cs_runtime_yield w)" using u dl by (subst wait_rq_round) simp
        moreover have "ends dl True w" using less.prems(1) False by (simp add: ends_def split: rq_phase.splits)
        then have "ends dl True (cs_runtime_yield w) \<and> rq_rank dl (cs_runtime_yield w) < rq_rank dl w"
          using yield_rank[OF _ 3] False by blast
        moreover have "u_done (cs_runtime_yield w) \<longleftrightarrow> u_phase (cs_runtime_yield w) = Called_back"
          using 3 u by (simp add: yield_phase split: rq_phase.splits)
        ultimately show ?thesis using less.hyps by simp
      qed
    qed
  qed
qed

lemma wait_rq_stuck: "wait_rq dl r w = Some res \<Longrightarrow> \<not> u_done w \<Longrightarrow> u_phase w \<noteq> Executing None"
proof (induction rule: wait_rq.raw_induct[rotated 1, consumes 1])
  case (1 wait dl r w res)
  show ?case
  proof
    assume x: "u_phase w = Executing None"
    then have u: "uv_run_loop w = w" "uv_cancel_rq w = (UV_EBUSY, w)" by (simp_all add: uv_run_loop_def uv_cancel_rq_def)
    have "\<exists>r'. wait dl r' (cs_runtime_yield w) = Some res" using 1(2,3) u by (auto simp: Let_def split: if_splits)
    then obtain r' where y: "wait dl r' (cs_runtime_yield w) = Some res" ..
    show False using 1(1)[OF y] 1(3) x by (simp add: yield_phase countdown_def)
  qed
qed

definition plan_ok :: "rq_plan \<Rightarrow> bool" where
  "plan_ok p \<longleftrightarrow> (\<forall>e. rp_error p = Some e \<longrightarrow> e < 0)"

lemma uv_wait_result:
  assumes "uv_wait_fs_with_deadline dl (submit p answer effect content) = Some (on_time, w)"
  shows "u_result w = answer \<and> u_content w = effect content \<or>
    u_result w = UV_ECANCELED \<and> u_content w = content \<and> \<not> on_time"
proof -
  have "rq_inv content False (submit p answer effect content)" by (simp add: rq_inv_def submit_def)
  from wait_rq_inv[OF assms[unfolded uv_wait_fs_with_deadline_def] this] obtain r' where
    r: "rq_inv content r' w" "on_time = (\<not> r')" "u_done w" "same_rq (submit p answer effect content) w" by auto
  then have "u_phase w = Called_back" by (simp add: rq_inv_def)
  with r show ?thesis by (auto simp: rq_inv_def same_rq_def submit_def)
qed

lemma uv_wait_returns:
  assumes "rp_exec p \<noteq> None" and "0 \<le> dl \<or> rp_queue p \<noteq> None"
  shows "\<exists>on_time w. uv_wait_fs_with_deadline dl (submit p answer effect content) = Some (on_time, w)"
  unfolding uv_wait_fs_with_deadline_def
  using wait_rq_returns[of "if dl \<ge> 0 then Some (u_clock (submit p answer effect content) + dl) else None" False
      "submit p answer effect content"] assms
  by (auto simp: ends_def submit_def)

section \<open>Reading\<close>

lemma cni_read_spec:
  assumes "cni_read pf p (Some f) sz dl content = Some (v, fo, content')" and "plan_ok p" and "0 \<le> f_read_pos f"
  shows "content' = content \<and>
    (case v of
       Cs_string s \<Rightarrow> s = take (length s) (drop (nat (f_read_pos f)) content) \<and> fo = Some (advance_read (int (length s)) f)
     | _ \<Rightarrow> fo = Some f)"
proof -
  have z: "advance_read 0 f = f" by (simp add: advance_read_def)
  let ?buf = "read_at p (nat (f_read_pos f)) (nat sz) content"
  let ?answer = "case rp_error p of Some e \<Rightarrow> e | None \<Rightarrow> int (length ?buf)"
  show ?thesis
  proof (cases "\<not> is_readable f \<or> sz \<le> 0 \<or> to_uv_file pf f < 0 \<or> rp_submit p < 0")
    case True
    then have "cni_read pf p (Some f) sz dl content =
        Some (if is_readable f \<and> sz \<le> 0 then Cs_string [] else Cs_null, Some f, content)"
      unfolding cni_read_def read_start_def by (cases "is_readable f"; cases "sz \<le> 0"; cases "to_uv_file pf f < 0"; simp)
    with assms(1) z show ?thesis by (cases "is_readable f \<and> sz \<le> 0") auto
  next
    case False
    have "uv_wait_fs_with_deadline dl (submit p ?answer id content) \<noteq> None"
    proof
      assume "uv_wait_fs_with_deadline dl (submit p ?answer id content) = None"
      with False have "cni_read pf p (Some f) sz dl content = None" unfolding cni_read_def read_start_def Let_def by simp
      with assms(1) show False by simp
    qed
    then obtain on_time w where w: "uv_wait_fs_with_deadline dl (submit p ?answer id content) = Some (on_time, w)"
      by auto
    have c: "u_content w = content" and r: "u_result w = ?answer \<or> u_result w = UV_ECANCELED \<and> \<not> on_time"
      using uv_wait_result[OF w] by auto
    have "cni_read pf p (Some f) sz dl content =
        Some (if u_result w > 0 \<and> on_time
              then (Cs_string (take (nat (u_result w)) ?buf), Some (advance_read (u_result w) f), content)
              else (if u_result w = 0 then Cs_string [] else Cs_null, Some f, content))"
      using False w c unfolding cni_read_def read_start_def read_end_def Let_def by simp
    with assms(1) have e: "(v, fo, content') =
        (if u_result w > 0 \<and> on_time
         then (Cs_string (take (nat (u_result w)) ?buf), Some (advance_read (u_result w) f), content)
         else (if u_result w = 0 then Cs_string [] else Cs_null, Some f, content))" by simp
    show ?thesis
    proof (cases "u_result w > 0 \<and> on_time")
      case True
      with r assms(2) have "u_result w = int (length ?buf)" by (auto simp: plan_ok_def split: option.splits)
      with True e have "v = Cs_string ?buf" "fo = Some (advance_read (int (length ?buf)) f)" "content' = content"
        by simp_all
      moreover have "?buf = take (length ?buf) (drop (nat (f_read_pos f)) content)"
        unfolding read_at_def by (simp add: min_def)
      ultimately show ?thesis by simp
    next
      case False
      with e z show ?thesis by (cases "u_result w = 0") simp_all
    qed
  qed
qed

text \<open>A series of reads, each with its own plan of the system, size and deadline.\<close>

definition read_text :: "cs_var \<Rightarrow> string" where
  "read_text v = (case v of Cs_string s \<Rightarrow> s | _ \<Rightarrow> [])"

fun read_series ::
  "platform \<Rightarrow> (rq_plan \<times> int \<times> int) list \<Rightarrow> mfile option \<Rightarrow> string \<Rightarrow> (string \<times> mfile option) option" where
  "read_series pf [] fo content = Some ([], fo)"
| "read_series pf ((p, sz, dl) # rest) fo content =
     (case cni_read pf p fo sz dl content of
        None \<Rightarrow> None
      | Some (v, fo', content') \<Rightarrow>
          map_option (\<lambda>(s, fo''). (read_text v @ s, fo'')) (read_series pf rest fo' content'))"

lemma take_drop_join:
  "s = take (length s) (drop pos content) \<Longrightarrow> s @ take k (drop (pos + length s) content) = take (length s + k) (drop pos content)"
  by (metis append_eq_conv_conj drop_drop add.commute take_add)

lemma read_series_spec:
  assumes "read_series pf rs (Some f) content = Some (s, fo)" and "\<forall>(p, sz, dl) \<in> set rs. plan_ok p"
    and "0 \<le> f_read_pos f"
  shows "s = take (length s) (drop (nat (f_read_pos f)) content) \<and> fo = Some (advance_read (int (length s)) f)"
  using assms
proof (induction rs arbitrary: f s)
  case Nil
  then show ?case by (simp add: advance_read_def)
next
  case (Cons a rest)
  obtain p sz dl where a: "a = (p, sz, dl)" by (cases a)
  from Cons.prems(1) a obtain v fo' content' s2 where
    1: "cni_read pf p (Some f) sz dl content = Some (v, fo', content')" and
    2: "read_series pf rest fo' content' = Some (s2, fo)" and s: "s = read_text v @ s2"
    by (auto split: option.splits)
  have "plan_ok p" using Cons.prems(2) a by simp
  note r = cni_read_spec[OF 1 this Cons.prems(3)]
  let ?t = "read_text v"
  have t: "?t = take (length ?t) (drop (nat (f_read_pos f)) content)" "fo' = Some (advance_read (int (length ?t)) f)"
    "content' = content"
    using r by (auto simp: read_text_def advance_read_def split: cs_var.splits)
  let ?f = "advance_read (int (length ?t)) f"
  have "s2 = take (length s2) (drop (nat (f_read_pos ?f)) content)" "fo = Some (advance_read (int (length s2)) ?f)"
    using Cons.IH[of ?f s2] 2 t Cons.prems(2,3) by (auto simp: advance_read_def)
  moreover have "nat (f_read_pos ?f) = nat (f_read_pos f) + length ?t"
    using Cons.prems(3) by (simp add: advance_read_def nat_add_distrib)
  moreover have "advance_read (int (length s2)) ?f = advance_read (int (length s)) f"
    by (simp add: advance_read_def s)
  moreover have l: "length ?t + length s2 = length s" by (simp add: s)
  ultimately have ab: "?t @ s2 = take (length ?t + length s2) (drop (nat (f_read_pos f)) content)"
    and fo: "fo = Some (advance_read (int (length s)) f)"
    using take_drop_join[OF t(1), of "length s2"] by simp_all
  have "s = take (length s) (drop (nat (f_read_pos f)) content)" using ab unfolding l s[symmetric] .
  with fo show ?case by blast
qed

section \<open>Writing\<close>

lemma drop_behind:
  "length a = p \<Longrightarrow> length b = k \<Longrightarrow> k \<le> n \<Longrightarrow> drop (p + n) (a @ b @ drop (p + k) c) = drop (p + n) c"
  by (simp add: add.commute)

lemma overwrite_again:
  assumes "k \<le> length d"
  shows "overwrite pos d (overwrite pos (take k d) content) = overwrite pos d content"
proof -
  let ?a = "take pos (content @ replicate (pos - length content) (CHR 0x00))"
  have k: "length (take k d) = k" using assms by simp
  have 1: "take pos (overwrite pos (take k d) content @ replicate (pos - length (overwrite pos (take k d) content)) (CHR 0x00)) = ?a"
    by (simp add: overwrite_def)
  have la: "length ?a = pos" by simp
  have 2: "drop (pos + length d) (overwrite pos (take k d) content) = drop (pos + length d) content"
    unfolding overwrite_def k by (rule drop_behind[OF la k assms])
  show ?thesis unfolding overwrite_def[of pos d] 1 2 ..
qed

definition write_place :: "platform \<Rightarrow> nat \<Rightarrow> mfile \<Rightarrow> string \<Rightarrow> nat" where
  "write_place pf position f content = place_at pf position (if f_append f then -1 else f_write_pos f) content"

lemma cni_write_spec:
  assumes "cni_write pf p (Some f) data dl content = Some (r, fo, content')" and "plan_ok p" and "0 \<le> f_write_pos f"
  shows "if r > 0 then r = int (length (written p data)) \<and>
      content' = overwrite (write_place pf (rp_pos p) f content) (written p data) content \<and>
      fo = Some (if f_append f then f else advance_write r f)
    else fo = Some f \<and> (content' = content \<or> content' = overwrite (write_place pf (rp_pos p) f content) (written p data) content)"
proof (cases "\<not> is_writable f \<or> int (length data) > UINT_MAX \<or> to_uv_file pf f < 0 \<or> rp_submit p < 0")
  case True
  with assms(1) show ?thesis by (auto simp: cni_write_def write_start_def split: if_splits)
next
  case False
  let ?answer = "case rp_error p of Some e \<Rightarrow> e | None \<Rightarrow> int (length (written p data))"
  let ?offset = "if f_append f then -1 else f_write_pos f"
  let ?effect = "\<lambda>c. if rp_error p \<noteq> None then c
      else overwrite (place_at pf (rp_pos p) ?offset c) (written p data) c"
  have st: "write_start pf (rp_submit p) f data = Inr (to_uv_file pf f, ?offset)" using False by (simp add: write_start_def)
  from st assms(1) obtain on_time w where w: "uv_wait_fs_with_deadline dl (submit p ?answer ?effect content) = Some (on_time, w)"
    by (auto simp: cni_write_def Let_def split: option.splits)
  have wp: "place_at pf (rp_pos p) ?offset content = write_place pf (rp_pos p) f content"
    by (simp add: write_place_def)
  have r: "u_result w = ?answer \<and> u_content w = ?effect content \<or>
      u_result w = UV_ECANCELED \<and> u_content w = content \<and> \<not> on_time" by (rule uv_wait_result[OF w])
  have e: "(r, fo, content') =
      (if u_result w > 0 then
         (if \<not> on_time then (-1, Some f, u_content w)
          else (u_result w, Some (if \<not> f_append f then advance_write (u_result w) f else f), u_content w))
       else if \<not> on_time then (-1, Some f, u_content w) else (u_result w, Some f, u_content w))"
    using st assms(1) w by (auto simp: cni_write_def write_end_def Let_def split: if_splits)
  have c: "u_content w = content \<or> u_content w = overwrite (write_place pf (rp_pos p) f content) (written p data) content"
    using r unfolding wp by auto
  show ?thesis
  proof (cases "u_result w > 0 \<and> on_time")
    case True
    then have "rp_error p = None" using r assms(2) by (cases "rp_error p") (auto simp: plan_ok_def)
    with True r have "u_result w = int (length (written p data))"
      "u_content w = overwrite (write_place pf (rp_pos p) f content) (written p data) content" unfolding wp by simp_all
    moreover have "r = u_result w" "fo = Some (if \<not> f_append f then advance_write (u_result w) f else f)"
      "content' = u_content w" using e True by simp_all
    ultimately show ?thesis using True by simp
  next
    case False
    with e have "r \<le> 0" "fo = Some f" "content' = u_content w" by (auto split: if_splits)
    with c show ?thesis by auto
  qed
qed

section \<open>Properties\<close>



text \<open>
  C20. A series of reads of a file, whatever their sizes, deadlines and short transfers, yields
  consecutive bytes of it: none is lost and none comes twice, also when some reads time out or
  fail in between.
\<close>

theorem reads_are_consecutive:
  assumes "read_series pf rs (Some f) content = Some (s, fo)" and "\<forall>(p, sz, dl) \<in> set rs. plan_ok p"
    and "0 \<le> f_read_pos f"
  shows "s = take (length s) (drop (nat (f_read_pos f)) content) \<and> fo = Some (advance_read (int (length s)) f)"
  by (rule read_series_spec[OF assms])

definition demo_plan :: "nat option \<Rightarrow> nat \<Rightarrow> rq_plan" where
  "demo_plan q n = \<lparr>rp_submit = 0, rp_queue = q, rp_exec = Some 1, rp_pauses = [0, 5], rp_error = None, rp_length = n, rp_pos = 0\<rparr>"

definition demo_file :: mfile where
  "demo_file = file_new\<lparr>f_readable := True, f_writable := True, f_fd := 3\<rparr>"

lemma demo_reads:
  "read_series Unix [(demo_plan (Some 1) 2, 4, -1), (demo_plan (Some 9) 3, 4, 3), (demo_plan (Some 0) 3, 4, -1)]
     (Some demo_file) ''abcdefg'' = Some (''abcde'', Some (demo_file\<lparr>f_read_pos := 5\<rparr>))"
  by code_simp

theorem reads_are_consecutive_witness:
  "''abcde'' = take 5 (drop (nat (f_read_pos demo_file)) ''abcdefg'')"
  using reads_are_consecutive[OF demo_reads] by (simp add: plan_ok_def demo_plan_def demo_file_def file_new_def)

text \<open>
  A write that is reported as failed or late leaves the position alone; it may still have
  reached the file, but when it is repeated and succeeds in full, the file is as if it had been
  written once.  This is for a file that is not open for appending.
\<close>

theorem write_retry:
  assumes "cni_write pf p (Some f) data deadline_ms content = Some (r, fo, content1)" and "r \<le> 0"
    and "cni_write pf q fo data deadline2 content1 = Some (int (length data), fo2, content2)" and "data \<noteq> []"
    and "plan_ok p" and "plan_ok q" and "0 \<le> f_write_pos f" and "\<not> f_append f"
  shows "content2 = overwrite (nat (f_write_pos f)) data content \<and>
    fo2 = Some (advance_write (int (length data)) f)"
proof -
  let ?pos = "nat (f_write_pos f)"
  have 1: "fo = Some f" "content1 = content \<or> content1 = overwrite ?pos (written p data) content"
    using cni_write_spec[OF assms(1,5,7)] assms(2,7,8) by (auto simp: write_place_def place_at_def)
  have l: "0 < int (length data)" using assms(4) by simp
  have w: "int (length data) = int (length (written q data))"
    "content2 = overwrite (write_place pf (rp_pos q) f content1) (written q data) content1"
    "fo2 = Some (if f_append f then f else advance_write (int (length data)) f)"
    using cni_write_spec[OF assms(3)[unfolded 1(1)] assms(6,7)] l by simp_all
  then have "written q data = data" by (simp add: written_def)
  with w assms(7,8) have 2: "content2 = overwrite ?pos data content1" "fo2 = Some (advance_write (int (length data)) f)"
    by (simp_all add: write_place_def place_at_def)
  have "overwrite ?pos data (overwrite ?pos (written p data) content) = overwrite ?pos data content"
  proof (cases "max 1 (rp_length p) \<le> length data")
    case True
    then show ?thesis unfolding written_def by (rule overwrite_again)
  next
    case False
    then have "length data \<le> max 1 (rp_length p)" by linarith
    then have "written p data = take (length data) data" by (simp add: written_def)
    then show ?thesis using overwrite_again[of "length data" data ?pos content] by simp
  qed
  with 1 2 show ?thesis by auto
qed

lemma demo_writes:
  "cni_write Unix ((demo_plan (Some 0) 1)\<lparr>rp_pauses := [9]\<rparr>) (Some demo_file) ''XYZ'' 4 ''abcde'' = Some (-1, Some demo_file, ''Xbcde'')"
  "cni_write Unix (demo_plan (Some 0) 3) (Some demo_file) ''XYZ'' (-1) ''Xbcde'' =
     Some (int (length ''XYZ''), Some (demo_file\<lparr>f_write_pos := 3\<rparr>), ''XYZde'')"
  by code_simp+

theorem write_retry_witness:
  "''XYZde'' = overwrite 0 ''XYZ'' ''abcde''"
  using write_retry[OF demo_writes(1) _ demo_writes(2)] by (simp add: plan_ok_def demo_plan_def demo_file_def file_new_def)

text \<open>
  Appending after somebody else has appended.  On Unix a write goes behind what is there; on
  Windows the handle was moved to the end when the file was opened, and a write that follows goes to
  that position, over the bytes that another process has appended since.
\<close>

theorem append_after_foreign_append:
  assumes "o_file (open_on pf denied nxt crt path mode fs) = Inr (Some f)" and "mode = ''a'' \<or> mode = ''a+''"
    and "fs path = Some old" and "rp_pos p = o_pos (open_on pf denied nxt crt path mode fs)" and "plan_ok p"
    and "cni_write pf p (Some f) data deadline_ms (old @ extra) = Some (int n, fo, content)" and "0 < n"
  shows "content = (case pf of Unix \<Rightarrow> old @ extra @ take n data | Win32 \<Rightarrow> old @ take n data @ drop n extra) \<and> fo = Some f"
proof -
  have f: "f_append f" "f_write_pos f = 0" "pf = Win32 \<Longrightarrow> rp_pos p = length old"
    using assms(1-4) by (cases pf; auto simp: open_on_def open_unix_def open_win_def file_mode_def configure_def
      file_new_def sys_open_def CreateFileA_def Let_def split: if_splits prod.splits)+
  from cni_write_spec[OF assms(6,5)] f(2) assms(7) have c: "n = length (written p data)"
    "content = overwrite (write_place pf (rp_pos p) f (old @ extra)) (written p data) (old @ extra)"
    "fo = Some (if f_append f then f else advance_write (int n) f)" by simp_all
  have w: "written p data = take n data" using c(1) by (simp add: written_def min_def)
  then have l: "length (take n data) = n" using c(1) by metis
  show ?thesis
  proof (cases pf)
    case Unix
    then have "write_place pf (rp_pos p) f (old @ extra) = length (old @ extra)" using f(1) by (simp add: write_place_def place_at_def)
    with c w Unix f(1) show ?thesis by (simp add: overwrite_def)
  next
    case Win32
    then have "write_place pf (rp_pos p) f (old @ extra) = length old" using f by (simp add: write_place_def place_at_def)
    with c w l Win32 f(1) show ?thesis by (simp add: overwrite_def)
  qed
qed

lemma demo_append:
  "case open_on Win32 (\<lambda>_. False) 8 3 ''log'' ''a'' [''log'' \<mapsto> ''one''] of r \<Rightarrow>
     (case o_file r of Inr (Some f) \<Rightarrow> o_pos r = 3 \<and>
        (case cni_write Win32 ((demo_plan (Some 0) 2)\<lparr>rp_pos := 3\<rparr>) (Some f) ''XY'' (-1) ''onetwo'' of
           Some (r, fo, c) \<Rightarrow> r = 2 | None \<Rightarrow> False) | _ \<Rightarrow> False)"
  by code_simp

theorem append_after_foreign_append_witness:
  "\<exists>f fo. o_file (open_on Win32 (\<lambda>_. False) 8 3 ''log'' ''a'' [''log'' \<mapsto> ''one'']) = Inr (Some f) \<and>
     cni_write Win32 ((demo_plan (Some 0) 2)\<lparr>rp_pos := 3\<rparr>) (Some f) ''XY'' (-1) (''one'' @ ''two'') = Some (2, fo, ''oneXYo'')"
proof -
  obtain f r fo c where o: "o_file (open_on Win32 (\<lambda>_. False) 8 3 ''log'' ''a'' [''log'' \<mapsto> ''one'']) = Inr (Some f)"
      "o_pos (open_on Win32 (\<lambda>_. False) 8 3 ''log'' ''a'' [''log'' \<mapsto> ''one'']) = 3"
    and w: "cni_write Win32 ((demo_plan (Some 0) 2)\<lparr>rp_pos := 3\<rparr>) (Some f) ''XY'' (-1) (''one'' @ ''two'') = Some (int 2, fo, c)"
    using demo_append by (auto split: sum.splits option.splits)
  from append_after_foreign_append[OF o(1) _ _ _ _ w] o(2) have "c = ''oneXYo''"
    by (simp add: plan_ok_def demo_plan_def)
  with o(1) w show ?thesis by auto
qed

end
