(* ===== verification/Cni_Process.thy ===== *)
theory Cni_Process
  imports Uv_Fs Run_Process
begin

text \<open>
  The process operations of the CovScript interface (\<open>src/process.cpp\<close> of the root): the
  setters of the builder, the waits that poll a handle between pauses, and \<open>communicate\<close>.
\<close>

section \<open>The builder\<close>

definition get_default_shell :: "platform \<Rightarrow> (string \<Rightarrow> string option) \<Rightarrow> string" where
  "get_default_shell pf env =
     (case pf of
        Win32 \<Rightarrow> (case env ''COMSPEC'' of Some sh \<Rightarrow> sh | None \<Rightarrow> ''cmd'')
      | Unix \<Rightarrow> (case env ''SHELL'' of Some sh \<Rightarrow> sh | None \<Rightarrow> ''/bin/sh''))"

definition cni_exec :: "platform \<Rightarrow> string \<Rightarrow> string list \<Rightarrow> process_startup result" where
  "cni_exec pf cmd args = start_startup pf (exec_startup cmd args)"

definition cni_shell :: "platform \<Rightarrow> (string \<Rightarrow> string option) \<Rightarrow> string \<Rightarrow> process_startup result" where
  "cni_shell pf env cmd =
     (case shell (get_default_shell pf env) (command cmd process_startup_new) of
        Inl e \<Rightarrow> Inl e | Inr b \<Rightarrow> start_startup pf b)"

text \<open>\<open>async.fstream\<close> gives a file or null; the parameters are those of \<open>open_on\<close>.\<close>

definition cni_fstream ::
  "platform \<Rightarrow> (string \<Rightarrow> bool) \<Rightarrow> int \<Rightarrow> int \<Rightarrow> string \<Rightarrow> string \<Rightarrow> files \<Rightarrow> mfile option result \<times> files" where
  "cni_fstream pf denied nxt crt path mode fs =
     (let r = open_on pf denied nxt crt path mode fs in (o_file r, o_files r))"

definition redirect_in :: "platform \<Rightarrow> process_startup \<Rightarrow> mfile option \<Rightarrow> process_startup result" where
  "redirect_in pf b fo =
     (case fo of
        None \<Rightarrow> Inl (Runtime_error ''file_t is not open for reading'')
      | Some f \<Rightarrow> if \<not> is_readable f then Inl (Runtime_error ''file_t is not open for reading'')
                  else Inr (redirect_stdin (native_fd pf f) b))"

definition redirect_out :: "platform \<Rightarrow> process_startup \<Rightarrow> mfile option \<Rightarrow> process_startup result" where
  "redirect_out pf b fo =
     (case fo of
        None \<Rightarrow> Inl (Runtime_error ''file_t is not open for writing'')
      | Some f \<Rightarrow> if \<not> is_writable f then Inl (Runtime_error ''file_t is not open for writing'')
                  else Inr (redirect_stdout (native_fd pf f) b))"

definition redirect_err :: "platform \<Rightarrow> process_startup \<Rightarrow> mfile option \<Rightarrow> process_startup result" where
  "redirect_err pf b fo =
     (case fo of
        None \<Rightarrow> Inl (Runtime_error ''file_t is not open for writing'')
      | Some f \<Rightarrow> if \<not> is_writable f then Inl (Runtime_error ''file_t is not open for writing'')
                  else Inr (redirect_stderr (native_fd pf f) b))"

text \<open>A script sets up a builder by a sequence of these calls; the first refusal ends it.\<close>

datatype setter =
  Cmd string | Arg "string list" | Dir string | Env_var string string | Merge_output bool | Inherit_output bool
| Inherit_stdin bool | Inherit_stdout bool | Inherit_stderr bool | Inherit_env bool | Shell string
| Redirect_in "mfile option" | Redirect_out "mfile option" | Redirect_err "mfile option"

fun apply_setter :: "platform \<Rightarrow> setter \<Rightarrow> process_startup \<Rightarrow> process_startup result" where
  "apply_setter pf (Cmd str) b = Inr (command str b)"
| "apply_setter pf (Arg args) b = Inr (arguments args b)"
| "apply_setter pf (Dir str) b = Inr (directory str b)"
| "apply_setter pf (Env_var key val) b = Inr (environment key val b)"
| "apply_setter pf (Merge_output r) b = Inr (merge_outputs r b)"
| "apply_setter pf (Inherit_output v) b = Inr (inherit_output v b)"
| "apply_setter pf (Inherit_stdin v) b = Inr (inherit_stdin v b)"
| "apply_setter pf (Inherit_stdout v) b = Inr (inherit_stdout v b)"
| "apply_setter pf (Inherit_stderr v) b = Inr (inherit_stderr v b)"
| "apply_setter pf (Inherit_env v) b = Inr (inherit_env v b)"
| "apply_setter pf (Shell program) b = shell program b"
| "apply_setter pf (Redirect_in fo) b = redirect_in pf b fo"
| "apply_setter pf (Redirect_out fo) b = redirect_out pf b fo"
| "apply_setter pf (Redirect_err fo) b = redirect_err pf b fo"

section \<open>Waiting\<close>

text \<open>
  The handle with the clock in milliseconds and the lengths of the next pauses (1 ms when the
  list is used up).  A pause is a yield to the other fibers or a sleep.
\<close>

record clocked =
  cl_now :: int
  cl_pauses :: "nat list"
  cl_h :: holder

definition pause :: "clocked \<Rightarrow> clocked" where
  "pause w = (case cl_pauses w of
       [] \<Rightarrow> w\<lparr>cl_now := cl_now w + 1, cl_h := tick (cl_h w)\<rparr>
     | p # rest \<Rightarrow> w\<lparr>cl_now := cl_now w + int p, cl_pauses := rest, cl_h := tick (cl_h w)\<rparr>)"

text \<open>What \<open>SIGCHLD\<close> is set to, and the files under \<open>/proc\<close>.\<close>

type_synonym sys = "bool option \<times> (int \<Rightarrow> string option)"

definition poll :: "sys \<Rightarrow> clocked \<Rightarrow> bool result \<times> clocked" where
  "poll S w = (case poll_wait (fst S) (snd S) (cl_h w) of (r, h) \<Rightarrow> (r, w\<lparr>cl_h := h\<rparr>))"

definition collected :: "clocked \<Rightarrow> (cs_var result \<times> clocked) option" where
  "collected w = (case collect_wait (cl_h w) of None \<Rightarrow> None | Some (c, h) \<Rightarrow> Some (Inr (Cs_number c), w\<lparr>cl_h := h\<rparr>))"

text \<open>
  The two loops; \<open>on_wait\<close> is the pause of \<open>wait_poll\<close> or the callback of \<open>wait_with\<close>, which may
  throw.
\<close>

partial_function (option) poll_forever ::
  "sys \<Rightarrow> (clocked \<Rightarrow> exn option \<times> clocked) \<Rightarrow> clocked \<Rightarrow> (cs_var result \<times> clocked) option" where
  "poll_forever S on_wait w =
     (case poll S w of
        (Inl e, w') \<Rightarrow> Some (Inl e, w')
      | (Inr exited, w') \<Rightarrow>
          (if exited then collected w'
           else case on_wait w' of
                  (Some e, w'') \<Rightarrow> Some (Inl e, w'')
                | (None, w'') \<Rightarrow> poll_forever S on_wait w''))"

partial_function (option) poll_until ::
  "sys \<Rightarrow> (clocked \<Rightarrow> exn option \<times> clocked) \<Rightarrow> int \<Rightarrow> clocked \<Rightarrow> (cs_var result \<times> clocked) option" where
  "poll_until S on_wait deadline w =
     (if cl_now w < deadline then
        (case on_wait w of
           (Some e, w') \<Rightarrow> Some (Inl e, w')
         | (None, w') \<Rightarrow>
             (case poll S w' of
                (Inl e, w'') \<Rightarrow> Some (Inl e, w'')
              | (Inr exited, w'') \<Rightarrow>
                  (if exited then collected w'' else poll_until S on_wait deadline w'')))
      else Some (Inr Cs_null, w))"

declare poll_forever.simps [code] poll_until.simps [code]

text \<open>
  The deadline is a time point of the steady clock, whose ticks are nanoseconds in 64 bits: the
  product with the timeout and the sum may both overflow, after which nothing is defined
  (\<open>None\<close>).  The result is in milliseconds again, as \<open>cl_now\<close> is.
\<close>

definition deadline_after :: "int \<Rightarrow> int \<Rightarrow> int option" where
  "deadline_after now timeout_ms =
     (case chk64 (timeout_ms * 1000000) of
        None \<Rightarrow> None
      | Some span \<Rightarrow>
          (case chk64 (now * 1000000 + span) of
             None \<Rightarrow> None
           | Some deadline_ns \<Rightarrow> Some (deadline_ns div 1000000)))"

definition wait_with :: "sys \<Rightarrow> int \<Rightarrow> (clocked \<Rightarrow> exn option \<times> clocked) \<Rightarrow> clocked \<Rightarrow> (cs_var result \<times> clocked) option" where
  "wait_with S timeout_ms on_wait w0 =
     (let w = w0\<lparr>cl_h := begin_wait (cl_h w0)\<rparr>
      in case poll S w of
           (Inl e, w') \<Rightarrow> Some (Inl e, w')
         | (Inr True, w') \<Rightarrow> collected w'
         | (Inr False, w') \<Rightarrow>
             if timeout_ms < 0 then poll_forever S on_wait w'
             else case deadline_after (cl_now w') timeout_ms of
                    None \<Rightarrow> None
                  | Some deadline \<Rightarrow> poll_until S on_wait deadline w')"

definition cni_wait_poll :: "sys \<Rightarrow> int \<Rightarrow> int \<Rightarrow> clocked \<Rightarrow> (cs_var result \<times> clocked) option" where
  "cni_wait_poll S timeout_ms poll_interval_ms w = wait_with S timeout_ms (\<lambda>w. (None, pause w)) w"

definition cni_try_wait :: "sys \<Rightarrow> clocked \<Rightarrow> (cs_var result \<times> clocked) option" where
  "cni_try_wait S w =
     (case poll S w of
        (Inl e, w') \<Rightarrow> Some (Inl e, w')
      | (Inr True, w') \<Rightarrow> collected w'
      | (Inr False, w') \<Rightarrow> Some (Inr Cs_null, w'))"

text \<open>\<open>fiber\<close>: the call is made inside a fiber.\<close>

definition cni_wait :: "bool \<Rightarrow> sys \<Rightarrow> clocked \<Rightarrow> (cs_var result \<times> clocked) option" where
  "cni_wait fiber S w =
     (if fiber then poll_forever S (\<lambda>w. (None, pause w)) (w\<lparr>cl_h := begin_wait (cl_h w)\<rparr>)
      else collected w)"

definition cni_has_exited :: "sys \<Rightarrow> holder \<Rightarrow> bool result \<times> holder" where
  "cni_has_exited S s = has_exited (fst S) (snd S) s"

definition cni_is_running :: "sys \<Rightarrow> holder \<Rightarrow> bool result \<times> holder" where
  "cni_is_running S s = apfst (map_sum id Not) (has_exited (fst S) (snd S) s)"

definition cni_kill :: "bool \<Rightarrow> holder \<Rightarrow> (int \<times> int) list" where
  "cni_kill force s = interrupt force s"

definition cni_kill_tree :: "sys \<Rightarrow> bool \<Rightarrow> holder \<Rightarrow> (int \<times> int) list result \<times> holder" where
  "cni_kill_tree S force s = interrupt_tree (fst S) (snd S) force s"

definition cni_get_pid :: "holder \<Rightarrow> int" where
  "cni_get_pid s = process_pid s"

text \<open>\<open>communicate\<close> in a fiber polls both readers before it collects.\<close>

partial_function (option) poll_readers :: "holder \<Rightarrow> holder option" where
  "poll_readers s = (case poll_communicate s of (ok, s') \<Rightarrow> if ok then Some s' else poll_readers (tick s'))"

declare poll_readers.simps [code]

definition cni_communicate :: "bool \<Rightarrow> holder \<Rightarrow> (cs_var list \<times> holder) option" where
  "cni_communicate fiber s =
     (case (if fiber then
              (case poll_readers (begin_communicate s) of None \<Rightarrow> None | Some s' \<Rightarrow> end_communicate s')
            else communicate s) of
        None \<Rightarrow> None
      | Some (r, s') \<Rightarrow> Some ([Cs_string (cr_out r), Cs_string (cr_err r), Cs_number (cr_exit_code r)], s'))"

section \<open>A wait with a timeout returns\<close>

text \<open>
  The states in which an observed exit is cached with its code.  In the others \<open>begin_wait\<close>
  starts a waiter although the exit is known, and the collection has to wait for it.
\<close>

definition settled :: "holder \<Rightarrow> bool" where
  "settled s \<longleftrightarrow> holder_inv s \<and> (hd_observed_exited s \<longrightarrow> hd_exit_code s \<noteq> None)"

lemma observed_env: "hd_observed_exited (env_step a s) = hd_observed_exited s"
  by (cases a) auto

lemma observed_tick: "hd_observed_exited (tick s) = hd_observed_exited s"
  by (simp add: tick_def observed_env split: list.split)

lemma settled_tick: "settled s \<Longrightarrow> settled (tick s) \<and> w_code (tick s) = w_code s"
  using tick_inv[of s] tick_frame[of s] by (simp add: settled_def observed_tick same_frame_def)

lemma settled_begin_wait:
  assumes "settled s"
  shows "settled (begin_wait s) \<and> w_code (begin_wait s) = w_code s"
proof -
  have "hd_observed_exited (begin_wait s) = hd_observed_exited s \<and> hd_exit_code (begin_wait s) = hd_exit_code s"
    by (auto simp: begin_wait_def uv_queue_work_def split: list.split bool.split)
  with assms begin_wait_keeps[of s] show ?thesis by (simp add: settled_def keeps_def)
qed

lemma collect_zombie:
  assumes "holder_inv s" and "w_child s \<noteq> Alive" and "hd_wait_work s = None"
  shows "\<exists>c s'. collect_wait s = Some (c, s')"
proof (cases "hd_exit_code s")
  case (Some c)
  then show ?thesis by (simp add: collect_wait_def)
next
  case None
  with assms have z: "w_child s = Zombie" by (cases "w_child s") (auto simp: holder_inv_def)
  then have "h_block ph_host (pi_pid (hd_info s)) s = Some (Wid CLD_EXITED (w_code s), s\<lparr>w_child := Reaped\<rparr>)"
    by (subst block_env.simps[of "w_env s" s, symmetric] | simp add: ph_host_def block_env.simps)+
  then have "wait_for ph_host (pi_pid (hd_info s)) s = Some (w_code s, s\<lparr>w_child := Reaped\<rparr>)"
    by (subst wait_for.simps) (simp add: exit_value_def)
  with None assms(3) show ?thesis by (simp add: collect_wait_def)
qed

lemma poll_wait_settled:
  assumes "settled s"
  shows "\<exists>b s'. poll_wait sigchld stat s = (Inr b, s') \<and> w_code s' = w_code s \<and>
    (if b then holder_inv s' \<and> (\<exists>c t. collect_wait s' = Some (c, t)) else settled s')"
proof (cases "hd_exit_code s \<noteq> None \<or> hd_observed_exited s")
  case True
  with assms obtain c where "hd_exit_code s = Some c" by (auto simp: settled_def)
  then show ?thesis using assms
    by (intro exI[of _ True] exI[of _ s]) (simp add: poll_wait_def settled_def collect_wait_def)
next
  case False
  have i: "holder_inv s" using assms by (simp add: settled_def)
  show ?thesis
  proof (cases "hd_wait_work s")
    case None
    have nr: "w_child s \<noteq> Reaped" using i None False by (auto simp: holder_inv_def)
    show ?thesis
    proof (cases "w_child s = Alive")
      case True
      with None False nr assms show ?thesis
        by (intro exI[of _ False] exI[of _ s]) (simp add: poll_wait_def sync_check_def process_exited_ph)
    next
      case dead: False
      let ?s = "s\<lparr>hd_observed_exited := True\<rparr>"
      have "poll_wait sigchld stat s = (Inr True, ?s)"
        using None False nr dead by (simp add: poll_wait_def sync_check_def process_exited_ph)
      moreover have "holder_inv ?s" using i dead by (simp add: holder_inv_def)
      moreover have "\<exists>c t. collect_wait ?s = Some (c, t)"
        by (rule collect_zombie) (use \<open>holder_inv ?s\<close> dead None in simp_all)
      ultimately show ?thesis by (intro exI[of _ True] exI[of _ ?s]) simp
    qed
  next
    case (Some a)
    let ?u = "uv_run s"
    have u: "holder_inv ?u" "same_frame s ?u" using uv_run_inv[OF i] uv_run_frame by blast+
    have ob: "hd_observed_exited ?u = hd_observed_exited s" by (simp add: uv_run_def)
    have e: "poll_wait sigchld stat s = (if work_done (hd_wait_work ?u) then (Inr True, take_wait ?u) else (Inr False, ?u))"
      using False Some by (simp add: poll_wait_def Let_def)
    show ?thesis
    proof (cases "work_done (hd_wait_work ?u)")
      case True
      have "\<exists>c t. collect_wait (take_wait ?u) = Some (c, t)"
        using take_wait_code[OF u(1) True] by (simp add: collect_wait_def)
      moreover have "w_code (take_wait ?u) = w_code s" using u(2) by (simp add: take_wait_def same_frame_def)
      ultimately show ?thesis using e True take_wait_inv[OF u(1) True]
        by (intro exI[of _ True] exI[of _ "take_wait ?u"]) simp
    next
      case notyet: False
      with e u ob False show ?thesis
        by (intro exI[of _ False] exI[of _ ?u]) (simp add: settled_def same_frame_def)
    qed
  qed
qed

text \<open>The result of a wait: the child's code, or null when the time is up.\<close>

definition wait_result :: "clocked \<Rightarrow> int \<Rightarrow> cs_var result \<times> clocked \<Rightarrow> bool" where
  "wait_result w deadline r \<longleftrightarrow>
     (case fst r of
        Inr (Cs_number c) \<Rightarrow> c = w_code (cl_h w) \<and> hd_exit_code (cl_h (snd r)) = Some c
      | Inr Cs_null \<Rightarrow> deadline \<le> cl_now (snd r)
      | _ \<Rightarrow> False)"

lemma polled:
  assumes "settled (cl_h w)"
  shows "\<exists>b w'. poll S w = (Inr b, w') \<and> w_code (cl_h w') = w_code (cl_h w) \<and> cl_now w' = cl_now w \<and>
    cl_pauses w' = cl_pauses w \<and>
    (if b then \<exists>r. collected w' = Some r \<and> wait_result w deadline r else settled (cl_h w'))"
proof -
  from poll_wait_settled[OF assms, of "fst S" "snd S"] obtain b h where
    p: "poll_wait (fst S) (snd S) (cl_h w) = (Inr b, h)" "w_code h = w_code (cl_h w)"
      "if b then holder_inv h \<and> (\<exists>c t. collect_wait h = Some (c, t)) else settled h" by blast
  let ?w = "w\<lparr>cl_h := h\<rparr>"
  have q: "poll S w = (Inr b, ?w)" using p(1) by (simp add: poll_def)
  show ?thesis
  proof (cases b)
    case False
    with p q show ?thesis by (intro exI[of _ False] exI[of _ ?w]) simp
  next
    case True
    with p(3) obtain c t where c: "holder_inv h" "collect_wait h = Some (c, t)" by auto
    have "collected ?w = Some (Inr (Cs_number c), ?w\<lparr>cl_h := t\<rparr>)" using c(2) by (simp add: collected_def)
    moreover have "wait_result w deadline (Inr (Cs_number c), ?w\<lparr>cl_h := t\<rparr>)"
      using collect_wait_code[OF c] p(2) by (simp add: wait_result_def)
    ultimately show ?thesis using q p(2) True by auto
  qed
qed

definition time_left :: "int \<Rightarrow> clocked \<Rightarrow> nat" where
  "time_left deadline w = length (cl_pauses w) + nat (deadline - cl_now w)"

lemma pause_progress:
  "cl_now w < deadline \<Longrightarrow> time_left deadline (pause w) < time_left deadline w"
  by (auto simp: pause_def time_left_def split: list.split)

lemma pause_settled:
  "settled (cl_h w) \<Longrightarrow> settled (cl_h (pause w)) \<and> w_code (cl_h (pause w)) = w_code (cl_h w)"
  using settled_tick[of "cl_h w"] by (simp add: pause_def split: list.split)

lemma poll_until_returns:
  assumes "settled (cl_h w)"
  shows "\<exists>r. poll_until S (\<lambda>w. (None, pause w)) deadline w = Some r \<and> wait_result w deadline r"
  using assms
proof (induction "time_left deadline w" arbitrary: w rule: less_induct)
  case less
  show ?case
  proof (cases "cl_now w < deadline")
    case False
    then show ?thesis by (subst poll_until.simps) (simp add: wait_result_def)
  next
    case True
    note pp = pause_settled[OF less.prems]
    from polled[OF conjunct1[OF pp], of S deadline] obtain b w' where
      p: "poll S (pause w) = (Inr b, w')" "w_code (cl_h w') = w_code (cl_h (pause w))" "cl_now w' = cl_now (pause w)"
        "cl_pauses w' = cl_pauses (pause w)"
        "if b then \<exists>r. collected w' = Some r \<and> wait_result (pause w) deadline r else settled (cl_h w')" by blast
    have wr: "wait_result v deadline r = wait_result w deadline r" if "w_code (cl_h v) = w_code (cl_h w)" for v r
      using that by (simp add: wait_result_def split: sum.split cs_var.split)
    show ?thesis
    proof (cases b)
      case yes: True
      then have "poll_until S (\<lambda>w. (None, pause w)) deadline w = collected w'"
        using True p(1) by (subst poll_until.simps) simp
      with yes p(5) wr[of "pause w"] pp show ?thesis by auto
    next
      case no: False
      then have "poll_until S (\<lambda>w. (None, pause w)) deadline w = poll_until S (\<lambda>w. (None, pause w)) deadline w'"
        using True p(1) by (subst poll_until.simps) simp
      moreover have "time_left deadline w' < time_left deadline w"
        using pause_progress[OF True] p(3,4) by (simp add: time_left_def)
      ultimately show ?thesis using less.hyps[of w'] no p(2,5) wr[of w'] pp by auto
    qed
  qed
qed

lemma deadline_after_exact:
  assumes "0 \<le> now" and "0 \<le> timeout_ms" and "(now + timeout_ms) * 1000000 < 2 ^ 63"
  shows "deadline_after now timeout_ms = Some (now + timeout_ms)"
proof -
  have "in_int64 (timeout_ms * 1000000)" "in_int64 (now * 1000000 + timeout_ms * 1000000)"
    using assms by (auto simp: in_int64_def)
  moreover have "(now * 1000000 + timeout_ms * 1000000) div 1000000 = now + timeout_ms" by linarith
  ultimately show ?thesis by (simp add: deadline_after_def)
qed

section \<open>Properties\<close>



text \<open>
  The largest timeouts have no defined result: the product with 1,000,000 no longer fits, while the
  handle itself is still to be waited for.
\<close>

theorem wait_poll_overflow:
  assumes "\<not> in_int64 (timeout_ms * 1000000)" and "0 \<le> timeout_ms"
    and "fst (poll S (w\<lparr>cl_h := begin_wait (cl_h w)\<rparr>)) = Inr False"
  shows "cni_wait_poll S timeout_ms poll_interval_ms w = None"
  using assms by (cases "poll S (w\<lparr>cl_h := begin_wait (cl_h w)\<rparr>)")
    (simp add: cni_wait_poll_def wait_with_def deadline_after_def chk64_def)

theorem wait_poll_overflow_witness:
  "cni_wait_poll (Some False, \<lambda>_. None) (2 ^ 63 - 1) 5 \<lparr>cl_now = 0, cl_pauses = [], cl_h = demo_handle\<rparr> = None"
  by (rule wait_poll_overflow)
    (simp_all add: in_int64_def poll_def poll_wait_def begin_wait_def uv_queue_work_def async_work_new_def demo_handle_def
      uv_run_def after_work_cb_def work_done_def)

text \<open>A job that no thread of the pool takes is never over.\<close>

definition starved :: "holder \<Rightarrow> bool" where
  "starved s \<longleftrightarrow> w_pool s = 0 \<and> (\<exists>a. hd_wait_work s = Some a \<and> aw_phase a = Queued \<and> \<not> aw_done a)"

lemma starved_env:
  assumes "starved s"
  shows "starved (env_step a s)"
proof -
  obtain w where w: "w_pool s = 0" "hd_wait_work s = Some w" "aw_phase w = Queued" "\<not> aw_done w"
    using assms by (auto simp: starved_def)
  then show ?thesis by (cases a) (simp_all add: starved_def start_work_def is_working_def)
qed

lemma starved_step: "starved s \<Longrightarrow> starved (tick (uv_run s))"
proof -
  assume "starved s"
  then obtain w where "hd_wait_work s = Some w" "aw_phase w = Queued" by (auto simp: starved_def)
  then have "hd_wait_work (uv_run s) = hd_wait_work s" by (simp add: uv_run_def after_work_cb_def)
  with \<open>starved s\<close> have u: "starved (uv_run s)" by (simp add: starved_def) (simp add: uv_run_def)
  then have "starved ((uv_run s)\<lparr>w_env := rest\<rparr>)" for rest by (simp add: starved_def)
  with u starved_env show ?thesis by (auto simp: tick_def split: list.split)
qed

text \<open>
  The other case: \<open>has_exited\<close> has seen the exit but no code is cached.  Then \<open>wait_poll\<close>
  queues a waiter and waits for it without looking at the timeout; while all threads of the pool
  are taken, it does not return.
\<close>

theorem wait_poll_ignores_timeout:
  assumes "hd_observed_exited (cl_h w)" and "hd_exit_code (cl_h w) = None" and "hd_wait_work (cl_h w) = None"
    and "w_submit (cl_h w) = []" and "w_pool (cl_h w) = 0"
  shows "cni_wait_poll S timeout_ms poll_interval_ms w = None"
proof -
  let ?h = "begin_wait (cl_h w)"
  have h: "hd_exit_code ?h = None" "hd_observed_exited ?h" "starved ?h"
    using assms by (simp_all add: begin_wait_def uv_queue_work_def starved_def async_work_new_def)
  have "spin hd_wait_work ?h = None"
  proof (cases "spin hd_wait_work ?h")
    case (Some s')
    from spin_step[OF this, of starved] h(3) starved_step have "starved s'" "work_done (hd_wait_work s')" by blast+
    then show ?thesis by (auto simp: starved_def work_done_def)
  qed
  moreover obtain a where "hd_wait_work ?h = Some a" using h(3) by (auto simp: starved_def)
  ultimately have "collect_wait ?h = None" using h(1) by (simp add: collect_wait_def)
  moreover have "poll S (w\<lparr>cl_h := ?h\<rparr>) = (Inr True, w\<lparr>cl_h := ?h\<rparr>)" using h(2) by (simp add: poll_def poll_wait_def)
  ultimately show ?thesis by (simp add: cni_wait_poll_def wait_with_def collected_def)
qed

theorem wait_poll_ignores_timeout_witness:
  "cni_wait_poll (Some False, \<lambda>_. None) 0 5
     \<lparr>cl_now = 0, cl_pauses = [],
      cl_h = snd (has_exited (Some False) (\<lambda>_. None) (demo_handle\<lparr>w_child := Zombie, w_pool := 0\<rparr>))\<rparr> = None"
  by (rule wait_poll_ignores_timeout)
    (simp_all add: has_exited_def sync_check_def process_exited_ph demo_handle_def)

end
