(* ===== verification/Script_Run.thy ===== *)
theory Script_Run
  imports Cni_Process
begin

text \<open>
  A script that opens a file with \<open>async.fstream\<close>, redirects the standard output of a program to it
  and starts the program (\<open>src/process.cpp\<close> of the root): \<open>Mpp_File\<close>, \<open>Builder\<close> and \<open>Spawn\<close>
  together, on Unix.
\<close>

section \<open>Starting from a script\<close>

definition cni_start :: "unix \<Rightarrow> spawn_env \<Rightarrow> process_startup \<Rightarrow> holder \<Rightarrow> os \<Rightarrow> ((exn + holder) \<times> os) option" where
  "cni_start pf E b w s = process_start pf E b w s"

definition default_shell :: "platform \<Rightarrow> (string \<Rightarrow> string option) \<Rightarrow> string" where
  "default_shell pf env = get_default_shell pf env"

text \<open>\<open>open\<close> in the descriptor table: the descriptor leads to a new open file.\<close>

definition with_open :: "int \<Rightarrow> nat \<Rightarrow> open_flags \<Rightarrow> os \<Rightarrow> os" where
  "with_open fd n flags s = s\<lparr>fdt := (fdt s)(fd \<mapsto> \<lparr>obj = Other n, cloexec = of_cloexec flags\<rparr>)\<rparr>"

lemma open_unix_fd:
  "o_file (open_unix denied fd path mode fs) = Inr (Some f) \<Longrightarrow> native_fd Unix f = fd \<and> f_fd f = fd \<and> \<not> f_closed f \<and> 0 \<le> fd"
  by (auto simp: open_unix_def sys_open_def native_fd_def configure_def file_new_def Let_def
      split: sum.splits prod.splits if_splits)

lemma start_startup_same:
  assumes "start_startup pf b = Inr startup"
  shows "st_inherit_stdout startup = st_inherit_stdout b \<and> st_stdout startup = st_stdout b \<and>
    st_merge_outputs startup = st_merge_outputs b \<and> all_targets startup = all_targets b \<and> st_cmdline startup \<noteq> []"
proof -
  obtain c where "c \<noteq> []" "startup = b\<lparr>st_cmdline := c\<rparr>"
  proof (cases "st_shell_mode b")
    case True
    with assms that show ?thesis unfolding start_startup_def Let_def by (metis list.distinct(1) sum.distinct(1) sum.sel(2))
  next
    case False
    with assms have "startup = b" "st_cmdline b \<noteq> []" by (simp_all add: start_startup_def split: if_splits)
    then show ?thesis using that[of "st_cmdline b"] by simp
  qed
  then show ?thesis by (simp add: all_targets_def redirect_targets_def)
qed

section \<open>Properties\<close>

text \<open>
  C32. The output of a program goes to the file that a script has opened for it.  When \<open>redirect_out\<close>
  accepts the file and \<open>start\<close> succeeds, the program's standard output is that file, and its standard
  error too when the outputs are merged, although the descriptor is close-on-exec; it has no other
  descriptor of the script.  The script keeps its own descriptor, there is no stream to read the output
  from, and closing the process and then the file gives the table back as it was before the script.
\<close>

theorem output_to_opened_file:
  assumes "pipe_alloc (se_alloc E)" and "o_file (open_unix denied fd path mode fs) = Inr (Some f)"
    and "o_flags (open_unix denied fd path mode fs) = Some flags" and "fdt s fd = None" and "s1 = with_open fd n flags s"
    and "redirect_out Unix b (Some f) = Inr b'" and "\<not> st_inherit_stdout b" and "parent_ok E b' s1"
    and "builder_start pf E b' s1 = Some (Inr info, s', Some (Child_exec prog as block t))"
  shows "file_of t 1 = Some (Other n) \<and> (st_merge_outputs b \<longrightarrow> file_of t 2 = Some (Other n)) \<and> dom t \<subseteq> {0, 1, 2} \<and>
    cni_start pf E b' w s1 = Some (Inr (process_new info (fdt s') w), s') \<and> fdt s' fd = fdt s1 fd \<and>
    pi_stdout info = FD_INVALID \<and>
    (case close_file Unix f of (f', cs) \<Rightarrow>
       cs = [Close fd] \<and> sys_close fd (snd (close_process info (fdt s'))) = fdt s)"
proof -
  note fd = open_unix_fd[OF assms(2)]
  have b': "b' = redirect_stdout fd b" using assms(6) fd by (simp add: redirect_out_def split: if_splits)
  then have tg: "redirected (st_stdout b')" "target (st_stdout b') = fd" "\<not> st_inherit_stdout b'"
    "st_merge_outputs b' = st_merge_outputs b"
    using fd assms(7) by (simp_all add: redirect_stdout_def redirected_def FD_INVALID_def)
  from assms(9) obtain startup where st: "start_startup Unix b' = Inr startup" and
    c: "create_process pf E startup process_info_new s1 = Some (Inr info, s', Some (Child_exec prog as block t))"
    by (auto simp: builder_start_def split: sum.splits)
  note same = start_startup_same[OF st]
  obtain pn args where cl: "st_cmdline startup = pn # args" using same by (cases "st_cmdline startup") auto
  have "parent_ok E startup s1" using assms(8) same by (simp add: parent_ok_def)
  from success_connected[OF assms(1) this cl c] have t: "dom t \<subseteq> {0, 1, 2}" "file_of t 1 = file_of (fdt s1) fd"
    "st_merge_outputs b \<longrightarrow> file_of t 2 = file_of t 1"
    using same tg by (simp_all add: connected_def)
  have fo: "file_of (fdt s1) fd = Some (Other n)" by (simp add: assms(5) with_open_def)
  note g = pipe_alloc.success_gains[OF assms(1) c refl]
  have "fdt s1 fd \<noteq> None" by (simp add: assms(5) with_open_def)
  with g have keep: "fdt s' fd = fdt s1 fd" unfolding gains_def by metis
  have inv: "pi_stdout info = FD_INVALID"
    using pipe_alloc.success_info[OF assms(1) c refl] same tg by (simp add: own_defs)
  have "sys_close fd (fdt s1) = fdt s" using assms(4) by (auto simp: assms(5) with_open_def sys_close_def)
  moreover have "snd (close_file Unix f) = [Close fd]" using fd by (simp add: close_file_def Let_def)
  moreover have "cni_start pf E b' w s1 = Some (Inr (process_new info (fdt s') w), s')"
    using assms(9) by (simp add: cni_start_def process_start_def)
  ultimately show ?thesis using t fo keep inv close_process_gains[OF g] by (auto split: prod.split)
qed

definition demo_log :: mfile where
  "demo_log = (configure False True False file_new)\<lparr>f_fd := 3\<rparr>"

definition demo_flags :: open_flags where
  "demo_flags = \<lparr>of_access = Wronly, of_creat = True, of_trunc = True, of_append = False, of_cloexec = True\<rparr>"

definition demo_logged :: process_startup where
  "demo_logged = redirect_stdout 3 (merge_outputs True demo_piped)"

definition demo_logged_run :: "spawn_result option" where
  "demo_logged_run = builder_start Linux demo_spawn demo_logged (with_open 3 40 demo_flags demo_os)"

lemma demo_logged_result:
  "case demo_logged_run of Some (Inr info, s', Some (Child_exec prog as block t)) \<Rightarrow> prog = ''/bin/ls'' | _ \<Rightarrow> False"
  by code_simp

theorem output_to_opened_file_witness:
  "\<exists>info s' as block t. builder_start Linux demo_spawn demo_logged (with_open 3 40 demo_flags demo_os) =
       Some (Inr info, s', Some (Child_exec ''/bin/ls'' as block t)) \<and>
     file_of t 1 = Some (Other 40) \<and> file_of t 2 = Some (Other 40) \<and> pi_stdout info = FD_INVALID"
proof -
  let ?o = "open_unix (\<lambda>_. False) 3 ''log'' ''w'' Map.empty" and ?s1 = "with_open 3 40 demo_flags demo_os"
  obtain r s' c where d: "demo_logged_run = Some (r, s', c)"
    using demo_logged_result by (cases demo_logged_run) auto
  obtain info where r: "r = Inr info" using demo_logged_result by (cases r) (auto simp: d)
  obtain prog as block t where c: "c = Some (Child_exec prog as block t)"
    using demo_logged_result by (cases c; cases "the c") (auto simp: d r)
  have run: "builder_start Linux demo_spawn demo_logged ?s1 = Some (Inr info, s', Some (Child_exec ''/bin/ls'' as block t))"
    using demo_logged_result d by (simp add: r c demo_logged_run_def)
  have o: "o_file ?o = Inr (Some demo_log)" "o_flags ?o = Some demo_flags"
    by (simp_all add: open_unix_def file_mode_def sys_open_def demo_log_def demo_flags_def configure_def file_new_def)
  have b: "redirect_out Unix (merge_outputs True demo_piped) (Some demo_log) = Inr demo_logged"
    by (simp add: redirect_out_def demo_log_def demo_logged_def is_writable_def configure_def native_fd_def file_new_def)
  have s: "fdt demo_os 3 = None" "\<not> st_inherit_stdout (merge_outputs True demo_piped)" by code_simp+
  have "all_targets demo_logged = {3}" by code_simp
  moreover have "fd_limit (open_max (ce_cad (se_child demo_spawn))) = 256"
    by (simp add: demo_spawn_def demo_cad_def fd_limit_def to_int32_def)
  ultimately have p: "parent_ok demo_spawn demo_logged ?s1"
    using demo_parent_ok by (auto simp: parent_ok_def with_open_def Let_def demo_os_def)
  have "st_merge_outputs (merge_outputs True demo_piped)" by (simp add: merge_outputs_def)
  with output_to_opened_file[OF demo_alloc o s(1) refl b s(2) p run] run show ?thesis by auto
qed

end
