(* ===== verification/Script_Streams.thy ===== *)
theory Script_Streams
  imports Uv_Fs
begin

text \<open>
  The stream objects that a script gets from a file (\<open>out\<close>, \<open>in\<close>) and from a process
  (\<open>in\<close>, \<open>out\<close>, \<open>err\<close>) in the bindings (\<open>src/process.cpp\<close> of the repository's root).  They
  hold a plain pointer and a deleter that does nothing; what they point to belongs to the file, which
  \<open>close_file\<close> takes it from, or to the process, and goes when the last \<open>shared_ptr\<close> does.
\<close>

section \<open>State\<close>

text \<open>The buffer that a stream object points to, by the object that owns it.\<close>

datatype stream_ref = File_out nat | File_in nat | Proc_in nat | Proc_out nat | Proc_err nat

text \<open>
  The files and processes that exist, how many \<open>shared_ptr\<close> to each the script has, the stream
  objects that it has been given, and the number of the next object; a number is never used again.
\<close>

record script =
  sc_files :: "nat \<rightharpoonup> mfile"
  sc_procs :: "nat set"
  sc_file_refs :: "nat \<Rightarrow> nat"
  sc_proc_refs :: "nat \<Rightarrow> nat"
  sc_streams :: "stream_ref set"
  sc_next :: nat

definition script_new :: script where
  "script_new = \<lparr>sc_files = Map.empty, sc_procs = {}, sc_file_refs = (\<lambda>_. 0), sc_proc_refs = (\<lambda>_. 0),
     sc_streams = {}, sc_next = 0\<rparr>"

section \<open>Operations\<close>

definition script_open :: "mfile \<Rightarrow> script \<Rightarrow> script" where
  "script_open f s =
     s\<lparr>sc_files := (sc_files s)(sc_next s \<mapsto> f), sc_file_refs := (sc_file_refs s)(sc_next s := 1), sc_next := sc_next s + 1\<rparr>"

definition script_start :: "script \<Rightarrow> script" where
  "script_start s =
     s\<lparr>sc_procs := insert (sc_next s) (sc_procs s), sc_proc_refs := (sc_proc_refs s)(sc_next s := 1), sc_next := sc_next s + 1\<rparr>"

text \<open>\<open>out\<close> and \<open>in\<close> of a file, which give null when it is closed or not open for that.\<close>

definition file_out :: "platform \<Rightarrow> nat \<Rightarrow> script \<Rightarrow> script" where
  "file_out pf k s =
     (case cni_out pf (sc_files s k) of
        (None, fo) \<Rightarrow> s
      | (Some fd, fo) \<Rightarrow> s\<lparr>sc_files := (sc_files s)(k := fo), sc_streams := insert (File_out k) (sc_streams s)\<rparr>)"

definition file_in :: "platform \<Rightarrow> nat \<Rightarrow> script \<Rightarrow> script" where
  "file_in pf k s =
     (case cni_in pf (sc_files s k) of
        (None, fo) \<Rightarrow> s
      | (Some fd, fo) \<Rightarrow> s\<lparr>sc_files := (sc_files s)(k := fo), sc_streams := insert (File_in k) (sc_streams s)\<rparr>)"

definition file_close :: "platform \<Rightarrow> nat \<Rightarrow> script \<Rightarrow> script" where
  "file_close pf k s = s\<lparr>sc_files := (sc_files s)(k := fst (cni_close pf (sc_files s k)))\<rparr>"

definition proc_in :: "nat \<Rightarrow> script \<Rightarrow> script" where
  "proc_in k s = s\<lparr>sc_streams := insert (Proc_in k) (sc_streams s)\<rparr>"

definition proc_out :: "nat \<Rightarrow> script \<Rightarrow> script" where
  "proc_out k s = s\<lparr>sc_streams := insert (Proc_out k) (sc_streams s)\<rparr>"

definition proc_err :: "nat \<Rightarrow> script \<Rightarrow> script" where
  "proc_err k s = s\<lparr>sc_streams := insert (Proc_err k) (sc_streams s)\<rparr>"

text \<open>A copy of a \<open>shared_ptr\<close>, and its end; the last one destroys what it points to.\<close>

definition share_file :: "nat \<Rightarrow> script \<Rightarrow> script" where
  "share_file k s = s\<lparr>sc_file_refs := (sc_file_refs s)(k := sc_file_refs s k + 1)\<rparr>"

definition share_proc :: "nat \<Rightarrow> script \<Rightarrow> script" where
  "share_proc k s = s\<lparr>sc_proc_refs := (sc_proc_refs s)(k := sc_proc_refs s k + 1)\<rparr>"

definition drop_file :: "nat \<Rightarrow> script \<Rightarrow> script" where
  "drop_file k s =
     (let s1 = s\<lparr>sc_file_refs := (sc_file_refs s)(k := sc_file_refs s k - 1)\<rparr>
      in if sc_file_refs s1 k = 0 then s1\<lparr>sc_files := (sc_files s1)(k := None)\<rparr> else s1)"

definition drop_proc :: "nat \<Rightarrow> script \<Rightarrow> script" where
  "drop_proc k s =
     (let s1 = s\<lparr>sc_proc_refs := (sc_proc_refs s)(k := sc_proc_refs s k - 1)\<rparr>
      in if sc_proc_refs s1 k = 0 then s1\<lparr>sc_procs := sc_procs s1 - {k}\<rparr> else s1)"

text \<open>
  A script can only use an object to which it has a \<open>shared_ptr\<close>.  Reads and writes of the file move its
  positions.
\<close>

inductive script_step :: "platform \<Rightarrow> script \<Rightarrow> script \<Rightarrow> bool" for pf where
  st_open: "f_istream f = None \<Longrightarrow> f_ostream f = None \<Longrightarrow> script_step pf s (script_open f s)"
| st_start: "script_step pf s (script_start s)"
| st_file_out: "0 < sc_file_refs s k \<Longrightarrow> script_step pf s (file_out pf k s)"
| st_file_in: "0 < sc_file_refs s k \<Longrightarrow> script_step pf s (file_in pf k s)"
| st_file_close: "0 < sc_file_refs s k \<Longrightarrow> script_step pf s (file_close pf k s)"
| st_file_read: "0 < sc_file_refs s k \<Longrightarrow> sc_files s k = Some f \<Longrightarrow>
    script_step pf s (s\<lparr>sc_files := (sc_files s)(k \<mapsto> advance_read n f)\<rparr>)"
| st_file_write: "0 < sc_file_refs s k \<Longrightarrow> sc_files s k = Some f \<Longrightarrow>
    script_step pf s (s\<lparr>sc_files := (sc_files s)(k \<mapsto> advance_write n f)\<rparr>)"
| st_proc_in: "0 < sc_proc_refs s k \<Longrightarrow> script_step pf s (proc_in k s)"
| st_proc_out: "0 < sc_proc_refs s k \<Longrightarrow> script_step pf s (proc_out k s)"
| st_proc_err: "0 < sc_proc_refs s k \<Longrightarrow> script_step pf s (proc_err k s)"
| st_share_file: "0 < sc_file_refs s k \<Longrightarrow> script_step pf s (share_file k s)"
| st_share_proc: "0 < sc_proc_refs s k \<Longrightarrow> script_step pf s (share_proc k s)"
| st_drop_file: "0 < sc_file_refs s k \<Longrightarrow> script_step pf s (drop_file k s)"
| st_drop_proc: "0 < sc_proc_refs s k \<Longrightarrow> script_step pf s (drop_proc k s)"

text \<open>The buffer that the pointer leads to is there.\<close>

definition stream_valid :: "script \<Rightarrow> stream_ref \<Rightarrow> bool" where
  "stream_valid s r =
     (case r of
        File_out k \<Rightarrow> (case sc_files s k of None \<Rightarrow> False | Some f \<Rightarrow> f_istream f \<noteq> None)
      | File_in k \<Rightarrow> (case sc_files s k of None \<Rightarrow> False | Some f \<Rightarrow> f_ostream f \<noteq> None)
      | Proc_in k \<Rightarrow> k \<in> sc_procs s
      | Proc_out k \<Rightarrow> k \<in> sc_procs s
      | Proc_err k \<Rightarrow> k \<in> sc_procs s)"

section \<open>When a stream object can be used\<close>

definition file_alive :: "script \<Rightarrow> nat \<Rightarrow> bool" where
  "file_alive s k \<longleftrightarrow> (case sc_files s k of None \<Rightarrow> False | Some f \<Rightarrow> \<not> f_closed f)"

text \<open>What the script does with the owner: it has kept it, and not closed it.\<close>

definition owner_kept :: "script \<Rightarrow> stream_ref \<Rightarrow> bool" where
  "owner_kept s r =
     (case r of
        File_out k \<Rightarrow> 0 < sc_file_refs s k \<and> file_alive s k
      | File_in k \<Rightarrow> 0 < sc_file_refs s k \<and> file_alive s k
      | Proc_in k \<Rightarrow> 0 < sc_proc_refs s k
      | Proc_out k \<Rightarrow> 0 < sc_proc_refs s k
      | Proc_err k \<Rightarrow> 0 < sc_proc_refs s k)"

text \<open>
  An object exists as long as there is a \<open>shared_ptr\<close> to it; a file that is closed has no streams, and
  the stream that a script was given is in its file until then.
\<close>

definition script_inv :: "script \<Rightarrow> bool" where
  "script_inv s \<longleftrightarrow>
     (\<forall>k. sc_files s k \<noteq> None \<longleftrightarrow> 0 < sc_file_refs s k) \<and> (\<forall>k. k \<in> sc_procs s \<longleftrightarrow> 0 < sc_proc_refs s k) \<and>
     (\<forall>k\<ge>sc_next s. sc_file_refs s k = 0 \<and> sc_proc_refs s k = 0 \<and> File_out k \<notin> sc_streams s \<and> File_in k \<notin> sc_streams s) \<and>
     (\<forall>k f. sc_files s k = Some f \<longrightarrow>
        (f_closed f \<longrightarrow> f_istream f = None \<and> f_ostream f = None) \<and>
        (\<not> f_closed f \<and> File_out k \<in> sc_streams s \<longrightarrow> f_istream f \<noteq> None) \<and>
        (\<not> f_closed f \<and> File_in k \<in> sc_streams s \<longrightarrow> f_ostream f \<noteq> None))"

lemma script_inv_new: "script_inv script_new"
  by (simp add: script_inv_def script_new_def)

text \<open>The three operations that touch the streams of a file.\<close>

lemma out_stream_effect:
  "f_closed (snd (out_stream pf f)) = f_closed f" "f_istream (snd (out_stream pf f)) = Some (fst (out_stream pf f))"
  "f_ostream (snd (out_stream pf f)) = f_ostream f"
  by (auto simp: out_stream_def Let_def)

lemma in_stream_effect:
  "f_closed (snd (in_stream pf f)) = f_closed f" "f_ostream (snd (in_stream pf f)) = Some (fst (in_stream pf f))"
  "f_istream (snd (in_stream pf f)) = f_istream f"
  by (auto simp: in_stream_def Let_def)

lemma file_out_eq:
  "file_out pf k s =
     (case sc_files s k of
        None \<Rightarrow> s
      | Some f \<Rightarrow> if is_readable f
          then s\<lparr>sc_files := (sc_files s)(k \<mapsto> snd (out_stream pf f)), sc_streams := insert (File_out k) (sc_streams s)\<rparr> else s)"
  by (simp add: file_out_def cni_out_def split: option.split prod.split)

lemma file_in_eq:
  "file_in pf k s =
     (case sc_files s k of
        None \<Rightarrow> s
      | Some f \<Rightarrow> if is_writable f
          then s\<lparr>sc_files := (sc_files s)(k \<mapsto> snd (in_stream pf f)), sc_streams := insert (File_in k) (sc_streams s)\<rparr> else s)"
  by (simp add: file_in_def cni_in_def split: option.split prod.split)

lemma known_file: "script_inv s \<Longrightarrow> 0 < sc_file_refs s k \<Longrightarrow> k < sc_next s"
  unfolding script_inv_def by (metis less_irrefl not_le)

lemma closed_streams:
  "f_closed (fst (close_file pf f))"
  "f_istream (fst (close_file pf f)) = (if f_closed f then f_istream f else None)"
  "f_ostream (fst (close_file pf f)) = (if f_closed f then f_ostream f else None)"
  by (simp_all add: close_file_def Let_def split: platform.split)

lemma file_close_cases:
  "file_close pf k s = s\<lparr>sc_files := (sc_files s)(k := map_option (\<lambda>f. fst (close_file pf f)) (sc_files s k))\<rparr>"
  by (simp add: file_close_def cni_close_def split: option.split prod.split)

lemma script_step_inv:
  assumes "script_step pf s s'" and "script_inv s"
  shows "script_inv s'"
  using assms
proof (induction rule: script_step.induct)
  case (st_file_out s k)
  with known_file[OF st_file_out(2,1)] show ?case
    by (auto simp: file_out_eq script_inv_def out_stream_effect is_readable_def split: option.split)
next
  case (st_file_in s k)
  with known_file[OF st_file_in(2,1)] show ?case
    by (auto simp: file_in_eq script_inv_def in_stream_effect is_writable_def split: option.split)
next
  case (st_file_close s k)
  then show ?case
    unfolding file_close_cases by (auto simp: script_inv_def closed_streams)
next
  case (st_open f s)
  then show ?case by (auto simp: script_inv_def script_open_def)
next
  case (st_start s)
  then show ?case by (auto simp: script_inv_def script_start_def)
next
  case (st_file_read s k f n)
  then show ?case by (auto simp: script_inv_def advance_read_def)
next
  case (st_file_write s k f n)
  then show ?case by (auto simp: script_inv_def advance_write_def)
next
  case (st_drop_file s k)
  then show ?case by (auto simp: script_inv_def drop_file_def Let_def)
next
  case (st_drop_proc s k)
  then show ?case by (auto simp: script_inv_def drop_proc_def Let_def)
qed (auto simp: script_inv_def proc_in_def proc_out_def proc_err_def share_file_def share_proc_def)

lemma script_reachable_inv: "(script_step pf)\<^sup>*\<^sup>* s s' \<Longrightarrow> script_inv s \<Longrightarrow> script_inv s'"
  by (induction rule: rtranclp_induct) (use script_step_inv in blast)+

section \<open>Properties\<close>

text \<open>
  C34. After anything that a script may do, a stream object that it was given can be used if and only if it
  still has a \<open>shared_ptr\<close> to the process or the file and, for a file, has not closed it.  Nothing
  in the stream object keeps its owner alive: when the last pointer is dropped or the file closed, the next
  use of the stream is a use of freed memory.
\<close>

theorem stream_valid_iff_owner_kept:
  assumes "(script_step pf)\<^sup>*\<^sup>* script_new s" and "r \<in> sc_streams s"
  shows "stream_valid s r \<longleftrightarrow> owner_kept s r"
proof -
  have i: "script_inv s" using script_reachable_inv[OF assms(1) script_inv_new] .
  then have p: "k \<in> sc_procs s \<longleftrightarrow> 0 < sc_proc_refs s k" and f: "sc_files s k \<noteq> None \<longleftrightarrow> 0 < sc_file_refs s k" for k
    by (simp_all add: script_inv_def)
  show ?thesis
  proof (cases r)
    case (File_out k)
    with i assms(2) f[of k] show ?thesis
      by (cases "sc_files s k") (auto simp: stream_valid_def owner_kept_def file_alive_def script_inv_def)
  next
    case (File_in k)
    with i assms(2) f[of k] show ?thesis
      by (cases "sc_files s k") (auto simp: stream_valid_def owner_kept_def file_alive_def script_inv_def)
  qed (simp_all add: stream_valid_def owner_kept_def p)
qed

text \<open>A script takes the standard input of a process, and drops the process.\<close>

theorem stream_valid_iff_owner_kept_witness:
  "let s = proc_in 0 (script_start script_new)
   in stream_valid s (Proc_in 0) \<and> \<not> stream_valid (drop_proc 0 s) (Proc_in 0)"
proof -
  let ?begun = "script_start script_new" and ?s = "proc_in 0 (script_start script_new)"
  have n: "sc_proc_refs ?begun 0 = 1" "sc_proc_refs ?s 0 = 1" "Proc_in 0 \<in> sc_streams ?s" "Proc_in 0 \<in> sc_streams (drop_proc 0 ?s)"
    "sc_proc_refs (drop_proc 0 ?s) 0 = 0"
    by (simp_all add: script_start_def script_new_def proc_in_def drop_proc_def Let_def)
  have r0: "(script_step Unix)\<^sup>*\<^sup>* script_new ?begun" using st_start[of Unix script_new] by (rule r_into_rtranclp)
  have "script_step Unix ?begun ?s" by (rule st_proc_in) (simp add: n(1))
  with r0 have r: "(script_step Unix)\<^sup>*\<^sup>* script_new ?s" by (rule rtranclp.rtrancl_into_rtrancl)
  have "script_step Unix ?s (drop_proc 0 ?s)" by (rule st_drop_proc) (simp add: n(2))
  with r have "(script_step Unix)\<^sup>*\<^sup>* script_new (drop_proc 0 ?s)" by (rule rtranclp.rtrancl_into_rtrancl)
  from stream_valid_iff_owner_kept[OF r n(3)] stream_valid_iff_owner_kept[OF this n(4)] n(2,5)
  show ?thesis by (simp add: Let_def owner_kept_def)
qed

end
