(* ===== verification/Fiber_Handle.thy ===== *)
theory Fiber_Handle
  imports Cni_Process
begin

text \<open>
  Several fibers on one handle (\<open>src/process.cpp\<close> of the root).  Inside a fiber \<open>wait\<close> and
  \<open>communicate\<close> yield between two polls, and the other fibers run until their own next yield; a
  schedule is a list of turns of fibers and of steps of the environment.
\<close>

section \<open>A turn of a fiber\<close>

datatype fiber_call = Call_wait | Call_try_wait | Call_communicate

text \<open>Where a fiber is: before the call, in its loop, or back with the value or the exception.\<close>

datatype fiber = Entry | Looping | Returned "cs_var list" | Thrown exn

text \<open>From one poll to the next yield; \<open>None\<close> is a turn that never gives way.\<close>

definition wait_turn :: "sys \<Rightarrow> holder \<Rightarrow> (fiber \<times> holder) option" where
  "wait_turn S s =
     (case poll_wait (fst S) (snd S) s of
        (Inl e, s') \<Rightarrow> Some (Thrown e, s')
      | (Inr exited, s') \<Rightarrow>
          if exited then
            (case collect_wait s' of None \<Rightarrow> None | Some (c, s'') \<Rightarrow> Some (Returned [Cs_number c], s''))
          else Some (Looping, s'))"

definition try_turn :: "sys \<Rightarrow> holder \<Rightarrow> (fiber \<times> holder) option" where
  "try_turn S s =
     (case wait_turn S s of None \<Rightarrow> None | Some (f, s') \<Rightarrow> Some (if f = Looping then Returned [Cs_null] else f, s'))"

definition communicate_turn :: "holder \<Rightarrow> (fiber \<times> holder) option" where
  "communicate_turn s =
     (case poll_communicate s of
        (ready, s') \<Rightarrow>
          if ready then
            (case end_communicate s' of
               None \<Rightarrow> None
             | Some (r, s'') \<Rightarrow>
                 Some (Returned [Cs_string (cr_out r), Cs_string (cr_err r), Cs_number (cr_exit_code r)], s''))
          else Some (Looping, s'))"

fun fiber_turn :: "sys \<Rightarrow> fiber_call \<Rightarrow> fiber \<Rightarrow> holder \<Rightarrow> (fiber \<times> holder) option" where
  "fiber_turn S Call_wait Entry s = wait_turn S (begin_wait s)"
| "fiber_turn S Call_wait Looping s = wait_turn S s"
| "fiber_turn S Call_try_wait Entry s = try_turn S s"
| "fiber_turn S Call_try_wait Looping s = try_turn S s"
| "fiber_turn S Call_communicate Entry s = communicate_turn (begin_communicate s)"
| "fiber_turn S Call_communicate Looping s = communicate_turn s"
| "fiber_turn S call (Returned v) s = Some (Returned v, s)"
| "fiber_turn S call (Thrown e) s = Some (Thrown e, s)"

datatype event = Turn nat | Env env

text \<open>The fibers, each with its call, and the handle.\<close>

fun run_fibers :: "sys \<Rightarrow> event list \<Rightarrow> (fiber_call \<times> fiber) list \<Rightarrow> holder \<Rightarrow>
    ((fiber_call \<times> fiber) list \<times> holder) option" where
  "run_fibers S [] fs s = Some (fs, s)"
| "run_fibers S (Env a # es) fs s = run_fibers S es fs (env_step a s)"
| "run_fibers S (Turn i # es) fs s =
     (if i < length fs then
        (case fiber_turn S (fst (fs ! i)) (snd (fs ! i)) s of
           None \<Rightarrow> None
         | Some (f, s') \<Rightarrow> run_fibers S es (fs[i := (fst (fs ! i), f)]) s')
      else run_fibers S es fs s)"

lemma run_fibers_append:
  "run_fibers S (xs @ ys) fs s = (case run_fibers S xs fs s of None \<Rightarrow> None | Some (fs', s') \<Rightarrow> run_fibers S ys fs' s')"
  by (induction S xs fs s rule: run_fibers.induct) (simp_all split: option.split)

section \<open>One fiber alone\<close>

text \<open>
  Turns of a single fiber with a step of the environment after each are what the calls of
  \<open>Cni_Process\<close> do.
\<close>

partial_function (option) alone_until ::
  "sys \<Rightarrow> fiber_call \<Rightarrow> fiber \<Rightarrow> holder \<Rightarrow> (fiber \<times> holder) option" where
  "alone_until S call f s =
     (case fiber_turn S call f s of
        None \<Rightarrow> None
      | Some (f', s') \<Rightarrow> if f' = Looping then alone_until S call Looping (tick s') else Some (f', s'))"

section \<open>What a turn does to the handle\<close>

fun out_text :: "fiber_call \<times> fiber \<Rightarrow> string" where
  "out_text (Call_communicate, Returned (Cs_string out # _)) = out"
| "out_text _ = []"

fun err_text :: "fiber_call \<times> fiber \<Rightarrow> string" where
  "err_text (Call_communicate, Returned (_ # Cs_string err # _)) = err"
| "err_text _ = []"

text \<open>What a fiber may have returned when the child's code is \<open>c\<close>.\<close>

fun fiber_ok :: "int \<Rightarrow> fiber_call \<times> fiber \<Rightarrow> bool" where
  "fiber_ok c (Call_wait, Returned vs) \<longleftrightarrow> vs = [Cs_number c]"
| "fiber_ok c (Call_try_wait, Returned vs) \<longleftrightarrow> vs = [Cs_null] \<or> vs = [Cs_number c]"
| "fiber_ok c (Call_communicate, Returned vs) \<longleftrightarrow> length vs = 3 \<and> vs ! 2 = Cs_number c"
| "fiber_ok c _ \<longleftrightarrow> True"

text \<open>A fiber that knows the exit code.\<close>

fun knows_code :: "fiber_call \<times> fiber \<Rightarrow> bool" where
  "knows_code (Call_try_wait, Returned vs) \<longleftrightarrow> vs \<noteq> [Cs_null]"
| "knows_code (call, Returned vs) \<longleftrightarrow> True"
| "knows_code _ \<longleftrightarrow> False"

lemma not_back [simp]: "out_text (call, Entry) = []" "out_text (call, Looping) = []" "out_text (call, Thrown e) = []"
  "err_text (call, Entry) = []" "err_text (call, Looping) = []" "err_text (call, Thrown e) = []"
  "fiber_ok c (call, Looping)" "fiber_ok c (call, Entry)" "fiber_ok c (call, Thrown e)"
  "\<not> knows_code (call, Looping)" "\<not> knows_code (call, Entry)" "\<not> knows_code (call, Thrown e)"
  by (cases call; simp)+

text \<open>
  The effect of a turn: it keeps the invariant, the text it returns is all that is left or nothing,
  a code that it returns is the child's and is then cached, and a cached code stays.
\<close>

definition turn_effect :: "fiber_call \<Rightarrow> holder \<Rightarrow> fiber \<Rightarrow> holder \<Rightarrow> bool" where
  "turn_effect call s f s' \<longleftrightarrow>
     delivers s (out_text (call, f)) (err_text (call, f)) s' \<and>
     (out_text (call, f) = [] \<or> out_left s' = []) \<and> (err_text (call, f) = [] \<or> err_left s' = []) \<and>
     fiber_ok (w_code s) (call, f) \<and>
     (knows_code (call, f) \<or> hd_exit_code s \<noteq> None \<longrightarrow> hd_exit_code s' \<noteq> None)"

lemma turn_effect_first:
  "keeps s t \<Longrightarrow> hd_exit_code t = hd_exit_code s \<Longrightarrow> turn_effect call t f u \<Longrightarrow> turn_effect call s f u"
  by (simp add: turn_effect_def keeps_def delivers_def)

lemma begin_wait_code: "hd_exit_code (begin_wait s) = hd_exit_code s"
  by (auto simp: begin_wait_def uv_queue_work_def split: list.split bool.split)

lemma queue_code: "uv_queue_work s = (ok, s') \<Longrightarrow> hd_exit_code s' = hd_exit_code s"
  using uv_queue_work_frame[of s ok s'] by (simp add: same_frame_def)

lemma begin_communicate_code: "hd_exit_code (begin_communicate s) = hd_exit_code s"
proof -
  let ?b = "begin_wait (close_stdin s)"
  define m where "m = (if pi_stdout (hd_info ?b) \<noteq> FD_INVALID \<and> hd_out_work ?b = None
    then (case uv_queue_work ?b of (True, s') \<Rightarrow> s'\<lparr>hd_out_work := Some async_work_new\<rparr> | (False, s') \<Rightarrow> s') else ?b)"
  have e: "begin_communicate s = (if pi_stderr (hd_info m) \<noteq> FD_INVALID \<and> hd_err_work m = None
    then (case uv_queue_work m of (True, s') \<Rightarrow> s'\<lparr>hd_err_work := Some async_work_new\<rparr> | (False, s') \<Rightarrow> s') else m)"
    unfolding begin_communicate_def Let_def m_def ..
  have "hd_exit_code ?b = hd_exit_code s" by (simp add: begin_wait_code close_stdin_def Let_def)
  then have "hd_exit_code m = hd_exit_code s"
    by (auto simp: m_def dest: queue_code split: prod.split bool.split)
  then show ?thesis unfolding e by (auto dest: queue_code split: prod.split bool.split)
qed

lemma poll_wait_code:
  "hd_exit_code s \<noteq> None \<Longrightarrow> poll_wait sigchld stat s = (Inr True, s)"
  by (simp add: poll_wait_def)

lemma wait_turn_effect:
  assumes "holder_inv s" and "wait_turn S s = Some (f, s')" and "call \<noteq> Call_communicate"
  shows "turn_effect call s f s' \<and> (f = Looping \<longrightarrow> hd_exit_code s = None)"
proof -
  obtain r t where p: "poll_wait (fst S) (snd S) s = (r, t)" by fastforce
  have k: "keeps s t" using poll_wait_keeps[OF assms(1), of "fst S" "snd S"] p by simp
  have i: "holder_inv t" using k by (simp add: keeps_def)
  show ?thesis
  proof (cases "hd_exit_code s")
    case (Some c)
    with p assms(2) have "f = Returned [Cs_number c]" "s' = s" by (auto simp: poll_wait_code wait_turn_def collect_wait_def)
    moreover have "c = w_code s" using Some assms(1) by (simp add: holder_inv_def)
    ultimately show ?thesis using assms(1,3) Some by (cases call) (simp_all add: turn_effect_def delivers_def)
  next
    case None
    consider e where "r = Inl e" | "r = Inr False" | "r = Inr True" by (cases r) auto
    then show ?thesis
    proof cases
      case 1
      with p assms(2) have "f = Thrown e" "s' = t" by (simp_all add: wait_turn_def)
      with k None show ?thesis by (simp add: turn_effect_def keeps_delivers)
    next
      case 2
      with p assms(2) have "f = Looping" "s' = t" by (simp_all add: wait_turn_def)
      with k None show ?thesis by (simp add: turn_effect_def keeps_delivers)
    next
      case 3
      with p assms(2) obtain c where c: "collect_wait t = Some (c, s')" "f = Returned [Cs_number c]"
        by (auto simp: wait_turn_def split: option.splits)
      note cc = collect_wait_code[OF i c(1)]
      have "keeps s s'" using keeps_trans[OF k] cc by blast
      moreover have "c = w_code s" using cc k by (simp add: keeps_def)
      ultimately show ?thesis using cc c(2) assms(3) None
        by (cases call) (simp_all add: turn_effect_def keeps_delivers)
    qed
  qed
qed

lemma communicate_turn_effect:
  assumes "holder_inv s" and "communicate_turn s = Some (f, s')"
  shows "turn_effect Call_communicate s f s'"
proof -
  let ?t = "snd (poll_communicate s)"
  have k: "keeps s ?t" by (rule poll_communicate_keeps[OF assms(1)])
  have x: "hd_exit_code ?t = hd_exit_code s" by (simp add: poll_communicate_def Let_def uv_run_def)
  have i: "holder_inv ?t" using k by (simp add: keeps_def)
  show ?thesis
  proof (cases "fst (poll_communicate s)")
    case False
    with assms(2) have "f = Looping" "s' = ?t" by (simp_all add: communicate_turn_def split: prod.splits)
    with k x show ?thesis by (simp add: turn_effect_def keeps_delivers)
  next
    case True
    with assms(2) obtain r where r: "end_communicate ?t = Some (r, s')"
      "f = Returned [Cs_string (cr_out r), Cs_string (cr_err r), Cs_number (cr_exit_code r)]"
      by (auto simp: communicate_turn_def split: prod.splits option.splits)
    note e = end_communicate_spec[OF i r(1)]
    from e have d: "delivers ?t (cr_out r) (cr_err r) s'" by blast
    have "cr_out r = [] \<or> cr_out r = out_left ?t" "cr_err r = [] \<or> cr_err r = err_left ?t" using e by presburger+
    then have "cr_out r = [] \<or> out_left s' = []" "cr_err r = [] \<or> err_left s' = []"
      using d unfolding delivers_def by (metis self_append_conv)+
    then have "turn_effect Call_communicate ?t f s'"
      using d conjunct2[OF conjunct2[OF conjunct2[OF e]]] by (simp add: turn_effect_def r(2))
    then show ?thesis by (rule turn_effect_first[OF k x])
  qed
qed

lemma fiber_turn_effect:
  assumes "holder_inv s" and "f = Entry \<or> f = Looping" and "fiber_turn S call f s = Some (f', s')"
  shows "turn_effect call s f' s'"
proof -
  have w: "turn_effect c t f' s'" if "wait_turn S t = Some (f', s')" "holder_inv t" "c \<noteq> Call_communicate" for t c
    using wait_turn_effect[OF that(2,1,3)] by blast
  have y: "turn_effect Call_try_wait s f' s'" if t: "try_turn S s = Some (f', s')"
  proof -
    from t obtain g where g: "wait_turn S s = Some (g, s')" "f' = (if g = Looping then Returned [Cs_null] else g)"
      by (auto simp: try_turn_def split: option.splits)
    from wait_turn_effect[OF assms(1) g(1), of Call_try_wait] g(2) show ?thesis
      by (cases "g = Looping") (simp_all add: turn_effect_def)
  qed
  note b = begin_wait_keeps[OF assms(1)] begin_communicate_keeps[OF assms(1)]
  then have i: "holder_inv (begin_wait s)" "holder_inv (begin_communicate s)" by (simp_all add: keeps_def)
  show ?thesis
  proof (cases call)
    case Call_wait
    with assms w[OF _ i(1), of Call_wait] w[of s Call_wait] turn_effect_first[OF b(1) begin_wait_code] show ?thesis by auto
  next
    case Call_try_wait
    with assms y show ?thesis by auto
  next
    case Call_communicate
    with assms communicate_turn_effect[OF i(2)] communicate_turn_effect[OF assms(1)]
      turn_effect_first[OF b(2) begin_communicate_code] show ?thesis by auto
  qed
qed

section \<open>Sharing the text\<close>

text \<open>Either nothing of a text has been handed out, or all of it, to one of the fibers.\<close>

definition shared :: "string list \<Rightarrow> string \<Rightarrow> string \<Rightarrow> bool" where
  "shared texts left whole \<longleftrightarrow>
     left = whole \<and> texts = replicate (length texts) [] \<or>
     left = [] \<and> (\<exists>i<length texts. texts = (replicate (length texts) [])[i := whole])"

lemma shared_step:
  assumes "shared texts left whole" and "j < length texts" and "texts ! j = []"
    and "left = t @ left'" and "t = [] \<or> left' = []"
  shows "shared (texts[j := t]) left' whole"
proof (cases "t = []")
  case True
  with assms(3) have "texts[j := t] = texts" by (metis list_update_id)
  with True assms(1,4) show ?thesis by simp
next
  case False
  with assms(4,5) have l: "left \<noteq> []" "left = t" "left' = []" by simp_all
  with assms(1) have s: "left = whole" "texts = replicate (length texts) []" by (auto simp: shared_def)
  then have "texts[j := t] = (replicate (length texts) [])[j := whole]" using l(2) by metis
  then show ?thesis using assms(2) l(3) by (auto simp: shared_def)
qed

lemma shared_nth:
  assumes "shared texts left whole" and "i < length texts"
  shows "texts ! i = [] \<or> texts ! i = whole \<and> (\<forall>j<length texts. j \<noteq> i \<longrightarrow> texts ! j = [])"
proof -
  consider "texts = replicate (length texts) []"
    | k where "k < length texts" "texts = (replicate (length texts) [])[k := whole]"
    using assms(1) unfolding shared_def by blast
  then show ?thesis
  proof cases
    case 1
    then show ?thesis using assms(2) by (metis nth_replicate)
  next
    case 2
    define n where "n = length texts"
    have "texts ! j = (if j = k then whole else [])" if "j < n" for j
      using 2 that unfolding n_def[symmetric] by (metis length_replicate nth_list_update nth_replicate)
    then show ?thesis using assms(2) by (auto simp: n_def)
  qed
qed

definition fibers_inv :: "holder \<Rightarrow> (fiber_call \<times> fiber) list \<Rightarrow> holder \<Rightarrow> bool" where
  "fibers_inv s0 fs s \<longleftrightarrow> holder_inv s \<and> w_code s = w_code s0 \<and>
     shared (map out_text fs) (out_left s) (out_left s0) \<and> shared (map err_text fs) (err_left s) (err_left s0) \<and>
     (\<forall>f\<in>set fs. fiber_ok (w_code s0) f \<and> (knows_code f \<longrightarrow> hd_exit_code s \<noteq> None))"

lemma fibers_inv_env: "fibers_inv s0 fs s \<Longrightarrow> fibers_inv s0 fs (env_step a s)"
  using env_step_frame[of s a] by (auto simp: fibers_inv_def env_step_inv same_frame_def)

lemma fibers_inv_turn:
  assumes "fibers_inv s0 fs s" and "i < length fs" and "fs ! i = (call, f)"
    and "fiber_turn S call f s = Some (f', s')"
  shows "fibers_inv s0 (fs[i := (call, f')]) s'"
proof (cases "f = Entry \<or> f = Looping")
  case False
  with assms(4) have "f' = f" "s' = s" by (cases f; cases call; simp)+
  then show ?thesis using assms(1-3) by (metis list_update_id)
next
  case True
  have i: "holder_inv s" and c: "w_code s = w_code s0" using assms(1) by (simp_all add: fibers_inv_def)
  from fiber_turn_effect[OF i True assms(4)] have e:
    "delivers s (out_text (call, f')) (err_text (call, f')) s'" "out_text (call, f') = [] \<or> out_left s' = []"
    "err_text (call, f') = [] \<or> err_left s' = []" "fiber_ok (w_code s) (call, f')"
    "knows_code (call, f') \<or> hd_exit_code s \<noteq> None \<longrightarrow> hd_exit_code s' \<noteq> None" by (simp_all add: turn_effect_def)
  have n: "out_text (fs ! i) = []" "err_text (fs ! i) = []" using True assms(3) by auto
  have "shared ((map out_text fs)[i := out_text (call, f')]) (out_left s') (out_left s0)"
    using assms(1,2) n e(1,2) by (intro shared_step[of _ "out_left s"]) (simp_all add: fibers_inv_def delivers_def)
  moreover have "shared ((map err_text fs)[i := err_text (call, f')]) (err_left s') (err_left s0)"
    using assms(1,2) n e(1,3) by (intro shared_step[of _ "err_left s"]) (simp_all add: fibers_inv_def delivers_def)
  moreover have "fiber_ok (w_code s0) g \<and> (knows_code g \<longrightarrow> hd_exit_code s' \<noteq> None)"
    if "g \<in> set (fs[i := (call, f')])" for g
    using set_update_subset_insert[of fs i "(call, f')"] that assms(1) e(4,5) c by (auto simp: fibers_inv_def)
  ultimately show ?thesis using e(1) c by (simp add: fibers_inv_def delivers_def map_update)
qed

lemma run_fibers_inv:
  "run_fibers S es fs s = Some (fs', s') \<Longrightarrow> fibers_inv s0 fs s \<Longrightarrow>
   fibers_inv s0 fs' s' \<and> map fst fs' = map fst fs"
proof (induction S es fs s rule: run_fibers.induct)
  case (3 S i es fs s)
  show ?case
  proof (cases "i < length fs")
    case False
    with 3 show ?thesis by simp
  next
    case True
    obtain call f where cf: "fs ! i = (call, f)" by fastforce
    with 3(3) True obtain f' t where t: "fiber_turn S call f s = Some (f', t)"
      "run_fibers S es (fs[i := (call, f')]) t = Some (fs', s')" by (auto split: option.splits)
    from 3(1)[OF True _ _ _] t cf fibers_inv_turn[OF 3(4) True cf t(1)]
    have "fibers_inv s0 fs' s' \<and> map fst fs' = map fst (fs[i := (call, f')])" by auto
    moreover have "map fst (fs[i := (call, f')]) = map fst fs" using cf True by (metis fst_conv list_update_id map_update)
    ultimately show ?thesis by simp
  qed
qed (simp_all add: fibers_inv_env)

lemma entry_inv:
  assumes "fresh_handle s0" and "\<forall>f\<in>set fs. snd f = Entry"
  shows "fibers_inv s0 fs s0"
proof -
  have e: "out_text f = []" "err_text f = []" "fiber_ok c f" "\<not> knows_code f" if "f \<in> set fs" for f c
    using assms(2) that by (metis not_back prod.collapse)+
  have "map out_text fs = replicate (length fs) []" "map err_text fs = replicate (length fs) []"
    by (rule nth_equalityI; simp add: e)+
  then show ?thesis using fresh_inv[OF assms(1)] e by (simp add: fibers_inv_def shared_def)
qed

section \<open>One fiber alone does what the calls do\<close>

text \<open>What a fiber that is back returns or throws.\<close>

fun fiber_value :: "fiber \<Rightarrow> cs_var list result" where
  "fiber_value (Returned vs) = Inr vs"
| "fiber_value (Thrown e) = Inl e"
| "fiber_value _ = Inr []"

definition as_values :: "cs_var result \<Rightarrow> cs_var list result" where
  "as_values r = (case r of Inl e \<Rightarrow> Inl e | Inr v \<Rightarrow> Inr [v])"

lemma as_values_simps [simp]: "as_values (Inl e) = Inl e" "as_values (Inr v) = Inr [v]"
  by (simp_all add: as_values_def)

lemma readers_then_end:
  "poll_readers s = Some t \<Longrightarrow>
   alone_until S Call_communicate Looping s =
     (case end_communicate t of
        None \<Rightarrow> None
      | Some (r, u) \<Rightarrow> Some (Returned [Cs_string (cr_out r), Cs_string (cr_err r), Cs_number (cr_exit_code r)], u))"
proof (induction rule: poll_readers.raw_induct[rotated 1, consumes 1])
  case (1 readers s t)
  then show ?case
    by (subst alone_until.simps) (auto simp: communicate_turn_def split: prod.splits if_splits option.splits)
qed

lemma alone_polls:
  "alone_until S call f s = Some r \<Longrightarrow> call = Call_communicate \<Longrightarrow> f = Looping \<Longrightarrow> poll_readers s \<noteq> None"
proof (induction rule: alone_until.raw_induct[rotated 1, consumes 1])
  case (1 alone S call f s r)
  then show ?case
    by (subst poll_readers.simps) (auto simp: communicate_turn_def split: prod.splits if_splits option.splits)
qed

lemma communicate_alone:
  "(case (case poll_readers s of None \<Rightarrow> None | Some t \<Rightarrow> end_communicate t) of
      None \<Rightarrow> None
    | Some (r, u) \<Rightarrow> Some (Inr [Cs_string (cr_out r), Cs_string (cr_err r), Cs_number (cr_exit_code r)], u)) =
   map_option (apfst fiber_value) (alone_until S Call_communicate Looping s)"
proof (cases "poll_readers s")
  case None
  then have "alone_until S Call_communicate Looping s = None"
    using alone_polls[of S Call_communicate Looping s] by (cases "alone_until S Call_communicate Looping s") auto
  with None show ?thesis by simp
next
  case (Some t)
  from readers_then_end[OF this] Some show ?thesis by (simp split: option.split)
qed

abbreviation pausing :: "clocked \<Rightarrow> exn option \<times> clocked" where
  "pausing \<equiv> \<lambda>w. (None, pause w)"

lemma pause_tick: "cl_h (pause w) = tick (cl_h w)"
  by (simp add: pause_def split: list.split)

lemma forever_alone:
  "poll_forever S f w = Some r \<Longrightarrow> f = pausing \<Longrightarrow>
   map_option (apfst fiber_value) (alone_until S Call_wait Looping (cl_h w)) = Some (as_values (fst r), cl_h (snd r))"
proof (induction rule: poll_forever.raw_induct[rotated 1, consumes 1])
  case (1 forever S f w r)
  obtain x h where p: "poll_wait (fst S) (snd S) (cl_h w) = (x, h)" by fastforce
  show ?case
  proof (cases "x = Inr False")
    case True
    let ?w = "pause (w\<lparr>cl_h := h\<rparr>)"
    have "forever S pausing ?w = Some r" using 1(2) p True by (simp add: poll_def 1(3))
    from 1(1)[OF this refl] have "map_option (apfst fiber_value) (alone_until S Call_wait Looping (tick h)) =
        Some (as_values (fst r), cl_h (snd r))" by (simp add: pause_tick)
    moreover have "alone_until S Call_wait Looping (cl_h w) = alone_until S Call_wait Looping (tick h)"
      using p True by (subst alone_until.simps) (simp add: wait_turn_def)
    ultimately show ?thesis by simp
  next
    case False
    with 1(2) p show ?thesis
      by (subst alone_until.simps)
        (auto simp: 1(3) wait_turn_def poll_def collected_def split: sum.splits if_splits option.splits)
  qed
qed

lemma alone_forever:
  "alone_until S call f s = Some r \<Longrightarrow> call = Call_wait \<Longrightarrow> f = Looping \<Longrightarrow> cl_h w = s \<Longrightarrow>
   poll_forever S pausing w \<noteq> None"
proof (induction arbitrary: w rule: alone_until.raw_induct[rotated 1, consumes 1])
  case (1 alone S call f s r)
  then show ?case
    by (subst poll_forever.simps)
      (auto simp: wait_turn_def poll_def collected_def pause_tick split: prod.splits sum.splits if_splits option.splits)
qed

lemma communicate_entry: "alone_until S Call_communicate Entry s = alone_until S Call_communicate Looping (begin_communicate s)"
  by (subst (1 2) alone_until.simps) simp

lemma wait_entry: "alone_until S Call_wait Entry s = alone_until S Call_wait Looping (begin_wait s)"
  by (subst (1 2) alone_until.simps) simp

section \<open>Properties\<close>

text \<open>
  C9. Any number of fibers may wait for the same handle and communicate with it, under any schedule:
  every code that one of them gets is the child's, and the text of each stream goes in one piece to
  at most one of the fibers that communicate; the others get an empty text.
\<close>

theorem fibers_share_handle:
  assumes "fresh_handle s0" and "\<forall>f\<in>set fs0. snd f = Entry" and "run_fibers S es fs0 s0 = Some (fs, s)"
  shows "map fst fs = map fst fs0 \<and> (\<forall>f\<in>set fs. fiber_ok (w_code s0) f) \<and>
    (\<forall>i<length fs. out_text (fs ! i) = [] \<or>
       out_text (fs ! i) = w_out s0 \<and> (\<forall>j<length fs. j \<noteq> i \<longrightarrow> out_text (fs ! j) = [])) \<and>
    (\<forall>i<length fs. err_text (fs ! i) = [] \<or>
       err_text (fs ! i) = w_err s0 \<and> (\<forall>j<length fs. j \<noteq> i \<longrightarrow> err_text (fs ! j) = []))"
proof -
  from run_fibers_inv[OF assms(3) entry_inv[OF assms(1,2)]] have i: "fibers_inv s0 fs s" "map fst fs = map fst fs0"
    by simp_all
  note l = fresh_left[OF assms(1)]
  have sh: "shared (map out_text fs) (out_left s) (w_out s0)" "shared (map err_text fs) (err_left s) (w_err s0)"
    using i(1) l by (simp_all add: fibers_inv_def)
  have "out_text (fs ! k) = [] \<or> out_text (fs ! k) = w_out s0 \<and> (\<forall>j<length fs. j \<noteq> k \<longrightarrow> out_text (fs ! j) = [])"
    if "k < length fs" for k
    using shared_nth[OF sh(1), of k] that by simp
  moreover have "err_text (fs ! k) = [] \<or> err_text (fs ! k) = w_err s0 \<and> (\<forall>j<length fs. j \<noteq> k \<longrightarrow> err_text (fs ! j) = [])"
    if "k < length fs" for k
    using shared_nth[OF sh(2), of k] that by simp
  moreover have "\<forall>f\<in>set fs. fiber_ok (w_code s0) f" using i(1) by (simp add: fibers_inv_def)
  ultimately show ?thesis using i(2) by blast
qed

definition demo_schedule :: "event list" where
  "demo_schedule = [Turn 0, Turn 1, Env Start_wait, Env Start_out, Turn 2, Env Start_err, Env Child_exits,
     Env Finish_err, Turn 1, Env Finish_out, Env Finish_wait, Turn 2, Turn 1, Turn 0]"

lemma demo_fibers:
  "case run_fibers (Some False, \<lambda>_. None) demo_schedule
     [(Call_wait, Entry), (Call_communicate, Entry), (Call_communicate, Entry)] demo_handle of
     Some (fs, s) \<Rightarrow> map out_text fs = [[], [], ''out''] | None \<Rightarrow> False"
  by code_simp

theorem fibers_share_handle_witness:
  "\<exists>fs s. run_fibers (Some False, \<lambda>_. None) demo_schedule
     [(Call_wait, Entry), (Call_communicate, Entry), (Call_communicate, Entry)] demo_handle = Some (fs, s) \<and>
     map out_text fs = [[], [], ''out''] \<and> (\<forall>f\<in>set fs. fiber_ok 3 f)"
proof -
  let ?fs = "[(Call_wait, Entry), (Call_communicate, Entry), (Call_communicate, Entry)]"
  obtain fs s where r: "run_fibers (Some False, \<lambda>_. None) demo_schedule ?fs demo_handle = Some (fs, s)"
    "map out_text fs = [[], [], ''out'']"
    using demo_fibers by (cases "run_fibers (Some False, \<lambda>_. None) demo_schedule ?fs demo_handle") auto
  have f: "fresh_handle demo_handle" "\<forall>f\<in>set ?fs. snd f = Entry" "w_code demo_handle = 3"
    by (simp_all add: fresh_handle_def demo_handle_def)
  from fibers_share_handle[OF f(1,2) r(1)] f(3) r show ?thesis by auto
qed

text \<open>
  No fiber is left waiting: once one of them has got the exit code, the next turn of any fiber
  that waits returns it, although the job of the waiter is gone.
\<close>

theorem fibers_all_wake:
  assumes "fresh_handle s0" and "\<forall>f\<in>set fs0. snd f = Entry" and "run_fibers S es fs0 s0 = Some (fs, s)"
    and "f \<in> set fs" and "knows_code f" and "i < length fs" and "fst (fs ! i) = Call_wait" and "snd (fs ! i) = Looping"
  shows "run_fibers S (es @ [Turn i]) fs0 s0 = Some (fs[i := (Call_wait, Returned [Cs_number (w_code s0)])], s)"
proof -
  from run_fibers_inv[OF assms(3) entry_inv[OF assms(1,2)]] have i: "fibers_inv s0 fs s" by simp
  then have "hd_exit_code s \<noteq> None" "holder_inv s" "w_code s = w_code s0" using assms(4,5) by (auto simp: fibers_inv_def)
  then have c: "hd_exit_code s = Some (w_code s0)" by (auto simp: holder_inv_def)
  have "fiber_turn S Call_wait Looping s = Some (Returned [Cs_number (w_code s0)], s)"
    by (simp add: wait_turn_def poll_wait_code c collect_wait_def)
  then have "run_fibers S [Turn i] fs s = Some (fs[i := (Call_wait, Returned [Cs_number (w_code s0)])], s)"
    using assms(6-8) by simp
  with run_fibers_append[of S es "[Turn i]" fs0 s0] assms(3) show ?thesis by simp
qed

definition demo_free :: holder where
  "demo_free = demo_handle\<lparr>w_needs_eof := False, w_needs_drain := False\<rparr>"

definition demo_wake :: "event list" where
  "demo_wake = [Turn 0, Turn 1, Env Start_wait, Env Child_exits, Env Finish_wait, Turn 1]"

lemma demo_wakes:
  "case run_fibers (Some False, \<lambda>_. None) demo_wake [(Call_wait, Entry), (Call_wait, Entry)] demo_free of
     Some (fs, s) \<Rightarrow> fs = [(Call_wait, Looping), (Call_wait, Returned [Cs_number 3])] | None \<Rightarrow> False"
  by code_simp

theorem fibers_all_wake_witness:
  "\<exists>s. run_fibers (Some False, \<lambda>_. None) (demo_wake @ [Turn 0]) [(Call_wait, Entry), (Call_wait, Entry)] demo_free =
     Some ([(Call_wait, Returned [Cs_number 3]), (Call_wait, Returned [Cs_number 3])], s)"
proof -
  let ?fs = "[(Call_wait, Entry), (Call_wait, Entry)]" and ?gs = "[(Call_wait, Looping), (Call_wait, Returned [Cs_number 3])]"
  obtain s where r: "run_fibers (Some False, \<lambda>_. None) demo_wake ?fs demo_free = Some (?gs, s)"
    using demo_wakes by (cases "run_fibers (Some False, \<lambda>_. None) demo_wake ?fs demo_free") auto
  have f: "fresh_handle demo_free" "\<forall>f\<in>set ?fs. snd f = Entry" "w_code demo_free = 3"
    by (simp_all add: fresh_handle_def demo_free_def demo_handle_def)
  from fibers_all_wake[OF f(1,2) r, of "(Call_wait, Returned [Cs_number 3])" 0] f(3) show ?thesis by auto
qed


end
