(* ===== verification/Fiber_Live.thy ===== *)
theory Fiber_Live
  imports Fiber_Handle
begin

text \<open>
  When the fibers of \<open>Fiber_Handle\<close> return: once the child is gone and the jobs of the pool are over,
  one more turn of each of them is enough, whichever of them takes the results first, and none of them
  blocks the others.
\<close>

section \<open>Nothing left to do for the environment\<close>

definition job_over :: "async_work option \<Rightarrow> bool" where
  "job_over w = (case w of None \<Rightarrow> True | Some a \<Rightarrow> aw_phase a = Worked)"

definition all_over :: "holder \<Rightarrow> bool" where
  "all_over s \<longleftrightarrow> w_child s \<noteq> Alive \<and> job_over (hd_wait_work s) \<and> job_over (hd_out_work s) \<and> job_over (hd_err_work s)"

lemma job_over_simps [simp]: "job_over None" "job_over w \<Longrightarrow> start_work s w = w" "job_over w \<Longrightarrow> \<not> is_working w"
  "job_over (map_option after_work_cb w) = job_over w"
  "job_over w \<Longrightarrow> work_done (map_option after_work_cb w) \<longleftrightarrow> w \<noteq> None"
  by (auto simp: job_over_def start_work_def is_working_def after_work_cb_def work_done_def split: option.splits)

lemma over_env: "all_over s \<Longrightarrow> env_step a s = s"
  by (cases a) (simp_all add: all_over_def)

lemma over_tick: "all_over s \<Longrightarrow> tick s = s\<lparr>w_env := tl (w_env s)\<rparr>"
  using over_env[of "s\<lparr>w_env := _\<rparr>"] by (simp add: tick_def all_over_def split: list.split)

lemma over_uv_run [simp]: "all_over (uv_run s) = all_over s"
  by (simp add: all_over_def uv_run_def)

lemma over_update [simp]: "all_over (w_env_update f s) = all_over s" "all_over (hd_exit_code_update g s) = all_over s"
  by (simp_all add: all_over_def)

lemma over_spin:
  assumes "all_over s" and "holder_inv s" and "w s \<noteq> None" and "w \<in> {hd_wait_work, hd_out_work, hd_err_work}"
  shows "\<exists>s'. spin w s = Some s' \<and> all_over s' \<and> work_done (w s')"
proof -
  have "w (tick (uv_run s)) = map_option after_work_cb (w s)" "job_over (w s)"
    using assms(1,4) over_tick[of "uv_run s"] by (auto simp: all_over_def uv_run_def)
  then have "work_done (w (tick (uv_run s)))" using assms(3) by simp
  then have "spin w (tick (uv_run s)) = Some (tick (uv_run s))" by (subst spin.simps) simp
  then obtain s' where s': "spin w s = Some s'" by (cases "work_done (w s)") (simp_all add: spin.simps[of w s])
  have "all_over s' \<and> work_done (w s')"
    using spin_step[OF s', of all_over] assms(1) over_tick by simp
  with s' show ?thesis by blast
qed

section \<open>Turns after the end\<close>

text \<open>Somebody has asked for the code: it is cached, or a waiter is there for it.\<close>

definition tracked :: "holder \<Rightarrow> bool" where
  "tracked s \<longleftrightarrow> hd_exit_code s \<noteq> None \<or> hd_wait_work s \<noteq> None"

lemma tracked_simps [simp]: "tracked (uv_run s) = tracked s" "tracked (hd_out_work_update f s) = tracked s"
  "tracked (hd_err_work_update f s) = tracked s" "tracked (hd_exit_code_update (\<lambda>_. Some c) s)"
  by (simp_all add: tracked_def uv_run_def)

lemma tracked_frame: "same_frame s t \<Longrightarrow> tracked t = tracked s"
  by (simp add: same_frame_def tracked_def)

lemma tracked_take: "tracked s \<Longrightarrow> work_done (hd_wait_work s) \<Longrightarrow> tracked (take_wait s)"
  by (auto simp: tracked_def take_wait_def work_done_def split: option.splits)

lemma over_collect:
  assumes "all_over s" and "holder_inv s" and "tracked s"
  shows "\<exists>c s'. collect_wait s = Some (c, s') \<and> all_over s'"
proof (cases "hd_exit_code s")
  case (Some c)
  with assms show ?thesis by (simp add: collect_wait_def)
next
  case None
  with assms(3) obtain a where a: "hd_wait_work s = Some a" by (auto simp: tracked_def)
  with over_spin[OF assms(1,2), of hd_wait_work] obtain t where t: "spin hd_wait_work s = Some t" "all_over t" by auto
  then have "all_over (take_wait t)" by (simp add: all_over_def take_wait_def)
  with None a t show ?thesis by (simp add: collect_wait_def)
qed

lemma over_poll:
  assumes "all_over s" and "holder_inv s" and "tracked s"
  shows "\<exists>s'. poll_wait sigchld stat s = (Inr True, s') \<and> all_over s' \<and> holder_inv s' \<and> tracked s'"
proof (cases "hd_exit_code s \<noteq> None \<or> hd_observed_exited s")
  case True
  with assms show ?thesis by (simp add: poll_wait_def)
next
  case False
  with assms(3) have w: "hd_wait_work s \<noteq> None" by (simp add: tracked_def)
  with assms(1) have d: "work_done (hd_wait_work (uv_run s))" by (simp add: all_over_def uv_run_def)
  have "poll_wait sigchld stat s = (Inr True, take_wait (uv_run s))"
    using False w d by (simp add: poll_wait_def Let_def del: not_None_eq)
  moreover have "all_over (take_wait (uv_run s))" using assms(1) by (simp add: all_over_def take_wait_def uv_run_def)
  ultimately show ?thesis
    using take_wait_inv[OF uv_run_inv[OF assms(2)] d] tracked_take[OF _ d] assms(3) by simp
qed

lemma over_wait_turn:
  assumes "all_over s" and "holder_inv s" and "tracked s"
  shows "\<exists>vs s'. wait_turn S s = Some (Returned vs, s') \<and> all_over s'"
proof -
  from over_poll[OF assms] obtain t where t: "poll_wait (fst S) (snd S) s = (Inr True, t)" "all_over t" "holder_inv t" "tracked t"
    by blast
  from over_collect[OF t(2-4)] t(1) show ?thesis by (auto simp: wait_turn_def)
qed

lemma over_end_out:
  assumes "all_over s" and "holder_inv s"
  shows "\<exists>out s'. end_out s = Some (out, s') \<and> all_over s'"
  using over_spin[OF assms, of hd_out_work] assms by (auto simp: end_out_def all_over_def)

lemma over_end_err:
  assumes "all_over s" and "holder_inv s"
  shows "\<exists>err s'. end_err s = Some (err, s') \<and> all_over s'"
  using over_spin[OF assms, of hd_err_work] assms by (auto simp: end_err_def all_over_def)

lemma spin_tracked: "spin w s = Some s' \<Longrightarrow> holder_inv s \<Longrightarrow> tracked s' = tracked s"
  using spin_inv tracked_frame by blast

lemma end_out_tracked: "end_out s = Some (out, s') \<Longrightarrow> holder_inv s \<Longrightarrow> tracked s' = tracked s"
  by (auto simp: end_out_def spin_tracked split: if_splits)

lemma end_err_tracked: "end_err s = Some (err, s') \<Longrightarrow> holder_inv s \<Longrightarrow> tracked s' = tracked s"
  by (auto simp: end_err_def spin_tracked split: if_splits)

lemma over_communicate_turn:
  assumes "all_over s" and "holder_inv s" and "tracked s"
  shows "\<exists>vs s'. communicate_turn s = Some (Returned vs, s') \<and> all_over s'"
proof -
  let ?u = "uv_run s"
  have u: "all_over ?u" "holder_inv ?u" "tracked ?u" using assms uv_run_inv by simp_all
  have "fst (poll_communicate s)" using assms(1) by (auto simp: poll_communicate_def all_over_def uv_run_def Let_def)
  moreover have "snd (poll_communicate s) = ?u" by (simp add: poll_communicate_def Let_def)
  ultimately have p: "poll_communicate s = (True, ?u)" by (metis prod.collapse)
  from over_end_out[OF u(1,2)] obtain out t where o: "end_out ?u = Some (out, t)" "all_over t" by blast
  have t: "holder_inv t" "tracked t" using end_out_spec[OF u(2) o(1)] end_out_tracked[OF o(1) u(2)] u(3) by (simp_all add: delivers_def)
  from over_end_err[OF o(2) t(1)] obtain err v where e: "end_err t = Some (err, v)" "all_over v" by blast
  have v: "holder_inv v" "tracked v" using end_err_spec[OF t(1) e(1)] end_err_tracked[OF e(1) t(1)] t(2) by (simp_all add: delivers_def)
  from over_collect[OF e(2) v] o e p show ?thesis by (auto simp: communicate_turn_def end_communicate_def)
qed

section \<open>Fibers that have begun\<close>

text \<open>Submissions that succeed go on to do so.\<close>

lemma submit_env [simp]: "w_submit (env_step a s) = w_submit s"
  by (cases a) auto

lemma submit_tick [simp]: "w_submit (tick s) = w_submit s"
  by (simp add: tick_def split: list.split)

lemma submit_uv_run [simp]: "w_submit (uv_run s) = w_submit s"
  by (simp add: uv_run_def)

lemma submit_spin: "spin w s = Some s' \<Longrightarrow> w_submit s' = w_submit s"
  using spin_step[of w s s' "\<lambda>t. w_submit t = w_submit s"] by simp

lemma submit_block: "block_env sched s = Some (r, s') \<Longrightarrow> w_submit s' = w_submit s"
proof (induction sched s rule: block_env.induct)
  case (1 sched s)
  from 1(2) have "(if w_child s = Reaped then Some (Wid_err ECHILD, s)
      else if w_child s = Zombie then Some (Wid CLD_EXITED (w_code s), s\<lparr>w_child := Reaped\<rparr>)
      else case sched of [] \<Rightarrow> None | a # rest \<Rightarrow> block_env rest (env_step a (s\<lparr>w_env := rest\<rparr>))) = Some (r, s')"
    by (simp only: block_env.simps[of sched s])
  with 1(1) show ?case by (cases sched) (auto split: if_splits)
qed

lemma submit_collect:
  assumes "collect_wait s = Some (c, s')" and "holder_inv s"
  shows "w_submit s' = w_submit s"
proof -
  have "w_submit t = w_submit s" if w: "wait_for ph_host pid s = Some (v, t)" and al: "alone s" for pid v t
  proof -
    obtain r u where b: "block_env (w_env s) s = Some (r, u)"
      using w by (subst (asm) wait_for.simps) (auto simp: ph_host_def split: option.splits)
    have "t = u" using w b block_env_alone[OF al b] by (subst (asm) wait_for.simps) (simp add: ph_host_def exit_value_def)
    with submit_block[OF b] show ?thesis by simp
  qed
  with assms show ?thesis
    by (auto simp: collect_wait_def take_wait_def alone_def submit_spin split: option.splits)
qed

lemma submit_poll: "w_submit (snd (poll_wait sigchld stat s)) = w_submit s"
  by (simp add: poll_wait_def sync_check_def process_exited_ph take_wait_def Let_def split: bool.split)

lemma submit_end:
  assumes "end_communicate s = Some (r, s')" and "holder_inv s"
  shows "w_submit s' = w_submit s"
proof -
  from assms(1) obtain out s1 err s2 c where o: "end_out s = Some (out, s1)" and e: "end_err s1 = Some (err, s2)"
    and c: "collect_wait s2 = Some (c, s')" by (auto simp: end_communicate_def split: option.splits)
  have i1: "holder_inv s1" using end_out_spec[OF assms(2) o] by (simp add: delivers_def)
  have i2: "holder_inv s2" using end_err_spec[OF i1 e] by (simp add: delivers_def)
  have "w_submit s1 = w_submit s" "w_submit s2 = w_submit s1"
    using o e by (auto simp: end_out_def end_err_def submit_spin split: if_splits)
  with submit_collect[OF c i2] show ?thesis by simp
qed

lemma poll_wait_no_throw: "holder_inv s \<Longrightarrow> \<exists>b. fst (poll_wait sigchld stat s) = Inr b"
  by (auto simp: poll_wait_def sync_check_def process_exited_ph holder_inv_def Let_def split: bool.split)

lemma poll_wait_tracked: "tracked s \<Longrightarrow> tracked (snd (poll_wait sigchld stat s))"
proof -
  have "tracked (snd (sync_check sigchld stat s)) = tracked s"
    by (simp add: sync_check_def process_exited_ph tracked_def split: bool.split)
  then show "tracked s \<Longrightarrow> tracked (snd (poll_wait sigchld stat s))"
    by (simp add: poll_wait_def tracked_take Let_def)
qed

text \<open>The facts about a turn: nothing is thrown, and who loops is tracked.\<close>

definition turn_safe :: "holder \<Rightarrow> fiber \<Rightarrow> holder \<Rightarrow> bool" where
  "turn_safe s f s' \<longleftrightarrow> w_submit s' = w_submit s \<and> (\<forall>e. f \<noteq> Thrown e) \<and> (tracked s \<longrightarrow> tracked s')"

lemma wait_turn_safe:
  assumes "holder_inv s" and "wait_turn S s = Some (f, s')"
  shows "turn_safe s f s'"
proof -
  obtain b t where p: "poll_wait (fst S) (snd S) s = (Inr b, t)"
    using poll_wait_no_throw[OF assms(1), of "fst S" "snd S"] by (metis prod.collapse)
  have t: "w_submit t = w_submit s" "tracked s \<longrightarrow> tracked t" "holder_inv t"
    using submit_poll[of "fst S" "snd S" s] poll_wait_tracked[of s "fst S" "snd S"] poll_wait_inv[OF assms(1), of "fst S" "snd S"] p
    by auto
  show ?thesis
  proof (cases b)
    case False
    with p assms(2) t show ?thesis by (simp add: wait_turn_def turn_safe_def)
  next
    case True
    with p assms(2) obtain c where c: "collect_wait t = Some (c, s')" "f = Returned [Cs_number c]"
      by (auto simp: wait_turn_def split: option.splits)
    then have "tracked s'" using collect_wait_code[OF t(3) c(1)] by (simp add: tracked_def)
    with c submit_collect[OF c(1) t(3)] t(1) show ?thesis by (simp add: turn_safe_def)
  qed
qed

lemma communicate_turn_safe:
  assumes "holder_inv s" and "communicate_turn s = Some (f, s')"
  shows "turn_safe s f s'"
proof -
  have u: "snd (poll_communicate s) = uv_run s" by (simp add: poll_communicate_def Let_def)
  show ?thesis
  proof (cases "fst (poll_communicate s)")
    case False
    with u assms(2) have "f = Looping" "s' = uv_run s" by (simp_all add: communicate_turn_def split: prod.splits)
    then show ?thesis by (simp add: turn_safe_def)
  next
    case True
    with u assms(2) obtain r where r: "end_communicate (uv_run s) = Some (r, s')" "\<forall>e. f \<noteq> Thrown e"
      by (auto simp: communicate_turn_def split: prod.splits option.splits)
    note i = uv_run_inv[OF assms(1)]
    have "hd_exit_code s' \<noteq> None" using end_communicate_spec[OF i r(1)] by simp
    with r submit_end[OF r(1) i] show ?thesis by (simp add: turn_safe_def tracked_def)
  qed
qed

lemma begin_wait_tracked: "w_submit s = [] \<Longrightarrow> tracked (begin_wait s) \<and> w_submit (begin_wait s) = []"
  by (auto simp: begin_wait_def uv_queue_work_def tracked_def)

lemma begin_communicate_tracked:
  assumes "w_submit s = []"
  shows "tracked (begin_communicate s) \<and> w_submit (begin_communicate s) = []"
proof -
  have "w_submit (close_stdin s) = []" using assms by (simp add: close_stdin_def Let_def)
  from begin_wait_tracked[OF this] show ?thesis
    by (simp add: begin_communicate_def uv_queue_work_def Let_def)
qed

lemma fiber_turn_safe:
  assumes "holder_inv s" and "w_submit s = []" and "f = Entry \<or> f = Looping" and "f = Looping \<longrightarrow> tracked s"
    and "fiber_turn S call f s = Some (f', s')"
  shows "w_submit s' = [] \<and> (\<forall>e. f' \<noteq> Thrown e) \<and> (tracked s \<longrightarrow> tracked s') \<and> (f' = Looping \<longrightarrow> tracked s')"
proof -
  have i: "holder_inv (begin_wait s)" "holder_inv (begin_communicate s)"
    using begin_wait_keeps[OF assms(1)] begin_communicate_keeps[OF assms(1)] by (simp_all add: keeps_def)
  note t = begin_wait_tracked[OF assms(2)] begin_communicate_tracked[OF assms(2)]
  consider "call = Call_try_wait" | "call = Call_wait" | "call = Call_communicate" by (cases call) auto
  then show ?thesis
  proof cases
    case 1
    with assms(3,5) have "try_turn S s = Some (f', s')" by auto
    then obtain g where g: "wait_turn S s = Some (g, s')" "f' = (if g = Looping then Returned [Cs_null] else g)"
      by (auto simp: try_turn_def split: option.splits)
    from wait_turn_safe[OF assms(1) g(1)] g(2) assms(2) show ?thesis by (simp add: turn_safe_def)
  next
    case 2
    then show ?thesis using assms(2-5) wait_turn_safe[OF i(1), of S f' s'] wait_turn_safe[OF assms(1), of S f' s'] t(1) by (auto simp: turn_safe_def)
  next
    case 3
    then show ?thesis using assms(2-5) communicate_turn_safe[OF i(2), of f' s'] communicate_turn_safe[OF assms(1), of f' s'] t(2) by (auto simp: turn_safe_def)
  qed
qed

section \<open>No text stays behind\<close>

text \<open>
  The readers as a waiting fiber leaves them, and what a communicating fiber relies on: the text of a
  captured stream is with a reader, or all of it has been returned.
\<close>

definition same_outs :: "holder \<Rightarrow> holder \<Rightarrow> bool" where
  "same_outs s s' \<longleftrightarrow> pi_stdout (hd_info s') = pi_stdout (hd_info s) \<and> pi_stderr (hd_info s') = pi_stderr (hd_info s)"

definition same_jobs :: "holder \<Rightarrow> holder \<Rightarrow> bool" where
  "same_jobs s s' \<longleftrightarrow> same_outs s s' \<and> out_left s' = out_left s \<and> err_left s' = err_left s \<and>
     (hd_out_work s' = None \<longleftrightarrow> hd_out_work s = None) \<and> (hd_err_work s' = None \<longleftrightarrow> hd_err_work s = None)"

definition served :: "holder \<Rightarrow> bool" where
  "served s \<longleftrightarrow> (pi_stdout (hd_info s) \<noteq> FD_INVALID \<longrightarrow> hd_out_work s \<noteq> None \<or> out_left s = []) \<and>
     (pi_stderr (hd_info s) \<noteq> FD_INVALID \<longrightarrow> hd_err_work s \<noteq> None \<or> err_left s = [])"

lemma same_outs_trans: "same_outs s t \<Longrightarrow> same_outs t u \<Longrightarrow> same_outs s u"
  by (simp add: same_outs_def)

lemma same_jobs_trans: "same_jobs s t \<Longrightarrow> same_jobs t u \<Longrightarrow> same_jobs s u"
  by (simp add: same_jobs_def same_outs_def)

lemma same_jobs_refl [simp]: "same_jobs s s"
  by (simp add: same_jobs_def same_outs_def)

lemma same_jobs_served: "same_jobs s s' \<Longrightarrow> served s' = served s"
  by (simp add: same_jobs_def same_outs_def served_def)

lemma frame_jobs: "same_frame s s' \<Longrightarrow> same_jobs s s'"
  by (simp add: same_frame_def same_jobs_def same_outs_def)

lemma jobs_update [simp]: "same_jobs s (hd_exit_code_update f s') = same_jobs s s'"
  "same_jobs s (hd_observed_exited_update g s') = same_jobs s s'" "same_jobs s (hd_wait_work_update h s') = same_jobs s s'"
  "same_jobs s (w_child_update c s') = same_jobs s s'"
  by (simp_all add: same_jobs_def same_outs_def)

lemma collect_jobs:
  assumes "holder_inv s" and "collect_wait s = Some (c, s')"
  shows "same_jobs s s'"
proof (cases "hd_exit_code s")
  case None
  note e = this
  show ?thesis
  proof (cases "hd_wait_work s")
    case None
    with e assms(1) have "alone s" by (simp add: alone_def)
    from wait_for_alone[OF this] e None assms(2) frame_jobs show ?thesis
      by (fastforce simp: collect_wait_def reaps_def split: option.splits)
  next
    case (Some a)
    with spin_inv[OF _ assms(1)] frame_jobs e assms(2) show ?thesis
      by (fastforce simp: collect_wait_def take_wait_def split: option.splits)
  qed
qed (insert assms, simp add: collect_wait_def)

lemma poll_wait_jobs: "same_jobs s (snd (poll_wait sigchld stat s))"
  using frame_jobs[OF uv_run_frame, of s]
  by (simp add: poll_wait_def sync_check_def process_exited_ph take_wait_def Let_def split: bool.split)

lemma begin_wait_jobs: "same_jobs s (begin_wait s)"
  using uv_queue_work_frame frame_jobs by (auto simp: begin_wait_def split: prod.split bool.split)

lemma wait_turn_jobs:
  assumes "holder_inv s" and "wait_turn S s = Some (f, s')"
  shows "same_jobs s s'"
proof -
  obtain r t where p: "poll_wait (fst S) (snd S) s = (r, t)" by fastforce
  then have t: "same_jobs s t" "holder_inv t"
    using poll_wait_jobs[of s "fst S" "snd S"] poll_wait_inv[OF assms(1), of "fst S" "snd S"] by simp_all
  with assms(2) p collect_jobs[OF t(2)] same_jobs_trans show ?thesis
    by (auto simp: wait_turn_def split: sum.splits if_splits option.splits)
qed

lemma end_communicate_jobs:
  assumes "holder_inv s" and "end_communicate s = Some (r, s')"
  shows "hd_out_work s' = None \<and> hd_err_work s' = None \<and> same_outs s s' \<and> (served s \<longrightarrow> served s')"
proof -
  from assms(2) obtain out s1 err s2 c where o: "end_out s = Some (out, s1)" and e: "end_err s1 = Some (err, s2)"
    and c: "collect_wait s2 = Some (c, s')" by (auto simp: end_communicate_def split: option.splits)
  note os = end_out_spec[OF assms(1) o]
  from os have i1: "holder_inv s1" by (simp add: delivers_def)
  note es = end_err_spec[OF i1 e]
  from es have i2: "holder_inv s2" by (simp add: delivers_def)
  have "hd_out_work s2 = None \<longleftrightarrow> hd_out_work s1 = None"
    using e spin_inv[OF _ i1] by (fastforce simp: end_err_def same_frame_def split: if_splits)
  with os es collect_jobs[OF i2 c] have n: "hd_out_work s' = None" "hd_err_work s' = None" by (simp_all add: same_jobs_def)
  note sp = end_communicate_spec[OF assms]
  then have "same_outs s s'" by (simp add: same_outs_def)
  moreover have "out_left s' = (if hd_out_work s = None then out_left s else [])"
    "err_left s' = (if hd_err_work s = None then err_left s else [])" using sp by (auto simp: delivers_def)
  ultimately show ?thesis using n by (auto simp: served_def same_outs_def)
qed

lemma communicate_turn_jobs:
  assumes "holder_inv s" and "communicate_turn s = Some (f, s')" and "served s"
  shows "same_outs s s' \<and> served s' \<and> (f \<noteq> Looping \<longrightarrow> hd_out_work s' = None \<and> hd_err_work s' = None)"
proof -
  have u: "snd (poll_communicate s) = uv_run s" by (simp add: poll_communicate_def Let_def)
  have j: "same_jobs s (uv_run s)" by (rule frame_jobs[OF uv_run_frame])
  show ?thesis
  proof (cases "fst (poll_communicate s)")
    case False
    with u assms(2) have "f = Looping" "s' = uv_run s" by (simp_all add: communicate_turn_def split: prod.splits)
    with j assms(3) same_jobs_served[OF j] show ?thesis by (simp add: same_jobs_def)
  next
    case True
    with u assms(2) obtain r where r: "end_communicate (uv_run s) = Some (r, s')"
      by (auto simp: communicate_turn_def split: prod.splits option.splits)
    from end_communicate_jobs[OF uv_run_inv[OF assms(1)] r] j same_jobs_served[OF j] assms(3) same_outs_trans
    show ?thesis unfolding same_jobs_def by blast
  qed
qed

lemma begin_communicate_serves:
  assumes "holder_inv s" and "w_submit s = []"
  shows "served (begin_communicate s) \<and> same_outs s (begin_communicate s)"
proof -
  have "pi_stdout (hd_info (close_stdin s)) = pi_stdout (hd_info s)" "pi_stderr (hd_info (close_stdin s)) = pi_stderr (hd_info s)"
    by (simp_all add: close_stdin_def Let_def)
  with begin_communicate_spec[OF assms] show ?thesis by (simp add: served_def same_outs_def)
qed

section \<open>Fibers that have begun\<close>

text \<open>
  No fiber throws; one that still loops has started a waiter; once one has begun to communicate the
  texts are with the readers or returned, and a reader is there only for a fiber that still loops.
\<close>

definition begun_inv :: "holder \<Rightarrow> (fiber_call \<times> fiber) list \<Rightarrow> holder \<Rightarrow> bool" where
  "begun_inv s0 fs s \<longleftrightarrow> holder_inv s \<and> w_submit s = [] \<and> same_outs s0 s \<and>
     (\<forall>f\<in>set fs. (\<forall>e. snd f \<noteq> Thrown e) \<and> (snd f = Looping \<longrightarrow> tracked s) \<and>
        (fst f = Call_communicate \<and> snd f \<noteq> Entry \<longrightarrow> served s)) \<and>
     (hd_out_work s \<noteq> None \<or> hd_err_work s \<noteq> None \<longrightarrow> (Call_communicate, Looping) \<in> set fs)"

lemma begun_env: "begun_inv s0 fs s \<Longrightarrow> begun_inv s0 fs (env_step a s)"
  using env_step_inv[of s a] tracked_frame[OF env_step_frame[of s a]] frame_jobs[OF env_step_frame[of s a]]
    same_jobs_served[of s "env_step a s"] same_outs_trans[of s0 s "env_step a s"]
  by (auto simp: begun_inv_def same_jobs_def)

lemma begun_update:
  assumes "begun_inv s0 fs s" and "holder_inv s'" and "w_submit s' = []" and "same_outs s0 s'" and "\<forall>e. f' \<noteq> Thrown e"
    and "tracked s \<longrightarrow> tracked s'" and "f' = Looping \<longrightarrow> tracked s'"
    and "served s \<longrightarrow> served s'" and "call = Call_communicate \<longrightarrow> served s'"
    and "hd_out_work s' \<noteq> None \<or> hd_err_work s' \<noteq> None \<longrightarrow> (Call_communicate, Looping) \<in> set (fs[i := (call, f')])"
  shows "begun_inv s0 (fs[i := (call, f')]) s'"
proof -
  have "(\<forall>e. snd g \<noteq> Thrown e) \<and> (snd g = Looping \<longrightarrow> tracked s') \<and>
      (fst g = Call_communicate \<and> snd g \<noteq> Entry \<longrightarrow> served s')" if "g \<in> set (fs[i := (call, f')])" for g
  proof (cases "g = (call, f')")
    case True
    with assms(5,7,9) show ?thesis by simp
  next
    case False
    with that have "g \<in> set fs" using set_update_subset_insert[of fs i "(call, f')"] by blast
    with assms(1,6,8) show ?thesis by (simp add: begun_inv_def)
  qed
  with assms(2-4,10) show ?thesis by (simp add: begun_inv_def)
qed

lemma begun_turn:
  assumes "begun_inv s0 fs s" and "i < length fs" and "fs ! i = (call, f)"
    and "fiber_turn S call f s = Some (f', s')"
  shows "begun_inv s0 (fs[i := (call, f')]) s'"
proof (cases "f = Entry \<or> f = Looping")
  case False
  with assms(4) have "f' = f" "s' = s" by (cases f; cases call; simp)+
  then show ?thesis using assms(1-3) by (metis list_update_id)
next
  case True
  have m: "(call, f) \<in> set fs" using assms(2,3) by (metis nth_mem)
  have i: "holder_inv s" "w_submit s = []" "same_outs s0 s" "f = Looping \<longrightarrow> tracked s" using assms(1) m by (auto simp: begun_inv_def)
  have inv: "holder_inv s'" using fiber_turn_effect[OF i(1) True assms(4)] by (simp add: turn_effect_def delivers_def)
  note sf = fiber_turn_safe[OF i(1,2) True i(4) assms(4)]
  have at: "(call, f') \<in> set (fs[i := (call, f')])" using assms(2) by (rule set_update_memI)
  show ?thesis
  proof (cases "call = Call_communicate")
    case True
    let ?b = "begin_communicate s"
    have b: "served ?b" "same_outs s ?b" "holder_inv ?b" using begin_communicate_serves[OF i(1,2)] begin_communicate_keeps[OF i(1)]
      by (simp_all add: keeps_def)
    have "served s" if "f = Looping" using assms(1) m True that by (auto simp: begun_inv_def)
    then have j: "same_outs s s' \<and> served s' \<and> (f' \<noteq> Looping \<longrightarrow> hd_out_work s' = None \<and> hd_err_work s' = None)"
      using \<open>f = Entry \<or> f = Looping\<close> assms(4) True communicate_turn_jobs[OF b(3) _ b(1), of f' s']
        communicate_turn_jobs[OF i(1), of f' s'] same_outs_trans[OF b(2)] by auto
    have "hd_out_work s' \<noteq> None \<or> hd_err_work s' \<noteq> None \<longrightarrow> (Call_communicate, Looping) \<in> set (fs[i := (call, f')])"
      using j at True by (cases "f' = Looping") auto
    moreover have "same_outs s0 s'" using j same_outs_trans[OF i(3)] by blast
    ultimately show ?thesis using inv sf j by (intro begun_update[OF assms(1)]) simp_all
  next
    case False
    have w: "same_jobs s t" if "wait_turn S u = Some (g, t)" "same_jobs s u" "holder_inv u" for g t u
      using wait_turn_jobs[OF that(3,1)] same_jobs_trans[OF that(2)] by blast
    have "holder_inv (begin_wait s)" using begin_wait_keeps[OF i(1)] by (simp add: keeps_def)
    with w[OF _ begin_wait_jobs] w[OF _ same_jobs_refl i(1)] have j: "same_jobs s s'"
      using assms(4) True False by (cases call) (auto simp: try_turn_def split: option.splits)
    have keep: "g \<in> set (fs[i := (call, f')])" if "g \<in> set fs" "fst g = Call_communicate" for g
      using that assms(2,3) False by (metis fst_conv in_set_conv_nth length_list_update nth_list_update_neq)
    then have "hd_out_work s' \<noteq> None \<or> hd_err_work s' \<noteq> None \<longrightarrow> (Call_communicate, Looping) \<in> set (fs[i := (call, f')])"
      using assms(1) j by (auto simp: begun_inv_def same_jobs_def)
    moreover have "same_outs s0 s'" using j same_outs_trans[OF i(3)] by (auto simp: same_jobs_def)
    ultimately show ?thesis using inv sf False same_jobs_served[OF j] by (intro begun_update[OF assms(1)]) simp_all
  qed
qed

lemma run_begun:
  "run_fibers S es fs s = Some (fs', s') \<Longrightarrow> begun_inv s0 fs s \<Longrightarrow> begun_inv s0 fs' s'"
proof (induction S es fs s rule: run_fibers.induct)
  case (3 S i es fs s)
  show ?case
  proof (cases "i < length fs")
    case False
    with 3 show ?thesis by simp
  next
    case True
    obtain call f where cf: "fs ! i = (call, f)" by fastforce
    with 3(3) True obtain f' t where t: "fiber_turn S call f s = Some (f', t)"
      "run_fibers S es (fs[i := (call, f')]) t = Some (fs', s')" by (auto split: option.splits)
    from 3(1)[OF True _ _ _] t cf begun_turn[OF 3(4) True cf t(1)] show ?thesis by auto
  qed
qed (simp_all add: begun_env)

lemma entry_begun:
  assumes "fresh_handle s0" and "w_submit s0 = []" and "\<forall>f\<in>set fs. snd f = Entry"
  shows "begun_inv s0 fs s0"
  using assms fresh_inv[OF assms(1)] by (auto simp: begun_inv_def same_outs_def fresh_handle_def)

section \<open>The last turns\<close>

lemma over_turn:
  assumes "all_over s" and "begun_inv s0 fs s" and "i < length fs" and "fs ! i = (call, f)" and "f \<noteq> Entry"
  shows "\<exists>vs s'. fiber_turn S call f s = Some (Returned vs, s') \<and> all_over s'"
proof -
  have m: "(call, f) \<in> set fs" using assms(3,4) by (metis nth_mem)
  show ?thesis
  proof (cases f)
    case (Thrown e)
    with m assms(2) show ?thesis by (auto simp: begun_inv_def)
  next
    case Looping
    then have "holder_inv s" "tracked s" using m assms(2) by (auto simp: begun_inv_def)
    from over_wait_turn[OF assms(1) this, of S] over_communicate_turn[OF assms(1) this] Looping
    show ?thesis by (cases call) (auto simp: try_turn_def)
  qed (use assms(1,5) in simp_all)
qed

lemma over_turns:
  assumes "all_over s" and "begun_inv s0 fs s" and "\<forall>f\<in>set fs. snd f \<noteq> Entry"
  shows "\<exists>fs' s'. run_fibers S (map Turn order) fs s = Some (fs', s') \<and> length fs' = length fs \<and>
    (\<forall>i<length fs. i \<in> set order \<or> (\<exists>vs. snd (fs ! i) = Returned vs) \<longrightarrow> (\<exists>vs. snd (fs' ! i) = Returned vs))"
  using assms
proof (induction order arbitrary: fs s)
  case (Cons i order)
  show ?case
  proof (cases "i < length fs")
    case False
    with Cons.IH[OF Cons.prems] show ?thesis by auto
  next
    case True
    obtain call f where cf: "fs ! i = (call, f)" by fastforce
    with Cons.prems(3) True have "f \<noteq> Entry" by (metis nth_mem snd_conv)
    from over_turn[OF Cons.prems(1,2) True cf this] obtain vs t where
      t: "fiber_turn S call f s = Some (Returned vs, t)" "all_over t" by blast
    let ?fs = "fs[i := (call, Returned vs)]"
    have "\<forall>f\<in>set ?fs. snd f \<noteq> Entry" using Cons.prems(3) set_update_subset_insert[of fs i "(call, Returned vs)"] by auto
    from Cons.IH[OF t(2) begun_turn[OF Cons.prems(2) True cf t(1)] this] obtain fs' s' where
      r: "run_fibers S (map Turn order) ?fs t = Some (fs', s')" "length fs' = length fs"
      "\<forall>j<length fs. j \<in> set order \<or> (\<exists>vs. snd (?fs ! j) = Returned vs) \<longrightarrow> (\<exists>vs. snd (fs' ! j) = Returned vs)" by auto
    have "run_fibers S (map Turn (i # order)) fs s = Some (fs', s')" using True cf t r(1) by simp
    moreover have "\<exists>vs. snd (fs' ! j) = Returned vs"
      if "j < length fs" "j \<in> set (i # order) \<or> (\<exists>vs. snd (fs ! j) = Returned vs)" for j
      using r(3) that by (cases "j = i") (auto simp: nth_list_update)
    ultimately show ?thesis using r(2) by blast
  qed
qed simp

lemma shared_concat: "shared texts [] whole \<Longrightarrow> concat texts = whole"
proof -
  have r: "concat (replicate n []) = []" for n :: nat by (induction n) simp_all
  have "concat ((replicate n [])[i := whole]) = whole" if "i < n" for i n
    using that by (simp add: upd_conv_take_nth_drop r)
  then show "shared texts [] whole \<Longrightarrow> concat texts = whole" unfolding shared_def by (metis r)
qed

section \<open>Properties\<close>

text \<open>
  C30. Every fiber returns.  Once all fibers have begun, the child is gone and the jobs of the pool are
  over, one more turn of each, in any order, is enough: no turn blocks, none of them throws, each returns
  the child's code or, for a \<open>try_wait\<close>, perhaps null, and if any of them communicates the texts that
  they return make up all that the child has written to each captured stream.
\<close>

theorem fibers_return:
  assumes "fresh_handle s0" and "w_submit s0 = []" and "\<forall>f\<in>set fs0. snd f = Entry"
    and "run_fibers S es fs0 s0 = Some (fs, s)" and "\<forall>f\<in>set fs. snd f \<noteq> Entry" and "all_over s"
    and "{..<length fs} \<subseteq> set order"
  shows "\<exists>fs' s'. run_fibers S (es @ map Turn order) fs0 s0 = Some (fs', s') \<and> map fst fs' = map fst fs0 \<and>
    (\<forall>f\<in>set fs'. (\<exists>vs. snd f = Returned vs) \<and> fiber_ok (w_code s0) f) \<and>
    (Call_communicate \<in> fst ` set fs0 \<longrightarrow>
       (pi_stdout (hd_info s0) \<noteq> FD_INVALID \<longrightarrow> concat (map out_text fs') = w_out s0) \<and>
       (pi_stderr (hd_info s0) \<noteq> FD_INVALID \<longrightarrow> concat (map err_text fs') = w_err s0))"
proof -
  have b: "begun_inv s0 fs s" by (rule run_begun[OF assms(4) entry_begun[OF assms(1-3)]])
  from over_turns[OF assms(6) b assms(5), of S order] obtain fs' s' where
    r: "run_fibers S (map Turn order) fs s = Some (fs', s')" "length fs' = length fs" and
    ends: "\<forall>i<length fs. \<exists>vs. snd (fs' ! i) = Returned vs" using assms(7) by blast
  have run: "run_fibers S (es @ map Turn order) fs0 s0 = Some (fs', s')" using assms(4) r(1) by (simp add: run_fibers_append)
  from run_fibers_inv[OF run entry_inv[OF assms(1,3)]] have i: "fibers_inv s0 fs' s'" "map fst fs' = map fst fs0" by simp_all
  have b': "begun_inv s0 fs' s'" by (rule run_begun[OF r(1) b])
  have ret: "\<exists>vs. snd f = Returned vs" if "f \<in> set fs'" for f using that ends r(2) by (metis in_set_conv_nth)
  then have "(Call_communicate, Looping) \<notin> set fs'" by fastforce
  with b' have n: "hd_out_work s' = None" "hd_err_work s' = None" by (auto simp: begun_inv_def)
  have "served s'" if "Call_communicate \<in> fst ` set fs0"
  proof -
    from that i(2) have "Call_communicate \<in> fst ` set fs'" by (metis set_map)
    then obtain f where "f \<in> set fs'" "fst f = Call_communicate" by auto
    with ret b' show ?thesis unfolding begun_inv_def by fastforce
  qed
  moreover have "shared (map out_text fs') (out_left s') (w_out s0)" "shared (map err_text fs') (err_left s') (w_err s0)"
    using i(1) fresh_left[OF assms(1)] by (simp_all add: fibers_inv_def)
  moreover have "same_outs s0 s'" using b' by (simp add: begun_inv_def)
  ultimately have "Call_communicate \<in> fst ` set fs0 \<longrightarrow>
       (pi_stdout (hd_info s0) \<noteq> FD_INVALID \<longrightarrow> concat (map out_text fs') = w_out s0) \<and>
       (pi_stderr (hd_info s0) \<noteq> FD_INVALID \<longrightarrow> concat (map err_text fs') = w_err s0)"
    using n by (auto simp: served_def same_outs_def dest: shared_concat)
  with run i ret show ?thesis by (auto simp: fibers_inv_def)
qed

definition demo_begun :: "event list" where
  "demo_begun = [Turn 2, Turn 0, Env Start_out, Turn 1, Env Start_wait, Env Start_err, Env Child_exits,
     Env Finish_err, Env Finish_wait, Turn 0, Env Finish_out]"

lemma demo_over:
  "case run_fibers (Some False, \<lambda>_. None) demo_begun
     [(Call_wait, Entry), (Call_communicate, Entry), (Call_communicate, Entry)] demo_handle of
     Some (fs, s) \<Rightarrow> list_all (\<lambda>f. snd f \<noteq> Entry) fs \<and> length fs = 3 \<and> all_over s | None \<Rightarrow> False"
  by code_simp

theorem fibers_return_witness:
  "\<exists>fs s. run_fibers (Some False, \<lambda>_. None) (demo_begun @ map Turn [1, 0, 2])
     [(Call_wait, Entry), (Call_communicate, Entry), (Call_communicate, Entry)] demo_handle = Some (fs, s) \<and>
     concat (map out_text fs) = ''out'' \<and> (\<forall>f\<in>set fs. \<exists>vs. snd f = Returned vs)"
proof -
  let ?fs = "[(Call_wait, Entry), (Call_communicate, Entry), (Call_communicate, Entry)]"
  obtain fs s where r: "run_fibers (Some False, \<lambda>_. None) demo_begun ?fs demo_handle = Some (fs, s)"
    "\<forall>f\<in>set fs. snd f \<noteq> Entry" "length fs = 3" "all_over s"
    using demo_over by (cases "run_fibers (Some False, \<lambda>_. None) demo_begun ?fs demo_handle") (auto simp: list_all_iff)
  have f: "fresh_handle demo_handle" "w_submit demo_handle = []" "\<forall>f\<in>set ?fs. snd f = Entry" "w_out demo_handle = ''out''"
    "pi_stdout (hd_info demo_handle) \<noteq> FD_INVALID"
    by (simp_all add: fresh_handle_def demo_handle_def FD_INVALID_def)
  have "{..<length fs} \<subseteq> set [1, 0, 2]" using r(3) by auto
  from fibers_return[OF f(1-3) r(1,2,4) this] f(4,5) show ?thesis by auto
qed

end
