(* ===== verification/Fiber_Files.thy ===== *)
theory Fiber_Files
  imports Uv_Fs "HOL-Library.Sublist"
begin

text \<open>
  Several fibers on the same files (\<open>src/process.cpp\<close> of the root, on Unix).  The wait of a read or
  a write yields, so between its part before the request and its part after it other fibers read,
  write, open and close, and the pool runs the requests in any order.  A history is a list of events.
\<close>

section \<open>The state\<close>

text \<open>A descriptor leads to a path with the flags it was opened with and a file position.\<close>

record desc =
  d_path :: string
  d_flags :: open_flags
  d_pos :: nat

datatype file_op = Op_read int | Op_write string

text \<open>
  A request in the queue, in a thread of the pool, over with the bytes that were read and its result,
  or cancelled.
\<close>

datatype request = Queued_rq | Running_rq | Over_rq string int | Dropped_rq

text \<open>
  A fiber is idle or waits: for an operation on a file object, with the descriptor and the offset of
  the request, the request, and whether its deadline has passed.
\<close>

datatype file_fiber = Idle | Waits nat file_op int int request bool

text \<open>
  The descriptors of the process, the files, the file objects with the path each was opened for, the
  fibers, and the results so far: the object and the value.
\<close>

record fiber_world =
  fw_fds :: "int \<rightharpoonup> desc"
  fw_files :: files
  fw_objs :: "(mfile \<times> string) list"
  fw_fibers :: "file_fiber list"
  fw_log :: "(nat \<times> file_op \<times> cs_var) list"

text \<open>
  A fiber begins an operation, its deadline passes at one of its turns, or it goes on when its request
  is over; a thread takes a request and ends it, with a transfer of at most \<open>n\<close> bytes or an error; a
  script closes a file, or opens one and gets the descriptor \<open>fd\<close>.
\<close>

datatype file_event =
  Begin nat nat file_op | Deadline nat | Resume nat | Take nat | End nat nat "int option"
| Close_obj nat | Open_obj string string int

abbreviation EBADF_result :: int where "EBADF_result \<equiv> -9"

section \<open>The events\<close>

definition wait_for_request :: "nat \<Rightarrow> nat \<Rightarrow> file_op \<Rightarrow> int \<Rightarrow> int \<Rightarrow> fiber_world \<Rightarrow> fiber_world" where
  "wait_for_request i k op ufd offset w = w\<lparr>fw_fibers := (fw_fibers w)[i := Waits k op ufd offset Queued_rq False]\<rparr>"

definition returns :: "nat \<Rightarrow> file_op \<Rightarrow> cs_var \<Rightarrow> fiber_world \<Rightarrow> fiber_world" where
  "returns k op v w = w\<lparr>fw_log := fw_log w @ [(k, op, v)]\<rparr>"

definition begin_op :: "nat \<Rightarrow> nat \<Rightarrow> file_op \<Rightarrow> fiber_world \<Rightarrow> fiber_world" where
  "begin_op i k op w =
     (case op of
        Op_read sz \<Rightarrow>
          (case read_start Unix 0 (fst (fw_objs w ! k)) sz of
             Inl v \<Rightarrow> returns k op v w
           | Inr (ufd, pos) \<Rightarrow> wait_for_request i k op ufd pos w)
      | Op_write data \<Rightarrow>
          (case write_start Unix 0 (fst (fw_objs w ! k)) data of
             Inl r \<Rightarrow> returns k op (Cs_number r) w
           | Inr (ufd, offset) \<Rightarrow> wait_for_request i k op ufd offset w))"

text \<open>
  What the system does for a request: the bytes that are read, the result, the files and the
  descriptors.  The descriptor is looked up now.  One that appends writes at the end; on another the
  offset -1 is its file position, which then moves.
\<close>

definition content_of :: "fiber_world \<Rightarrow> string \<Rightarrow> string" where
  "content_of w path = (case fw_files w path of None \<Rightarrow> [] | Some c \<Rightarrow> c)"

definition write_offset :: "desc \<Rightarrow> int \<Rightarrow> string \<Rightarrow> nat" where
  "write_offset d offset content =
     (if of_append (d_flags d) then length content else if offset = -1 then d_pos d else nat offset)"

definition perform ::
  "file_op \<Rightarrow> int \<Rightarrow> int \<Rightarrow> nat \<Rightarrow> int option \<Rightarrow> fiber_world \<Rightarrow> string \<times> int \<times> fiber_world" where
  "perform op ufd offset n err w =
     (case fw_fds w ufd of
        None \<Rightarrow> ([], EBADF_result, w)
      | Some d \<Rightarrow>
          (case err of
             Some e \<Rightarrow> ([], e, w)
           | None \<Rightarrow>
               (case op of
                  Op_read sz \<Rightarrow>
                    if of_access (d_flags d) = Wronly then ([], EBADF_result, w)
                    else let bytes = take (min (nat sz) (max 1 n)) (drop (nat offset) (content_of w (d_path d)))
                         in (bytes, int (length bytes), w)
                | Op_write data \<Rightarrow>
                    if of_access (d_flags d) = Rdonly then ([], EBADF_result, w)
                    else let bytes = take (max 1 n) data; c = content_of w (d_path d);
                             d' = (if offset = -1 then d\<lparr>d_pos := d_pos d + length bytes\<rparr> else d)
                         in ([], int (length bytes),
                             w\<lparr>fw_files := (fw_files w)(d_path d \<mapsto> overwrite (write_offset d offset c) bytes c),
                               fw_fds := (fw_fds w)(ufd \<mapsto> d')\<rparr>))))"

definition end_op :: "nat \<Rightarrow> nat \<Rightarrow> int option \<Rightarrow> fiber_world \<Rightarrow> fiber_world" where
  "end_op i n err w =
     (case fw_fibers w ! i of
        Waits k op ufd offset Running_rq late \<Rightarrow>
          (case perform op ufd offset n err w of
             (bytes, result, w') \<Rightarrow>
               w'\<lparr>fw_fibers := (fw_fibers w)[i := Waits k op ufd offset (Over_rq bytes result) late]\<rparr>)
      | _ \<Rightarrow> w)"

definition take_rq :: "nat \<Rightarrow> fiber_world \<Rightarrow> fiber_world" where
  "take_rq i w =
     (case fw_fibers w ! i of
        Waits k op ufd offset Queued_rq late \<Rightarrow>
          w\<lparr>fw_fibers := (fw_fibers w)[i := Waits k op ufd offset Running_rq late]\<rparr>
      | _ \<Rightarrow> w)"

text \<open>The deadline cancels a request in the queue and marks one that a thread has; one that is over is in time.\<close>

definition deadline_op :: "nat \<Rightarrow> fiber_world \<Rightarrow> fiber_world" where
  "deadline_op i w =
     (case fw_fibers w ! i of
        Waits k op ufd offset Queued_rq late \<Rightarrow>
          w\<lparr>fw_fibers := (fw_fibers w)[i := Waits k op ufd offset Dropped_rq True]\<rparr>
      | Waits k op ufd offset Running_rq late \<Rightarrow>
          w\<lparr>fw_fibers := (fw_fibers w)[i := Waits k op ufd offset Running_rq True]\<rparr>
      | _ \<Rightarrow> w)"

definition finish_op :: "nat \<Rightarrow> nat \<Rightarrow> file_op \<Rightarrow> string \<Rightarrow> int \<Rightarrow> bool \<Rightarrow> fiber_world \<Rightarrow> fiber_world" where
  "finish_op i k op bytes result late w =
     (let (f, path) = fw_objs w ! k;
          (v, f') = (case op of
                       Op_read sz \<Rightarrow> read_end bytes (\<not> late) result f
                     | Op_write data \<Rightarrow> apfst Cs_number (write_end (\<not> late) result f))
      in returns k op v (w\<lparr>fw_objs := (fw_objs w)[k := (f', path)], fw_fibers := (fw_fibers w)[i := Idle]\<rparr>))"

definition resume_op :: "nat \<Rightarrow> fiber_world \<Rightarrow> fiber_world" where
  "resume_op i w =
     (case fw_fibers w ! i of
        Waits k op ufd offset (Over_rq bytes result) late \<Rightarrow> finish_op i k op bytes result late w
      | Waits k op ufd offset Dropped_rq late \<Rightarrow> finish_op i k op [] UV_ECANCELED late w
      | _ \<Rightarrow> w)"

definition close_obj :: "nat \<Rightarrow> fiber_world \<Rightarrow> fiber_world" where
  "close_obj k w =
     (case fw_objs w ! k of
        (f, path) \<Rightarrow>
          (case close_file Unix f of
             (f', calls) \<Rightarrow>
               w\<lparr>fw_objs := (fw_objs w)[k := (f', path)],
                 fw_fds := (if calls = [] then fw_fds w else (fw_fds w)(f_fd f := None))\<rparr>))"

definition open_obj :: "string \<Rightarrow> string \<Rightarrow> int \<Rightarrow> fiber_world \<Rightarrow> fiber_world" where
  "open_obj path mode fd w =
     (let r = open_unix (\<lambda>_. False) fd path mode (fw_files w)
      in case (o_file r, o_flags r) of
           (Inr (Some f), Some flags) \<Rightarrow>
             w\<lparr>fw_fds := (fw_fds w)(fd \<mapsto> \<lparr>d_path = path, d_flags = flags, d_pos = 0\<rparr>), fw_files := o_files r,
               fw_objs := fw_objs w @ [(f, path)]\<rparr>
         | _ \<Rightarrow> w)"

text \<open>An event that cannot happen changes nothing; an error is negative.\<close>

definition errno_ok :: "int option \<Rightarrow> bool" where
  "errno_ok err \<longleftrightarrow> (case err of None \<Rightarrow> True | Some e \<Rightarrow> e < 0)"

fun file_step_ev :: "file_event \<Rightarrow> fiber_world \<Rightarrow> fiber_world" where
  "file_step_ev (Begin i k op) w =
     (if i < length (fw_fibers w) \<and> k < length (fw_objs w) \<and> fw_fibers w ! i = Idle then begin_op i k op w else w)"
| "file_step_ev (Deadline i) w = (if i < length (fw_fibers w) then deadline_op i w else w)"
| "file_step_ev (Resume i) w = (if i < length (fw_fibers w) then resume_op i w else w)"
| "file_step_ev (Take i) w = (if i < length (fw_fibers w) then take_rq i w else w)"
| "file_step_ev (End i n err) w =
     (if i < length (fw_fibers w) \<and> errno_ok err then end_op i n err w else w)"
| "file_step_ev (Close_obj k) w = (if k < length (fw_objs w) then close_obj k w else w)"
| "file_step_ev (Open_obj path mode fd) w = (if 0 \<le> fd \<and> fw_fds w fd = None then open_obj path mode fd w else w)"

definition file_run :: "file_event list \<Rightarrow> fiber_world \<Rightarrow> fiber_world" where
  "file_run es w = foldl (\<lambda>w e. file_step_ev e w) w es"

lemma file_run_simps [simp]: "file_run [] w = w" "file_run (e # es) w = file_run es (file_step_ev e w)"
  "file_run (xs @ ys) w = file_run ys (file_run xs w)"
  by (simp_all add: file_run_def)

section \<open>Positions\<close>

text \<open>What the results for an object add up to.\<close>

fun read_part :: "nat \<Rightarrow> nat \<times> file_op \<times> cs_var \<Rightarrow> string" where
  "read_part k (k', Op_read sz, Cs_string s) = (if k' = k then s else [])"
| "read_part k _ = []"

fun write_part :: "nat \<Rightarrow> nat \<times> file_op \<times> cs_var \<Rightarrow> int" where
  "write_part k (k', Op_write data, Cs_number n) = (if k' = k then max 0 n else 0)"
| "write_part k _ = 0"

definition text_read :: "nat \<Rightarrow> fiber_world \<Rightarrow> string" where
  "text_read k w = concat (map (read_part k) (fw_log w))"

definition bytes_written :: "nat \<Rightarrow> fiber_world \<Rightarrow> int" where
  "bytes_written k w = sum_list (map (write_part k) (fw_log w))"

lemma returns_parts [simp]:
  "text_read k (returns k' op v w) = text_read k w @ read_part k (k', op, v)"
  "bytes_written k (returns k' op v w) = bytes_written k w + write_part k (k', op, v)"
  "fw_objs (returns k' op v w) = fw_objs w" "fw_fibers (returns k' op v w) = fw_fibers w"
  "fw_fds (returns k' op v w) = fw_fds w" "fw_files (returns k' op v w) = fw_files w"
  by (simp_all add: text_read_def bytes_written_def returns_def)

lemma parts_update [simp]:
  "text_read k (fw_fibers_update g w) = text_read k w" "bytes_written k (fw_fibers_update g w) = bytes_written k w"
  "text_read k (fw_objs_update h w) = text_read k w" "bytes_written k (fw_objs_update h w) = bytes_written k w"
  "text_read k (fw_fds_update d w) = text_read k w" "bytes_written k (fw_fds_update d w) = bytes_written k w"
  "text_read k (fw_files_update c w) = text_read k w" "bytes_written k (fw_files_update c w) = bytes_written k w"
  by (simp_all add: text_read_def bytes_written_def)

text \<open>A read that is over has as many bytes as its result says.\<close>

fun request_ok :: "file_fiber \<Rightarrow> bool" where
  "request_ok (Waits k (Op_read sz) ufd offset (Over_rq bytes result) late) \<longleftrightarrow> result = int (length bytes) \<or> result < 0"
| "request_ok _ \<longleftrightarrow> True"

fun waits_for :: "file_fiber \<Rightarrow> nat option" where
  "waits_for (Waits k op ufd offset rq late) = Some k"
| "waits_for Idle = None"

definition requests_ok :: "nat \<Rightarrow> file_fiber list \<Rightarrow> bool" where
  "requests_ok n gs \<longleftrightarrow> (\<forall>g\<in>set gs. request_ok g \<and> (\<forall>k. waits_for g = Some k \<longrightarrow> k < n))"

definition tallied :: "fiber_world \<Rightarrow> bool" where
  "tallied w \<longleftrightarrow> requests_ok (length (fw_objs w)) (fw_fibers w) \<and>
     (\<forall>k. length (fw_objs w) \<le> k \<longrightarrow> text_read k w = [] \<and> bytes_written k w = 0) \<and>
     (\<forall>k<length (fw_objs w). f_read_pos (fst (fw_objs w ! k)) = int (length (text_read k w)) \<and>
        (\<not> f_append (fst (fw_objs w ! k)) \<longrightarrow> f_write_pos (fst (fw_objs w ! k)) = bytes_written k w))"

lemma tallied_fiber: "tallied w \<Longrightarrow> request_ok g \<Longrightarrow> (\<And>k. waits_for g = Some k \<Longrightarrow> k < length (fw_objs w)) \<Longrightarrow>
    tallied (w\<lparr>fw_fibers := (fw_fibers w)[i := g]\<rparr>)"
  using set_update_subset_insert[of "fw_fibers w" i g] by (auto simp: tallied_def requests_ok_def)

lemma read_part_short: "read_part k (k', op, Cs_null) = []" "read_part k (k', op, Cs_number n) = []"
  "read_part k (k', op, Cs_string []) = []" "write_part k (k', op, Cs_null) = 0" "write_part k (k', op, Cs_string s) = 0"
  "write_part k (k', op, Cs_number (-1)) = 0"
  by (cases op; simp)+

lemma waiting_bound:
  "tallied w \<Longrightarrow> i < length (fw_fibers w) \<Longrightarrow> fw_fibers w ! i = Waits k op ufd offset rq late \<Longrightarrow>
   k < length (fw_objs w) \<and> request_ok (fw_fibers w ! i)"
  by (metis nth_mem requests_ok_def tallied_def waits_for.simps(1))

lemma begin_tallied:
  assumes "tallied w" and "k < length (fw_objs w)"
  shows "tallied (begin_op i k op w)"
proof -
  have wt: "tallied (wait_for_request i k op ufd offset w)" for ufd offset
  proof -
    have "request_ok (Waits k op ufd offset Queued_rq False)" by (cases op) simp_all
    with assms show ?thesis unfolding wait_for_request_def by (intro tallied_fiber) simp_all
  qed
  have rt: "tallied (returns k op v w)" if "v = Cs_null \<or> v = Cs_string [] \<or> v = Cs_number (-1)" for v
    using assms that by (auto simp: tallied_def read_part_short)
  show ?thesis
  proof (cases op)
    case (Op_read sz)
    then show ?thesis using wt rt by (auto simp: begin_op_def read_start_def)
  next
    case (Op_write data)
    then show ?thesis using wt rt by (auto simp: begin_op_def write_start_def)
  qed
qed

lemma perform_result:
  assumes "perform op ufd offset n err w = (bytes, result, w')" and "errno_ok err"
  shows "request_ok (Waits k op ufd offset (Over_rq bytes result) late) \<and> fw_objs w' = fw_objs w \<and>
    fw_log w' = fw_log w \<and> fw_fibers w' = fw_fibers w"
  using assms by (cases op) (auto simp: perform_def errno_ok_def Let_def split: option.splits if_splits)

lemma end_tallied:
  assumes "tallied w" and "i < length (fw_fibers w)" and "errno_ok err"
  shows "tallied (end_op i n err w)"
proof (cases "fw_fibers w ! i")
  case (Waits k op ufd offset rq late)
  show ?thesis
  proof (cases "rq = Running_rq")
    case True
    obtain bytes result w' where p: "perform op ufd offset n err w = (bytes, result, w')" by (metis prod.collapse)
    note r = perform_result[OF p assms(3)]
    have "tallied w'" using assms(1) r by (simp add: tallied_def text_read_def bytes_written_def)
    then have "tallied (w'\<lparr>fw_fibers := (fw_fibers w')[i := Waits k op ufd offset (Over_rq bytes result) late]\<rparr>)"
      using r waiting_bound[OF assms(1,2) Waits] by (intro tallied_fiber) auto
    with r show ?thesis by (simp add: end_op_def Waits True p)
  next
    case False
    with assms(1) Waits show ?thesis by (cases rq) (simp_all add: end_op_def)
  qed
qed (simp add: end_op_def assms(1))

lemma request_ok_before: "\<forall>b r. rq \<noteq> Over_rq b r \<Longrightarrow> request_ok (Waits k op ufd offset rq late)"
  by (cases op; cases rq) auto

lemma tallied_request:
  assumes "tallied w" and "i < length (fw_fibers w)" and "fw_fibers w ! i = Waits k op ufd offset rq late"
    and "\<forall>b r. rq' \<noteq> Over_rq b r"
  shows "tallied (w\<lparr>fw_fibers := (fw_fibers w)[i := Waits k op ufd offset rq' late']\<rparr>)"
  using waiting_bound[OF assms(1-3)] request_ok_before[OF assms(4)] by (intro tallied_fiber[OF assms(1)]) simp_all

lemma take_tallied:
  assumes "tallied w" and "i < length (fw_fibers w)"
  shows "tallied (take_rq i w)"
proof (cases "fw_fibers w ! i")
  case (Waits k op ufd offset rq late)
  from tallied_request[OF assms Waits, of Running_rq late] assms(1) Waits show ?thesis
    by (cases rq) (simp_all add: take_rq_def)
qed (simp add: take_rq_def assms(1))

lemma deadline_tallied:
  assumes "tallied w" and "i < length (fw_fibers w)"
  shows "tallied (deadline_op i w)"
proof (cases "fw_fibers w ! i")
  case (Waits k op ufd offset rq late)
  from tallied_request[OF assms Waits, of Running_rq True] tallied_request[OF assms Waits, of Dropped_rq True] assms(1) Waits
  show ?thesis by (cases rq) (simp_all add: deadline_op_def)
qed (simp add: deadline_op_def assms(1))

lemma finish_tallied:
  assumes "tallied w" and "k < length (fw_objs w)" and "request_ok (Waits k op ufd offset (Over_rq bytes result) late)"
  shows "tallied (finish_op i k op bytes result late w)"
proof -
  obtain f path where f: "fw_objs w ! k = (f, path)" by fastforce
  have rq: "requests_ok (length (fw_objs w)) ((fw_fibers w)[i := Idle])"
    using tallied_fiber[OF assms(1), of Idle i] by (simp add: tallied_def)
  note t = assms(1)[unfolded tallied_def]
  from t assms(2) f have pos: "f_read_pos f = int (length (text_read k w))"
    "\<not> f_append f \<longrightarrow> f_write_pos f = bytes_written k w" by (metis fst_conv)+
  have other: "read_part j (k, op', v) = []" "write_part j (k, op', v) = 0" if "j \<noteq> k" for j op' v
    using that by (cases op'; cases v; simp)+
  show ?thesis
  proof (cases op)
    case (Op_read sz)
    obtain v f' where e: "read_end bytes (\<not> late) result f = (v, f')" by fastforce
    have p: "f_read_pos f' = f_read_pos f + int (length (read_part k (k, Op_read sz, v))) \<and> f_append f' = f_append f \<and>
        f_write_pos f' = f_write_pos f \<and> write_part k (k, Op_read sz, v) = 0"
      using e assms(3) by (auto simp: read_end_def advance_read_def Op_read split: if_splits)
    have "finish_op i k op bytes result late w =
        returns k op v (w\<lparr>fw_objs := (fw_objs w)[k := (f', path)], fw_fibers := (fw_fibers w)[i := Idle]\<rparr>)"
      by (simp add: finish_op_def f Op_read e)
    then show ?thesis using t rq pos p assms(2) other by (simp add: tallied_def nth_list_update Op_read)
  next
    case (Op_write data)
    obtain r f' where e: "write_end (\<not> late) result f = (r, f')" by fastforce
    have p: "f_read_pos f' = f_read_pos f \<and> f_append f' = f_append f \<and>
        (\<not> f_append f \<longrightarrow> f_write_pos f' = f_write_pos f + max 0 r)"
      using e by (auto simp: write_end_def advance_write_def split: if_splits)
    have "finish_op i k op bytes result late w =
        returns k op (Cs_number r) (w\<lparr>fw_objs := (fw_objs w)[k := (f', path)], fw_fibers := (fw_fibers w)[i := Idle]\<rparr>)"
      by (simp add: finish_op_def f Op_write e)
    then show ?thesis using t rq pos p assms(2) other by (simp add: tallied_def nth_list_update Op_write)
  qed
qed

lemma resume_tallied:
  assumes "tallied w" and "i < length (fw_fibers w)"
  shows "tallied (resume_op i w)"
proof (cases "fw_fibers w ! i")
  case (Waits k op ufd offset rq late)
  note b = waiting_bound[OF assms Waits]
  have "request_ok (Waits k op ufd offset (Over_rq [] UV_ECANCELED) late)" by (cases op) simp_all
  note dropped = finish_tallied[OF assms(1) conjunct1[OF b] this]
  note over = finish_tallied[OF assms(1) conjunct1[OF b], of op ufd offset]
  show ?thesis
  proof (cases rq)
    case (Over_rq bytes result)
    with over[of bytes result late] b Waits show ?thesis by (simp add: resume_op_def)
  qed (use dropped assms(1) Waits in \<open>simp_all add: resume_op_def\<close>)
qed (simp add: resume_op_def assms(1))

lemma close_tallied: "tallied w \<Longrightarrow> k < length (fw_objs w) \<Longrightarrow> tallied (close_obj k w)"
  by (cases "fw_objs w ! k")
    (auto simp: close_obj_def close_file_def tallied_def nth_list_update Let_def split: prod.split)

lemma open_unix_file:
  assumes "o_file (open_unix denied fd path mode fs) = Inr (Some f)"
  shows "f_read_pos f = 0 \<and> f_write_pos f = 0 \<and> \<not> f_closed f \<and> f_fd f = fd \<and> 0 \<le> fd \<and>
    (\<exists>flags. o_flags (open_unix denied fd path mode fs) = Some flags \<and> of_append flags = f_append f \<and>
       (f_writable f \<longrightarrow> of_access flags \<noteq> Rdonly) \<and> (f_readable f \<longrightarrow> of_access flags \<noteq> Wronly))"
proof -
  have "mode \<in> {''r'', ''w'', ''a'', ''r+'', ''w+'', ''a+''}"
  proof (rule ccontr)
    assume "mode \<notin> {''r'', ''w'', ''a'', ''r+'', ''w+'', ''a+''}"
    with assms show False by (simp add: open_unix_def file_mode_def)
  qed
  then consider "mode = ''r''" | "mode = ''w''" | "mode = ''a''" | "mode = ''r+''" | "mode = ''w+''" | "mode = ''a+''" by auto
  then show ?thesis using assms
    by cases (auto simp: open_unix_def file_mode_def configure_def file_new_def sys_open_def Let_def split: if_splits)
qed

lemma open_tallied:
  assumes "tallied w"
  shows "tallied (open_obj path mode fd w)"
proof -
  let ?r = "open_unix (\<lambda>_. False) fd path mode (fw_files w)"
  show ?thesis
  proof (cases "\<exists>f flags. o_file ?r = Inr (Some f) \<and> o_flags ?r = Some flags")
    case True
    then obtain f flags where f: "o_file ?r = Inr (Some f)" "o_flags ?r = Some flags" by blast
    from open_unix_file[OF f(1)] have "f_read_pos f = 0" "f_write_pos f = 0" by simp_all
    with assms show ?thesis
      by (auto simp: open_obj_def Let_def f tallied_def requests_ok_def nth_append less_Suc_eq)
  next
    case False
    then have "open_obj path mode fd w = w"
      by (auto simp: open_obj_def Let_def split: sum.split option.split)
    with assms show ?thesis by simp
  qed
qed

lemma step_tallied: "tallied w \<Longrightarrow> tallied (file_step_ev e w)"
  by (cases e) (simp_all add: begin_tallied end_tallied take_tallied deadline_tallied resume_tallied close_tallied
    open_tallied)

lemma run_tallied: "tallied w \<Longrightarrow> tallied (file_run es w)"
  by (induction es arbitrary: w) (simp_all add: step_tallied)

text \<open>A script starts with no file open.\<close>

definition start_world :: "files \<Rightarrow> nat \<Rightarrow> fiber_world" where
  "start_world fs n = \<lparr>fw_fds = Map.empty, fw_files = fs, fw_objs = [], fw_fibers = replicate n Idle, fw_log = []\<rparr>"

lemma start_tallied: "tallied (start_world fs n)"
  by (simp add: start_world_def tallied_def requests_ok_def text_read_def bytes_written_def)

section \<open>Descriptors of open files\<close>

text \<open>The descriptor of an open file object leads to its path and allows what the object allows.\<close>

definition serves :: "mfile \<times> string \<Rightarrow> desc \<Rightarrow> bool" where
  "serves fp d \<longleftrightarrow> d_path d = snd fp \<and> of_append (d_flags d) = f_append (fst fp) \<and>
     (f_writable (fst fp) \<longrightarrow> of_access (d_flags d) \<noteq> Rdonly) \<and> (f_readable (fst fp) \<longrightarrow> of_access (d_flags d) \<noteq> Wronly)"

definition objs_linked :: "(mfile \<times> string) list \<Rightarrow> (int \<rightharpoonup> desc) \<Rightarrow> bool" where
  "objs_linked objs fds \<longleftrightarrow>
     (\<forall>k<length objs. \<not> f_closed (fst (objs ! k)) \<longrightarrow> 0 \<le> f_fd (fst (objs ! k)) \<and>
        (\<exists>d. fds (f_fd (fst (objs ! k))) = Some d \<and> serves (objs ! k) d)) \<and>
     (\<forall>k<length objs. \<forall>j<length objs. k \<noteq> j \<and> \<not> f_closed (fst (objs ! k)) \<and> \<not> f_closed (fst (objs ! j)) \<longrightarrow>
        f_fd (fst (objs ! k)) \<noteq> f_fd (fst (objs ! j)))"

text \<open>A request that has not been done is for the descriptor of a file object that is still open.\<close>

definition may_do :: "file_op \<Rightarrow> mfile \<Rightarrow> bool" where
  "may_do op f = (case op of Op_read sz \<Rightarrow> f_readable f | Op_write data \<Rightarrow> f_writable f)"

definition fiber_linked :: "(mfile \<times> string) list \<Rightarrow> file_fiber \<Rightarrow> bool" where
  "fiber_linked objs g =
     (case g of
        Waits k op ufd offset rq late \<Rightarrow>
          k < length objs \<and>
          (rq = Queued_rq \<or> rq = Running_rq \<longrightarrow>
             \<not> f_closed (fst (objs ! k)) \<and> ufd = f_fd (fst (objs ! k)) \<and> may_do op (fst (objs ! k)) \<and>
             (offset = -1 \<longrightarrow> f_append (fst (objs ! k))))
      | Idle \<Rightarrow> True)"

definition linked :: "fiber_world \<Rightarrow> bool" where
  "linked w \<longleftrightarrow> objs_linked (fw_objs w) (fw_fds w) \<and> (\<forall>g\<in>set (fw_fibers w). fiber_linked (fw_objs w) g)"

text \<open>No file is closed while a fiber waits for a request on it.\<close>

fun orderly :: "file_event list \<Rightarrow> fiber_world \<Rightarrow> bool" where
  "orderly [] w \<longleftrightarrow> True"
| "orderly (e # es) w \<longleftrightarrow>
     (case e of Close_obj k \<Rightarrow> \<forall>g\<in>set (fw_fibers w). waits_for g \<noteq> Some k | _ \<Rightarrow> True) \<and>
     orderly es (file_step_ev e w)"

lemma linked_fiber: "linked w \<Longrightarrow> fiber_linked (fw_objs w) g \<Longrightarrow> linked (w\<lparr>fw_fibers := (fw_fibers w)[i := g]\<rparr>)"
  using set_update_subset_insert[of "fw_fibers w" i g] by (auto simp: linked_def)

lemma linked_at: "linked w \<Longrightarrow> i < length (fw_fibers w) \<Longrightarrow> fiber_linked (fw_objs w) (fw_fibers w ! i)"
  by (simp add: linked_def)

lemma linked_returns [simp]: "linked (returns k op v w) = linked w"
  by (simp add: linked_def)

lemma written_nonneg: "0 \<le> bytes_written k w"
proof -
  have "0 \<le> write_part k e" for e by (cases "(k, e)" rule: write_part.cases) auto
  then show ?thesis unfolding bytes_written_def by (intro sum_list_nonneg) (metis imageE list.set_map)
qed

lemma begin_linked:
  assumes "linked w" and "tallied w" and "k < length (fw_objs w)"
  shows "linked (begin_op i k op w)"
proof -
  let ?f = "fst (fw_objs w ! k)"
  have wt: "linked (wait_for_request i k op ufd offset w)"
    if "\<not> f_closed ?f" "ufd = f_fd ?f" "may_do op ?f" "offset = -1 \<longrightarrow> f_append ?f" for ufd offset
    unfolding wait_for_request_def
    by (rule linked_fiber[OF assms(1)]) (use that assms(3) in \<open>simp add: fiber_linked_def\<close>)
  have pos: "0 \<le> f_read_pos ?f" "\<not> f_append ?f \<Longrightarrow> 0 \<le> f_write_pos ?f"
    using assms(2,3) written_nonneg[of k w] by (simp_all add: tallied_def)
  show ?thesis
  proof (cases op)
    case (Op_read sz)
    then show ?thesis using wt assms(1) pos
      by (auto simp: begin_op_def read_start_def is_readable_def to_uv_file_def native_fd_def may_do_def)
  next
    case (Op_write data)
    then show ?thesis using wt assms(1) pos
      by (auto simp: begin_op_def write_start_def is_writable_def to_uv_file_def native_fd_def may_do_def)
  qed
qed

text \<open>A change to a file object that leaves its descriptor alone.\<close>

definition same_file :: "mfile \<Rightarrow> mfile \<Rightarrow> bool" where
  "same_file f f' \<longleftrightarrow> f_fd f' = f_fd f \<and> f_closed f' = f_closed f \<and> f_append f' = f_append f \<and>
     f_readable f' = f_readable f \<and> f_writable f' = f_writable f"

lemma same_file_objs:
  assumes "objs_linked objs fds" and "k < length objs" and "same_file (fst (objs ! k)) f'"
  shows "objs_linked (objs[k := (f', snd (objs ! k))]) fds"
  using assms by (simp add: objs_linked_def nth_list_update same_file_def serves_def)

lemma same_file_fiber:
  assumes "fiber_linked objs g" and "k < length objs" and "same_file (fst (objs ! k)) f'"
  shows "fiber_linked (objs[k := (f', snd (objs ! k))]) g"
  using assms by (auto simp: fiber_linked_def nth_list_update same_file_def may_do_def split: file_fiber.splits file_op.splits)

lemma same_desc_objs:
  assumes "objs_linked objs fds" and "fds fd = Some d" and "d_path d' = d_path d" and "d_flags d' = d_flags d"
  shows "objs_linked objs (fds(fd \<mapsto> d'))"
proof -
  have "\<exists>e. (fds(fd \<mapsto> d')) n = Some e \<and> serves fp e" if "\<exists>e. fds n = Some e \<and> serves fp e" for n fp
    using that assms(2-4) by (auto simp: serves_def)
  with assms(1) show ?thesis unfolding objs_linked_def by blast
qed

lemma finish_linked:
  assumes "linked w" and "k < length (fw_objs w)"
  shows "linked (finish_op i k op bytes result late w)"
proof -
  obtain f path where f: "fw_objs w ! k = (f, path)" by fastforce
  define f' where "f' = (case op of Op_read sz \<Rightarrow> snd (read_end bytes (\<not> late) result f)
    | Op_write data \<Rightarrow> snd (write_end (\<not> late) result f))"
  have s: "same_file f f'"
    by (auto simp: f'_def same_file_def read_end_def write_end_def advance_read_def advance_write_def split: file_op.split)
  have "\<exists>v. finish_op i k op bytes result late w =
      returns k op v (w\<lparr>fw_objs := (fw_objs w)[k := (f', path)], fw_fibers := (fw_fibers w)[i := Idle]\<rparr>)"
    by (cases op; cases "write_end (\<not> late) result f"; cases "read_end bytes (\<not> late) result f")
      (auto simp: finish_op_def f f'_def)
  moreover have "linked (w\<lparr>fw_fibers := (fw_fibers w)[i := Idle]\<rparr>)"
    by (rule linked_fiber[OF assms(1)]) (simp add: fiber_linked_def)
  then have "linked (w\<lparr>fw_objs := (fw_objs w)[k := (f', path)], fw_fibers := (fw_fibers w)[i := Idle]\<rparr>)"
    using same_file_objs[of "fw_objs w" "fw_fds w" k f'] same_file_fiber[of "fw_objs w" _ k f'] assms(2) s f
    by (simp add: linked_def)
  ultimately show ?thesis by auto
qed

lemma perform_linked:
  assumes "perform op ufd offset n err w = (bytes, result, w')" and "linked w"
  shows "linked w'"
proof (cases "w' = w")
  case False
  with assms(1) obtain d d' where "fw_fds w ufd = Some d" "fw_fds w' = (fw_fds w)(ufd \<mapsto> d')" "d_path d' = d_path d"
    "d_flags d' = d_flags d" "fw_objs w' = fw_objs w" "fw_fibers w' = fw_fibers w"
    by (auto simp: perform_def Let_def split: option.splits file_op.splits if_splits)
  with same_desc_objs[of "fw_objs w" "fw_fds w" ufd d d'] assms(2) show ?thesis by (simp add: linked_def)
qed (simp add: assms(2))

lemma end_linked:
  assumes "linked w" and "i < length (fw_fibers w)" and "errno_ok err"
  shows "linked (end_op i n err w)"
proof (cases "fw_fibers w ! i")
  case (Waits k op ufd offset rq late)
  show ?thesis
  proof (cases "rq = Running_rq")
    case True
    obtain bytes result w' where p: "perform op ufd offset n err w = (bytes, result, w')" by (metis prod.collapse)
    have l: "linked w'" by (rule perform_linked[OF p assms(1)])
    have o: "fw_objs w' = fw_objs w" "fw_fibers w' = fw_fibers w" using perform_result[OF p assms(3)] by simp_all
    have "k < length (fw_objs w)" using linked_at[OF assms(1,2)] Waits by (simp add: fiber_linked_def)
    then have "linked (w'\<lparr>fw_fibers := (fw_fibers w')[i := Waits k op ufd offset (Over_rq bytes result) late]\<rparr>)"
      by (intro linked_fiber[OF l]) (simp add: fiber_linked_def o)
    then show ?thesis by (simp add: end_op_def Waits True p o)
  next
    case False
    with assms(1) Waits show ?thesis by (cases rq) (simp_all add: end_op_def)
  qed
qed (simp add: end_op_def assms(1))

lemma linked_request:
  assumes "linked w" and "i < length (fw_fibers w)" and "fw_fibers w ! i = Waits k op ufd offset rq late"
    and "rq = Queued_rq \<or> rq = Running_rq"
  shows "linked (w\<lparr>fw_fibers := (fw_fibers w)[i := Waits k op ufd offset rq' late']\<rparr>)"
  using linked_at[OF assms(1,2)] assms(3,4) by (intro linked_fiber[OF assms(1)]) (auto simp: fiber_linked_def)

lemma take_linked:
  assumes "linked w" and "i < length (fw_fibers w)"
  shows "linked (take_rq i w)"
proof (cases "fw_fibers w ! i")
  case (Waits k op ufd offset rq late)
  with linked_request[OF assms Waits] assms(1) show ?thesis by (cases rq) (simp_all add: take_rq_def)
qed (simp add: take_rq_def assms(1))

lemma deadline_linked:
  assumes "linked w" and "i < length (fw_fibers w)"
  shows "linked (deadline_op i w)"
proof (cases "fw_fibers w ! i")
  case (Waits k op ufd offset rq late)
  with linked_request[OF assms Waits] assms(1) show ?thesis by (cases rq) (simp_all add: deadline_op_def)
qed (simp add: deadline_op_def assms(1))

lemma resume_linked:
  assumes "linked w" and "i < length (fw_fibers w)"
  shows "linked (resume_op i w)"
proof (cases "fw_fibers w ! i")
  case (Waits k op ufd offset rq late)
  have "k < length (fw_objs w)" using linked_at[OF assms] Waits by (simp add: fiber_linked_def)
  with finish_linked[OF assms(1)] Waits assms(1) show ?thesis by (cases rq) (simp_all add: resume_op_def)
qed (simp add: resume_op_def assms(1))

lemma closed_objs:
  assumes "objs_linked objs fds" and "k < length objs" and "f_closed f'" and "\<not> f_closed (fst (objs ! k))"
  shows "objs_linked (objs[k := (f', path)]) (fds(f_fd (fst (objs ! k)) := None))"
  using assms by (auto simp: objs_linked_def nth_list_update)

lemma close_linked:
  assumes "linked w" and "k < length (fw_objs w)" and "\<forall>g\<in>set (fw_fibers w). waits_for g \<noteq> Some k"
  shows "linked (close_obj k w)"
proof -
  obtain f path where f: "fw_objs w ! k = (f, path)" by fastforce
  show ?thesis
  proof (cases "f_closed f")
    case True
    have u: "(fw_objs w)[k := (f, path)] = fw_objs w" unfolding f[symmetric] by (rule list_update_id)
    from True have "close_obj k w = w" by (simp add: close_obj_def f close_file_def u)
    with assms(1) show ?thesis by simp
  next
    case False
    have "0 \<le> f_fd f" using assms(1,2) f False by (auto simp: linked_def objs_linked_def)
    define f' where "f' = fst (close_file Unix f)"
    have f': "close_file Unix f = (f', [Close (f_fd f)])" "f_closed f'"
      using False \<open>0 \<le> f_fd f\<close> by (simp_all add: f'_def close_file_def)
    have "fiber_linked ((fw_objs w)[k := (f', path)]) g" if "g \<in> set (fw_fibers w)" for g
    proof (cases g)
      case (Waits j op ufd offset rq late)
      then have "j \<noteq> k" using assms(3) that by auto
      moreover have "fiber_linked (fw_objs w) g" using assms(1) that by (simp add: linked_def)
      ultimately show ?thesis using Waits by (simp add: fiber_linked_def nth_list_update)
    qed (simp add: fiber_linked_def)
    moreover have "objs_linked ((fw_objs w)[k := (f', path)]) ((fw_fds w)(f_fd f := None))"
      using closed_objs[of "fw_objs w" "fw_fds w" k f' path] assms(1,2) f f'(2) False by (simp add: linked_def)
    ultimately show ?thesis by (simp add: close_obj_def f f'(1) linked_def)
  qed
qed

lemma opened_objs:
  assumes "objs_linked objs fds" and "fds fd = None" and "serves (f, path) d" and "0 \<le> fd" and "f_fd f = fd"
  shows "objs_linked (objs @ [(f, path)]) (fds(fd \<mapsto> d))"
proof -
  have "f_fd (fst (objs ! k)) \<noteq> fd" if "k < length objs" "\<not> f_closed (fst (objs ! k))" for k
    using assms(1,2) that by (auto simp: objs_linked_def)
  with assms show ?thesis by (auto simp: objs_linked_def nth_append less_Suc_eq)
qed

lemma fiber_linked_append: "fiber_linked objs g \<Longrightarrow> fiber_linked (objs @ xs) g"
  by (cases g) (auto simp: fiber_linked_def nth_append)

lemma open_linked:
  assumes "linked w" and "0 \<le> fd" and "fw_fds w fd = None"
  shows "linked (open_obj path mode fd w)"
proof -
  let ?r = "open_unix (\<lambda>_. False) fd path mode (fw_files w)"
  show ?thesis
  proof (cases "\<exists>f flags. o_file ?r = Inr (Some f) \<and> o_flags ?r = Some flags")
    case True
    then obtain f flags where f: "o_file ?r = Inr (Some f)" "o_flags ?r = Some flags" by blast
    have "f_fd f = fd" using open_unix_file[OF f(1)] by simp
    moreover have "serves (f, path) \<lparr>d_path = path, d_flags = flags, d_pos = 0\<rparr>" using open_unix_file[OF f(1)] f(2) by (auto simp: serves_def)
    ultimately have "objs_linked (fw_objs w @ [(f, path)]) ((fw_fds w)(fd \<mapsto> \<lparr>d_path = path, d_flags = flags, d_pos = 0\<rparr>))"
      using assms opened_objs[of "fw_objs w" "fw_fds w" fd f path] by (simp add: linked_def)
    moreover have "\<forall>g\<in>set (fw_fibers w). fiber_linked (fw_objs w @ [(f, path)]) g"
      using assms(1) fiber_linked_append by (auto simp: linked_def)
    ultimately show ?thesis by (simp add: open_obj_def Let_def f linked_def)
  next
    case False
    then have "open_obj path mode fd w = w"
      by (auto simp: open_obj_def Let_def split: sum.split option.split)
    with assms show ?thesis by simp
  qed
qed

lemma step_linked:
  "linked w \<Longrightarrow> tallied w \<Longrightarrow> (case e of Close_obj k \<Rightarrow> \<forall>g\<in>set (fw_fibers w). waits_for g \<noteq> Some k | _ \<Rightarrow> True) \<Longrightarrow>
   linked (file_step_ev e w)"
  by (cases e) (simp_all add: begin_linked end_linked take_linked deadline_linked resume_linked close_linked open_linked)

lemma run_linked: "orderly es w \<Longrightarrow> linked w \<Longrightarrow> tallied w \<Longrightarrow> linked (file_run es w)"
  by (induction es arbitrary: w) (simp_all add: step_linked step_tallied)

lemma start_linked: "linked (start_world fs n)"
  by (simp add: start_world_def linked_def objs_linked_def fiber_linked_def)

section \<open>Reads that do not overlap\<close>

text \<open>Only reads happen, and no fiber begins one on a file object while another one waits for it.\<close>

fun calm :: "file_event \<Rightarrow> bool" where
  "calm (Begin i k (Op_write data)) \<longleftrightarrow> False"
| "calm (Close_obj k) \<longleftrightarrow> False"
| "calm (Open_obj path mode fd) \<longleftrightarrow> False"
| "calm _ \<longleftrightarrow> True"

fun apart :: "file_event list \<Rightarrow> fiber_world \<Rightarrow> bool" where
  "apart [] w \<longleftrightarrow> True"
| "apart (e # es) w \<longleftrightarrow>
     (case e of Begin i k op \<Rightarrow> \<forall>g\<in>set (fw_fibers w). waits_for g \<noteq> Some k | _ \<Rightarrow> True) \<and>
     apart es (file_step_ev e w)"

text \<open>
  A fiber that waits reads; if it reads the object \<open>f\<close>, its offset is the position of \<open>f\<close> and the
  bytes of a request that is over are those of the content at that offset.
\<close>

fun only_reads :: "file_fiber \<Rightarrow> bool" where
  "only_reads (Waits k (Op_write data) ufd offset rq late) \<longleftrightarrow> False"
| "only_reads _ \<longleftrightarrow> True"

fun reading_ok :: "string \<Rightarrow> mfile \<Rightarrow> file_fiber \<Rightarrow> bool" where
  "reading_ok content f (Waits k op ufd offset (Over_rq bytes result) late) \<longleftrightarrow> offset = f_read_pos f \<and>
     (result < 0 \<or> result = int (length bytes) \<and> bytes = take (length bytes) (drop (nat offset) content))"
| "reading_ok content f (Waits k op ufd offset rq late) \<longleftrightarrow> offset = f_read_pos f"
| "reading_ok content f Idle \<longleftrightarrow> True"

definition one_reader :: "nat \<Rightarrow> string \<Rightarrow> mfile \<Rightarrow> file_fiber list \<Rightarrow> bool" where
  "one_reader k content f gs \<longleftrightarrow> (\<forall>g\<in>set gs. only_reads g) \<and>
     (\<forall>i<length gs. waits_for (gs ! i) = Some k \<longrightarrow> reading_ok content f (gs ! i) \<and>
        (\<forall>j<length gs. waits_for (gs ! j) = Some k \<longrightarrow> j = i))"

definition calm_inv :: "nat \<Rightarrow> string \<Rightarrow> fiber_world \<Rightarrow> bool" where
  "calm_inv k content w \<longleftrightarrow> tallied w \<and> linked w \<and> k < length (fw_objs w) \<and>
     content_of w (snd (fw_objs w ! k)) = content \<and> one_reader k content (fst (fw_objs w ! k)) (fw_fibers w) \<and>
     prefix (text_read k w) content"

lemma one_reader_same:
  assumes "one_reader k content f gs" and "i < length gs" and "waits_for g = waits_for (gs ! i)" and "only_reads g"
    and "waits_for g = Some k \<longrightarrow> reading_ok content f g"
  shows "one_reader k content f (gs[i := g])"
  using assms set_update_subset_insert[of gs i g] unfolding one_reader_def
  by (auto simp: nth_list_update)

lemma one_reader_new:
  assumes "one_reader k content f gs" and "i < length gs" and "\<forall>g\<in>set gs. waits_for g \<noteq> Some k" and "only_reads g"
    and "reading_ok content f g"
  shows "one_reader k content f (gs[i := g])"
  using assms set_update_subset_insert[of gs i g] unfolding one_reader_def
  by (auto simp: nth_list_update)

lemma one_reader_less:
  assumes "one_reader k content f gs" and "i < length gs" and "only_reads g" and "waits_for g \<noteq> Some k"
  shows "one_reader k content f (gs[i := g])"
  using assms set_update_subset_insert[of gs i g] unfolding one_reader_def
  by (auto simp: nth_list_update)

lemma one_reader_moved:
  assumes "one_reader k content f gs" and "\<forall>g\<in>set gs. waits_for g \<noteq> Some k"
  shows "one_reader k content f' gs"
  using assms by (auto simp: one_reader_def)

lemma one_reader_at:
  assumes "one_reader k content f gs" and "i < length gs" and "gs ! i = Waits j op ufd offset rq late"
  shows "(\<exists>sz. op = Op_read sz) \<and> (j = k \<longrightarrow> reading_ok content f (gs ! i))"
proof -
  have "only_reads (gs ! i)" using assms(1,2) by (simp add: one_reader_def)
  then have "\<exists>sz. op = Op_read sz" using assms(3) by (cases op) simp_all
  moreover have "waits_for (gs ! i) = Some j" using assms(3) by simp
  ultimately show ?thesis using assms(1,2) unfolding one_reader_def by blast
qed

lemma begin_calm:
  assumes "calm_inv k content w" and "\<forall>g\<in>set (fw_fibers w). waits_for g \<noteq> Some j" and "j < length (fw_objs w)"
    and "i < length (fw_fibers w)"
  shows "calm_inv k content (begin_op i j (Op_read sz) w)"
proof (cases "read_start Unix 0 (fst (fw_objs w ! j)) sz")
  case (Inl v)
  then have "v = Cs_null \<or> v = Cs_string []" by (auto simp: read_start_def split: if_splits)
  then have "read_part k (j, Op_read sz, v) = []" by auto
  moreover have "tallied (begin_op i j (Op_read sz) w)" "linked (begin_op i j (Op_read sz) w)"
    using begin_tallied begin_linked assms(1,3) by (simp_all add: calm_inv_def)
  ultimately show ?thesis using assms(1) Inl by (simp add: calm_inv_def begin_op_def content_of_def)
next
  case (Inr x)
  then obtain ufd where x: "x = (ufd, f_read_pos (fst (fw_objs w ! j)))" by (auto simp: read_start_def split: if_splits)
  let ?g = "Waits j (Op_read sz) ufd (f_read_pos (fst (fw_objs w ! j))) Queued_rq False"
  have "one_reader k content (fst (fw_objs w ! k)) ((fw_fibers w)[i := ?g])"
    using assms(1,2,4) one_reader_new[of k content "fst (fw_objs w ! k)" "fw_fibers w" i ?g]
      one_reader_less[of k content "fst (fw_objs w ! k)" "fw_fibers w" i ?g]
    by (cases "j = k") (simp_all add: calm_inv_def)
  moreover have "tallied (begin_op i j (Op_read sz) w)" "linked (begin_op i j (Op_read sz) w)"
    using begin_tallied begin_linked assms(1,3) by (simp_all add: calm_inv_def)
  ultimately show ?thesis using assms(1) Inr x
    by (simp add: calm_inv_def begin_op_def wait_for_request_def content_of_def)
qed

lemma take_deadline_calm:
  assumes "calm_inv k content w" and "i < length (fw_fibers w)"
  shows "calm_inv k content (take_rq i w)" "calm_inv k content (deadline_op i w)"
proof -
  note o = one_reader_same[of k content "fst (fw_objs w ! k)" "fw_fibers w" i]
  have "calm_inv k content (take_rq i w) \<and> calm_inv k content (deadline_op i w)"
  proof (cases "fw_fibers w ! i")
    case (Waits j op ufd offset rq late)
    have a: "(\<exists>sz. op = Op_read sz) \<and> (j = k \<longrightarrow> reading_ok content (fst (fw_objs w ! k)) (fw_fibers w ! i))"
      using one_reader_at[OF _ assms(2) Waits] assms(1) unfolding calm_inv_def by blast
    have c: "calm_inv k content (w\<lparr>fw_fibers := (fw_fibers w)[i := Waits j op ufd offset rq' late']\<rparr>)"
      if "rq = Queued_rq \<or> rq = Running_rq" "rq' = Running_rq \<or> rq' = Dropped_rq" for rq' late'
    proof -
      have "one_reader k content (fst (fw_objs w ! k)) ((fw_fibers w)[i := Waits j op ufd offset rq' late'])"
        using assms a that Waits by (intro o) (auto simp: calm_inv_def)
      with assms(1) tallied_request[OF _ assms(2) Waits, of rq' late'] linked_request[OF _ assms(2) Waits that(1), of rq' late'] that(2)
      show ?thesis by (auto simp: calm_inv_def content_of_def)
    qed
    then show ?thesis using assms(1) Waits by (cases rq) (simp_all add: take_rq_def deadline_op_def)
  qed (simp add: take_rq_def deadline_op_def assms(1))
  then show "calm_inv k content (take_rq i w)" "calm_inv k content (deadline_op i w)" by simp_all
qed

lemma end_calm:
  assumes "calm_inv k content w" and "i < length (fw_fibers w)" and "errno_ok err"
  shows "calm_inv k content (end_op i n err w)"
proof (cases "fw_fibers w ! i")
  case (Waits j op ufd offset rq late)
  have tl: "tallied (end_op i n err w)" "linked (end_op i n err w)"
    using end_tallied end_linked assms by (simp_all add: calm_inv_def)
  note a = one_reader_at[OF _ assms(2) Waits, of k content "fst (fw_objs w ! k)"]
  have r: "one_reader k content (fst (fw_objs w ! k)) (fw_fibers w)" using assms(1) by (simp add: calm_inv_def)
  obtain sz where sz: "op = Op_read sz" using a r by blast
  show ?thesis
  proof (cases "rq = Running_rq")
    case True
    obtain bytes result w' where p: "perform op ufd offset n err w = (bytes, result, w')" by (metis prod.collapse)
    have w': "w' = w" using p by (auto simp: perform_def sz Let_def split: option.splits if_splits)
    let ?g = "Waits j op ufd offset (Over_rq bytes result) late"
    have "reading_ok content (fst (fw_objs w ! k)) ?g" if "j = k"
    proof -
      have o: "offset = f_read_pos (fst (fw_objs w ! k))" using a r that Waits True by (cases op) auto
      have "fiber_linked (fw_objs w) (fw_fibers w ! i)" using linked_at assms(1,2) by (simp add: calm_inv_def)
      then have f: "\<not> f_closed (fst (fw_objs w ! k))" "ufd = f_fd (fst (fw_objs w ! k))" "k < length (fw_objs w)"
        using Waits True that by (simp_all add: fiber_linked_def)
      then obtain d where d: "fw_fds w ufd = Some d" "d_path d = snd (fw_objs w ! k)"
        using assms(1) by (auto simp: calm_inv_def linked_def objs_linked_def serves_def)
      have "content_of w (d_path d) = content" using assms(1) d(2) by (simp add: calm_inv_def)
      then have "result < 0 \<or> result = int (length bytes) \<and> bytes = take (min (nat sz) (max 1 n)) (drop (nat offset) content)"
        using p d(1) assms(3) by (auto simp: perform_def errno_ok_def sz Let_def split: option.splits if_splits)
      then have "result < 0 \<or> result = int (length bytes) \<and> bytes = take (length bytes) (drop (nat offset) content)"
        by (auto simp: min_def)
      with o show ?thesis by simp
    qed
    then have "one_reader k content (fst (fw_objs w ! k)) ((fw_fibers w)[i := ?g])"
      using r assms(2) Waits sz by (intro one_reader_same) auto
    with tl assms(1) show ?thesis by (simp add: calm_inv_def end_op_def Waits True p w' content_of_def)
  next
    case False
    with assms(1) Waits show ?thesis by (cases rq) (simp_all add: end_op_def)
  qed
qed (simp add: end_op_def assms(1))

lemma prefix_more:
  assumes "prefix t content" and "bytes = take (length bytes) (drop (length t) content)"
  shows "prefix (t @ bytes) content"
proof -
  have "t = take (length t) content" using assms(1) by (metis append_eq_conv_conj prefix_def)
  then have "t @ bytes = take (length t + length bytes) content" using assms(2) by (metis take_add)
  then show ?thesis by (metis take_is_prefix)
qed

lemma finish_calm:
  assumes "calm_inv k content w" and "i < length (fw_fibers w)" and "fw_fibers w ! i = Waits j op ufd offset rq late"
    and "j = k \<longrightarrow> result < 0 \<or>
      result = int (length bytes) \<and> bytes = take (length bytes) (drop (nat (f_read_pos (fst (fw_objs w ! k)))) content)"
    and "tallied (finish_op i j op bytes result late w)"
  shows "calm_inv k content (finish_op i j op bytes result late w)"
proof -
  have r: "one_reader k content (fst (fw_objs w ! k)) (fw_fibers w)" using assms(1) by (simp add: calm_inv_def)
  obtain sz where sz: "op = Op_read sz" using one_reader_at[OF r assms(2,3)] by blast
  have j: "j < length (fw_objs w)" using linked_at[of w i] assms(1-3) by (simp add: calm_inv_def fiber_linked_def)
  obtain f path where f: "fw_objs w ! j = (f, path)" by fastforce
  obtain v f' where e: "read_end bytes (\<not> late) result f = (v, f')" by fastforce
  have fin: "finish_op i j op bytes result late w =
      returns j op v (w\<lparr>fw_objs := (fw_objs w)[j := (f', path)], fw_fibers := (fw_fibers w)[i := Idle]\<rparr>)"
    by (simp add: finish_op_def f sz e)
  have l: "linked (finish_op i j op bytes result late w)" using finish_linked assms(1) j by (simp add: calm_inv_def)
  have idle: "one_reader k content (fst (fw_objs w ! k)) ((fw_fibers w)[i := Idle])"
    by (rule one_reader_less[OF r assms(2)]) simp_all
  show ?thesis
  proof (cases "j = k")
    case False
    then have "read_part k (j, op, v) = []" by (cases op; cases v; simp)
    then show ?thesis using assms(1,5) l idle False by (simp add: calm_inv_def fin content_of_def)
  next
    case True
    have alone: "\<forall>g\<in>set ((fw_fibers w)[i := Idle]). waits_for g \<noteq> Some k"
    proof
      fix g assume "g \<in> set ((fw_fibers w)[i := Idle])"
      then obtain m where m: "m < length (fw_fibers w)" "g = (fw_fibers w)[i := Idle] ! m" by (auto simp: in_set_conv_nth)
      have "waits_for (fw_fibers w ! i) = Some k" using assms(3) True by simp
      then have "waits_for (fw_fibers w ! m) = Some k \<longrightarrow> m = i" using r assms(2) m(1) unfolding one_reader_def by blast
      then show "waits_for g \<noteq> Some k" using m assms(2) by (cases "m = i") simp_all
    qed
    have "f_read_pos f = int (length (text_read k w))" using assms(1) True j f by (auto simp: calm_inv_def tallied_def)
    then have "result < 0 \<or> result = int (length bytes) \<and> bytes = take (length bytes) (drop (length (text_read k w)) content)"
      using assms(4) True f by simp
    then have "prefix (text_read k w @ read_part k (k, op, v)) content"
      using prefix_more[of "text_read k w" content bytes] assms(1) e
      by (auto simp: sz read_end_def calm_inv_def split: if_splits)
    then show ?thesis using assms(1,5) l one_reader_moved[OF idle alone, of f'] True j f
      by (simp add: calm_inv_def fin[unfolded True] content_of_def)
  qed
qed

lemma resume_calm:
  assumes "calm_inv k content w" and "i < length (fw_fibers w)"
  shows "calm_inv k content (resume_op i w)"
proof (cases "fw_fibers w ! i")
  case (Waits j op ufd offset rq late)
  have r: "one_reader k content (fst (fw_objs w ! k)) (fw_fibers w)" using assms(1) by (simp add: calm_inv_def)
  note a = one_reader_at[OF r assms(2) Waits]
  have t: "tallied (resume_op i w)" using resume_tallied assms by (simp add: calm_inv_def)
  show ?thesis
  proof (cases rq)
    case (Over_rq bytes result)
    then have "resume_op i w = finish_op i j op bytes result late w" by (simp add: resume_op_def Waits)
    moreover have "j = k \<longrightarrow> result < 0 \<or> result = int (length bytes) \<and>
        bytes = take (length bytes) (drop (nat (f_read_pos (fst (fw_objs w ! k)))) content)"
      using a Over_rq Waits by auto
    ultimately show ?thesis using finish_calm[OF assms Waits, of result bytes] t by simp
  next
    case Dropped_rq
    then have "resume_op i w = finish_op i j op [] UV_ECANCELED late w" by (simp add: resume_op_def Waits)
    with finish_calm[OF assms Waits, of UV_ECANCELED "[]"] t show ?thesis by simp
  qed (simp_all add: resume_op_def Waits assms(1))
qed (simp add: resume_op_def assms(1))

lemma step_calm:
  assumes "calm_inv k content w" and "calm e"
    and "case e of Begin i j op \<Rightarrow> \<forall>g\<in>set (fw_fibers w). waits_for g \<noteq> Some j | _ \<Rightarrow> True"
  shows "calm_inv k content (file_step_ev e w)"
proof (cases e)
  case (Begin i j op)
  with assms show ?thesis by (cases op) (simp_all add: begin_calm)
qed (use assms in \<open>simp_all add: take_deadline_calm end_calm resume_calm\<close>)

lemma run_calm:
  "calm_inv k content w \<Longrightarrow> \<forall>e\<in>set es. calm e \<Longrightarrow> apart es w \<Longrightarrow> calm_inv k content (file_run es w)"
  by (induction es arbitrary: w) (simp_all add: step_calm)

section \<open>Properties\<close>

text \<open>
  The positions of a file are what its results add up to, whatever the fibers do and in whatever
  order the requests run: the read position is the number of bytes that reads have returned, and the
  write position the number that writes have reported, unless the file is appended to.
\<close>

theorem positions_tally:
  assumes "w = file_run es (start_world fs n)" and "k < length (fw_objs w)"
  shows "f_read_pos (fst (fw_objs w ! k)) = int (length (text_read k w)) \<and>
    (\<not> f_append (fst (fw_objs w ! k)) \<longrightarrow> f_write_pos (fst (fw_objs w ! k)) = bytes_written k w)"
  using run_tallied[OF start_tallied, of es fs n] assms by (simp add: tallied_def)

definition demo_start :: fiber_world where
  "demo_start = start_world [''log'' \<mapsto> ''abcdef''] 2"

definition demo_reading :: "file_event list" where
  "demo_reading = [Begin 0 0 (Op_read 4), Take 0, End 0 3 None, Resume 0, Begin 1 0 (Op_read 9), Deadline 1, Resume 1,
     Begin 0 0 (Op_read 2), Take 0, Deadline 0, End 0 2 None, Resume 0, Begin 1 0 (Op_read 2), Take 1, End 1 2 None, Resume 1]"

lemma demo_open_read: "fw_objs (file_run [Open_obj ''log'' ''r'' 3] demo_start) =
    [(file_new\<lparr>f_readable := True, f_fd := 3\<rparr>, ''log'')]"
  by (simp add: demo_start_def start_world_def open_obj_def open_unix_def file_mode_def sys_open_def configure_def
    file_new_def)

lemma demo_read_all: "text_read 0 (file_run ([Open_obj ''log'' ''r'' 3] @ demo_reading) demo_start) = ''abcde''"
  by code_simp

theorem positions_tally_witness:
  "f_read_pos (fst (fw_objs (file_run ([Open_obj ''log'' ''r'' 3] @ demo_reading) demo_start) ! 0)) = 5"
proof -
  have "length (fw_objs (file_run ([Open_obj ''log'' ''r'' 3] @ demo_reading) demo_start)) = 1" by code_simp
  then show ?thesis
    using positions_tally[of _ "[Open_obj ''log'' ''r'' 3] @ demo_reading" "[''log'' \<mapsto> ''abcdef'']" 2 0] demo_read_all
    by (simp add: demo_start_def)
qed

text \<open>
  C29. Fibers that take turns read a file as one would: if none of them begins a read of the file
  while another one still waits for its own, and nobody writes, the texts of all reads, in the order in
  which they return, are consecutive from the beginning of the file, whatever is short, late or fails.
\<close>

theorem fibers_read_in_turns:
  assumes "orderly es0 (start_world fs n)" and "w0 = file_run es0 (start_world fs n)"
    and "\<forall>g\<in>set (fw_fibers w0). g = Idle" and "k < length (fw_objs w0)"
    and "content = content_of w0 (snd (fw_objs w0 ! k))" and "prefix (text_read k w0) content"
    and "\<forall>e\<in>set es. calm e" and "apart es w0"
  shows "prefix (text_read k (file_run es w0)) content \<and>
    f_read_pos (fst (fw_objs (file_run es w0) ! k)) = int (length (text_read k (file_run es w0)))"
proof -
  have "tallied w0" "linked w0" using run_tallied[OF start_tallied] run_linked[OF assms(1) start_linked start_tallied] assms(2) by simp_all
  moreover have "waits_for g = None \<and> only_reads g" if "g \<in> set (fw_fibers w0)" for g using assms(3) that by auto
  then have "one_reader k content (fst (fw_objs w0 ! k)) (fw_fibers w0)" by (simp add: one_reader_def)
  ultimately have "calm_inv k content w0" using assms(4-6) by (simp add: calm_inv_def)
  from run_calm[OF this assms(7,8)] show ?thesis by (simp add: calm_inv_def tallied_def)
qed

lemma demo_turns:
  "orderly [Open_obj ''log'' ''r'' 3] demo_start" "apart demo_reading (file_run [Open_obj ''log'' ''r'' 3] demo_start)"
  "list_all calm demo_reading" "fw_fibers (file_run [Open_obj ''log'' ''r'' 3] demo_start) = [Idle, Idle]"
  "text_read 0 (file_run [Open_obj ''log'' ''r'' 3] demo_start) = []"
  "content_of (file_run [Open_obj ''log'' ''r'' 3] demo_start) ''log'' = ''abcdef''"
  by code_simp+

theorem fibers_read_in_turns_witness:
  "prefix (text_read 0 (file_run demo_reading (file_run [Open_obj ''log'' ''r'' 3] demo_start))) ''abcdef''"
proof -
  let ?w = "file_run [Open_obj ''log'' ''r'' 3] demo_start"
  have "orderly [Open_obj ''log'' ''r'' 3] (start_world [''log'' \<mapsto> ''abcdef''] 2)" using demo_turns(1) by (simp only: demo_start_def)
  moreover have "?w = file_run [Open_obj ''log'' ''r'' 3] (start_world [''log'' \<mapsto> ''abcdef''] 2)" by (simp only: demo_start_def)
  moreover have "\<forall>g\<in>set (fw_fibers ?w). g = Idle" using demo_turns(4) by (simp del: file_run_simps)
  moreover have "0 < length (fw_objs ?w)" "''abcdef'' = content_of ?w (snd (fw_objs ?w ! 0))"
    using demo_open_read demo_turns(6) by (simp_all del: file_run_simps)
  moreover have "prefix (text_read 0 ?w) ''abcdef''" using demo_turns(5) by (simp del: file_run_simps)
  moreover have "\<forall>e\<in>set demo_reading. calm e" using demo_turns(3) by (simp add: list_all_iff)
  ultimately show ?thesis using fibers_read_in_turns[OF _ _ _ _ _ _ _ demo_turns(2)] by blast
qed

text \<open>
  C33. A write lands in the file that its object was opened for: whatever other fibers read, write,
  open and close in the meantime, when the request is done the bytes are in that file, at the offset that
  was asked for or at the end, and no other file has changed.  This is for histories in which no file
  is closed while a fiber waits for a request on it.
\<close>

theorem write_lands_in_its_file:
  assumes "orderly es (start_world fs n)" and "w = file_run es (start_world fs n)" and "i < length (fw_fibers w)"
    and "fw_fibers w ! i = Waits k (Op_write data) ufd offset Running_rq late"
    and "fw_objs w ! k = (f, path)" and "c = content_of w path"
  shows "fw_files (file_step_ev (End i m None) w) =
    (fw_files w)(path \<mapsto> overwrite (if f_append f then length c else nat offset) (take (max 1 m) data) c)"
proof -
  have l: "linked w" using run_linked[OF assms(1) start_linked start_tallied] assms(2) by simp
  from linked_at[OF l assms(3)] assms(4,5) have f: "k < length (fw_objs w)" "\<not> f_closed f" "ufd = f_fd f" "f_writable f"
    "offset = -1 \<longrightarrow> f_append f" by (simp_all add: fiber_linked_def may_do_def)
  then obtain d where d: "fw_fds w ufd = Some d" "serves (f, path) d"
    using l assms(5) unfolding linked_def objs_linked_def by (metis fst_conv)
  then have "write_offset d offset c = (if f_append f then length c else nat offset)"
    using f(5) by (simp add: write_offset_def serves_def)
  moreover have "of_access (d_flags d) \<noteq> Rdonly" "d_path d = path" using d(2) f(4) by (simp_all add: serves_def)
  ultimately show ?thesis
    using assms(3,4,6) d(1) by (simp add: end_op_def perform_def errno_ok_def Let_def)
qed

definition demo_writing :: "file_event list" where
  "demo_writing = [Open_obj ''log'' ''a'' 3, Open_obj ''new'' ''w'' 4, Begin 0 0 (Op_write ''XYZ''), Begin 1 1 (Op_write ''two''),
     Take 1, Take 0, End 1 1 None]"

lemma demo_writes_ok:
  "orderly demo_writing demo_start" "i < 2 \<Longrightarrow> i < length (fw_fibers (file_run demo_writing demo_start))"
  "fw_fibers (file_run demo_writing demo_start) ! 0 = Waits 0 (Op_write ''XYZ'') 3 (-1) Running_rq False"
  "fw_objs (file_run demo_writing demo_start) ! 0 = (file_new\<lparr>f_writable := True, f_append := True, f_fd := 3\<rparr>, ''log'')"
  "content_of (file_run demo_writing demo_start) ''log'' = ''abcdef''"
  by (code_simp | simp, code_simp)+

theorem write_lands_in_its_file_witness:
  "fw_files (file_step_ev (End 0 2 None) (file_run demo_writing demo_start)) ''log'' = Some ''abcdefXY'' \<and>
   fw_files (file_step_ev (End 0 2 None) (file_run demo_writing demo_start)) ''new'' = fw_files (file_run demo_writing demo_start) ''new''"
  using write_lands_in_its_file[OF demo_writes_ok(1)[unfolded demo_start_def] refl
      demo_writes_ok(2)[of 0, unfolded demo_start_def] demo_writes_ok(3)[unfolded demo_start_def]
      demo_writes_ok(4)[unfolded demo_start_def] demo_writes_ok(5)[unfolded demo_start_def, symmetric], of 2]
  by (simp add: overwrite_def demo_start_def del: file_run_simps file_step_ev.simps)

text \<open>Single steps of a read, as equations.\<close>

lemma content_of_update [simp]: "content_of (fw_fibers_update g w) p = content_of w p"
  "content_of (fw_objs_update h w) p = content_of w p"
  by (simp_all add: content_of_def)

lemma ev_begin_read:
  assumes "i < length (fw_fibers w)" and "fw_fibers w ! i = Idle" and "k < length (fw_objs w)"
    and "read_start Unix 0 (fst (fw_objs w ! k)) sz = Inr (ufd, pos)"
  shows "file_step_ev (Begin i k (Op_read sz)) w =
    w\<lparr>fw_fibers := (fw_fibers w)[i := Waits k (Op_read sz) ufd pos Queued_rq False]\<rparr>"
  using assms by (simp add: begin_op_def wait_for_request_def)

lemma ev_serve_read:
  assumes "i < length (fw_fibers w)" and "fw_fibers w ! i = Waits k (Op_read sz) ufd (int p) Queued_rq late"
    and "fw_fds w ufd = Some d" and "of_access (d_flags d) \<noteq> Wronly"
    and "bytes = take (min (nat sz) (max 1 n)) (drop p (content_of w (d_path d)))"
  shows "file_run [Take i, End i n None] w =
    w\<lparr>fw_fibers := (fw_fibers w)[i := Waits k (Op_read sz) ufd (int p) (Over_rq bytes (int (length bytes))) late]\<rparr>"
  using assms by (simp add: take_rq_def end_op_def perform_def errno_ok_def content_of_def Let_def)

lemma ev_resume_read:
  assumes "i < length (fw_fibers w)" and "k < length (fw_objs w)"
    and "fw_fibers w ! i = Waits k (Op_read sz) ufd pos (Over_rq bytes (int (length bytes))) False"
  shows "file_step_ev (Resume i) w = returns k (Op_read sz) (Cs_string bytes)
    (w\<lparr>fw_objs := (fw_objs w)[k := (advance_read (int (length bytes)) (fst (fw_objs w ! k)), snd (fw_objs w ! k))],
       fw_fibers := (fw_fibers w)[i := Idle]\<rparr>)"
  using assms by (simp add: resume_op_def finish_op_def read_end_def advance_read_def split: prod.split)

text \<open>
  C38. Two reads of a file that overlap both take the offset from the position before either has
  moved it, so both return the bytes at that offset, and the position then moves by the sum of their
  lengths: the bytes in between are skipped by every later read.
\<close>

theorem overlapping_reads_skip:
  assumes "i \<noteq> j" and "i < length (fw_fibers w)" and "j < length (fw_fibers w)" and "fw_fibers w ! i = Idle" and "fw_fibers w ! j = Idle"
    and "k < length (fw_objs w)" and "fw_objs w ! k = (f, path)" and "is_readable f" and "0 \<le> f_fd f"
    and "f_read_pos f = int p" and "fw_fds w (f_fd f) = Some d" and "serves (f, path) d"
    and "0 < a" and "0 < b"
    and "r1 = take (min (nat a) (max 1 m)) (drop p (content_of w path))"
    and "r2 = take (min (nat b) (max 1 n)) (drop p (content_of w path))"
    and "w' = file_run ([Begin i k (Op_read a), Begin j k (Op_read b)] @ [Take i, End i m None] @ [Take j, End j n None] @
      [Resume i, Resume j]) w"
  shows "text_read k w' = text_read k w @ r1 @ r2 \<and> f_read_pos (fst (fw_objs w' ! k)) = int (p + length r1 + length r2)"
proof -
  let ?fd = "f_fd f" and ?g = "fw_fibers w"
  have d: "d_path d = path" "of_access (d_flags d) \<noteq> Wronly" using assms(8,12) by (simp_all add: serves_def is_readable_def)
  have st: "read_start Unix 0 f x = Inr (?fd, int p)" if "0 < x" for x
    using that assms(8-10) by (simp add: read_start_def to_uv_file_def native_fd_def)
  have sw: "xs[i := x, j := y, i := z] = xs[i := z, j := y]" for xs :: "file_fiber list" and x y z
    using assms(1) by (metis list_update_overwrite list_update_swap)
  let ?q = "\<lambda>x rq. Waits k (Op_read x) ?fd (int p) rq False"
  let ?over = "\<lambda>x r. ?q x (Over_rq r (int (length r)))"
  let ?w2 = "w\<lparr>fw_fibers := ?g[i := ?q a Queued_rq, j := ?q b Queued_rq]\<rparr>"
  let ?w3 = "w\<lparr>fw_fibers := ?g[i := ?over a r1, j := ?q b Queued_rq]\<rparr>"
  let ?w4 = "w\<lparr>fw_fibers := ?g[i := ?over a r1, j := ?over b r2]\<rparr>"
  have "file_run [Begin i k (Op_read a), Begin j k (Op_read b)] w = ?w2"
    using assms(1-7,13,14) st by (simp add: ev_begin_read del: file_step_ev.simps)
  moreover have "file_run [Take i, End i m None] ?w2 = ?w3"
    by (subst ev_serve_read[of i ?w2 k a ?fd p False d r1 m]) (use assms(1-3,11,15) d in \<open>simp_all add: sw\<close>)
  moreover have "file_run [Take j, End j n None] ?w3 = ?w4"
    by (subst ev_serve_read[of j ?w3 k b ?fd p False d r2 n]) (use assms(1-3,11,16) d in simp_all)
  ultimately have w': "w' = file_step_ev (Resume j) (file_step_ev (Resume i) ?w4)" using assms(17) by simp
  let ?f1 = "advance_read (int (length r1)) f"
  let ?w5 = "returns k (Op_read a) (Cs_string r1) (?w4\<lparr>fw_objs := (fw_objs w)[k := (?f1, path)],
      fw_fibers := ?g[i := Idle, j := ?over b r2]\<rparr>)"
  have "file_step_ev (Resume i) ?w4 = ?w5"
    by (subst ev_resume_read[of i ?w4 k a ?fd "int p" r1]) (use assms(1-3,6,7) in \<open>simp_all add: sw\<close>)
  moreover have "file_step_ev (Resume j) ?w5 = returns k (Op_read b) (Cs_string r2)
      (?w5\<lparr>fw_objs := (fw_objs w)[k := (advance_read (int (length r2)) ?f1, path)], fw_fibers := ?g[i := Idle, j := Idle]\<rparr>)"
    by (subst ev_resume_read[of j ?w5 k b ?fd "int p" r2]) (use assms(1-3,6) in simp_all)
  ultimately show ?thesis using assms(6,10) by (simp add: w' advance_read_def del: file_step_ev.simps)
qed

theorem overlapping_reads_skip_witness:
  "text_read 0 (file_run ([Begin 0 0 (Op_read 3), Begin 1 0 (Op_read 2)] @ [Take 0, End 0 3 None] @ [Take 1, End 1 2 None] @
     [Resume 0, Resume 1]) (file_run [Open_obj ''log'' ''r'' 3] demo_start)) = ''abcab''"
proof -
  let ?w = "file_run [Open_obj ''log'' ''r'' 3] demo_start"
  let ?f = "file_new\<lparr>f_readable := True, f_fd := 3\<rparr>"
  obtain d where d: "fw_fds ?w 3 = Some d" "serves (?f, ''log'') d"
    by (simp add: demo_start_def start_world_def open_obj_def open_unix_file open_unix_def file_mode_def sys_open_def
      configure_def file_new_def serves_def Let_def)
  have o: "fw_objs ?w ! 0 = (?f, ''log'')" "0 < length (fw_objs ?w)" using demo_open_read by (simp_all del: file_run_simps)
  have c: "content_of ?w ''log'' = ''abcdef''" "text_read 0 ?w = []" "fw_fibers ?w = [Idle, Idle]" by (rule demo_turns)+
  have f: "is_readable ?f" "f_fd ?f = 3" "f_read_pos ?f = int 0" by (simp_all add: is_readable_def file_new_def)
  from overlapping_reads_skip[of 0 1 ?w 0 ?f "''log''" 0 d 3 2 _ 3 _ 2, OF _ _ _ _ _ o(2,1) f(1) _ f(3) _ d(2) _ _ refl refl refl] d(1) c f(2)
  show ?thesis by (simp del: file_run_simps)
qed

text \<open>
  C37. \<open>close\<close> does not wait for the requests of other fibers.  When a file is closed while a
  write to it is in the queue, and the next file that is opened gets the same descriptor, the bytes go
  into that other file, and the write reports success.
\<close>

theorem write_after_close_hits_other_file:
  assumes "i < length (fw_fibers w)" and "fw_fibers w ! i = Idle" and "k < length (fw_objs w)" and "fw_objs w ! k = (f, path)"
    and "is_writable f" and "\<not> f_append f" and "0 \<le> f_fd f" and "f_write_pos f = int p"
    and "data \<noteq> []" and "int (length data) \<le> UINT_MAX"
    and "w' = file_run [Begin i k (Op_write data), Close_obj k, Open_obj other ''w'' (f_fd f), Take i, End i n None, Resume i] w"
  shows "fw_files w' = (fw_files w)(other \<mapsto> overwrite p (take (max 1 n) data) []) \<and>
    fw_log w' = fw_log w @ [(k, Op_write data, Cs_number (int (length (take (max 1 n) data))))]"
proof -
  let ?fd = "f_fd f" and ?g = "fw_fibers w" and ?b = "take (max 1 n) data"
  let ?q = "\<lambda>rq. ?g[i := Waits k (Op_write data) ?fd (int p) rq False]"
  have f: "f_writable f" "\<not> f_closed f" using assms(5) by (simp_all add: is_writable_def)
  let ?c = "f\<lparr>f_closed := True, f_istream := None, f_ostream := None, f_fd := -1\<rparr>"
  let ?fl = "\<lparr>of_access = Wronly, of_creat = True, of_trunc = True, of_append = False, of_cloexec = True\<rparr>"
  let ?n = "(configure False True False file_new)\<lparr>f_fd := ?fd\<rparr>"
  let ?w2 = "w\<lparr>fw_fibers := ?q Queued_rq, fw_objs := (fw_objs w)[k := (?c, path)], fw_fds := (fw_fds w)(?fd := None)\<rparr>"
  let ?w3 = "?w2\<lparr>fw_fds := (fw_fds w)(?fd \<mapsto> \<lparr>d_path = other, d_flags = ?fl, d_pos = 0\<rparr>),
    fw_files := (fw_files w)(other \<mapsto> []), fw_objs := (fw_objs w)[k := (?c, path)] @ [(?n, other)]\<rparr>"
  let ?w5 = "?w3\<lparr>fw_files := (fw_files w)(other \<mapsto> overwrite p ?b []),
    fw_fibers := ?q (Over_rq [] (int (length ?b)))\<rparr>"
  have "file_run [Begin i k (Op_write data), Close_obj k] w = ?w2"
    using assms(1-8,10) f by (simp add: begin_op_def write_start_def to_uv_file_def native_fd_def wait_for_request_def
      close_obj_def close_file_def Let_def)
  moreover have "open_unix (\<lambda>_. False) ?fd other ''w'' (fw_files w) =
      \<lparr>o_file = Inr (Some ?n), o_files = (fw_files w)(other \<mapsto> []), o_closes = [], o_flags = Some ?fl, o_pos = 0\<rparr>"
    using assms(7) by (simp add: open_unix_def file_mode_def sys_open_def configure_def)
  then have "file_step_ev (Open_obj other ''w'' ?fd) ?w2 = ?w3" using assms(7) by (simp add: open_obj_def)
  moreover have "file_run [Take i, End i n None] ?w3 = ?w5"
    using assms(1) by (simp add: take_rq_def end_op_def perform_def errno_ok_def content_of_def write_offset_def Let_def)
  ultimately have w': "w' = file_step_ev (Resume i) ?w5" using assms(11) by simp
  have "0 < length ?b" using assms(9) by simp
  then have "write_end True (int (length ?b)) ?c = (int (length ?b), advance_write (int (length ?b)) ?c)"
    using assms(6) by (simp add: write_end_def)
  then show ?thesis using assms(1,3) by (simp add: w' resume_op_def finish_op_def nth_append returns_def Let_def split: prod.split)
qed

lemma demo_other:
  "fw_objs (file_run [Open_obj ''log'' ''r+'' 3] demo_start) =
     [(file_new\<lparr>f_readable := True, f_writable := True, f_fd := 3\<rparr>, ''log'')]"
  "fw_fibers (file_run [Open_obj ''log'' ''r+'' 3] demo_start) = [Idle, Idle]"
  "fw_files (file_run [Open_obj ''log'' ''r+'' 3] demo_start) = [''log'' \<mapsto> ''abcdef'']"
  by (simp_all add: demo_start_def start_world_def open_obj_def open_unix_def file_mode_def sys_open_def configure_def
    file_new_def numeral_2_eq_2)

theorem write_after_close_hits_other_file_witness:
  "fw_files (file_run [Begin 0 0 (Op_write ''XYZ''), Close_obj 0, Open_obj ''new'' ''w'' 3, Take 0, End 0 3 None, Resume 0]
     (file_run [Open_obj ''log'' ''r+'' 3] demo_start)) = [''log'' \<mapsto> ''abcdef'', ''new'' \<mapsto> ''XYZ'']"
proof -
  let ?w = "file_run [Open_obj ''log'' ''r+'' 3] demo_start" and ?f = "file_new\<lparr>f_readable := True, f_writable := True, f_fd := 3\<rparr>"
  have "is_writable ?f" "\<not> f_append ?f" "f_fd ?f = 3" "f_write_pos ?f = int 0" by (simp_all add: is_writable_def file_new_def)
  with write_after_close_hits_other_file[of 0 ?w 0 ?f "''log''" 0 "''XYZ''" _ "''new''" 3, OF _ _ _ _ _ _ _ _ _ _ refl] demo_other
  show ?thesis by (simp add: overwrite_def del: file_run_simps)
qed

end
