(* ===== verification/Spec2Isabelle.thy ===== *)
theory Spec2Isabelle
  imports Win_Spawn Win_Wait Win_Io Emitter Proc_Group Process_Life Async_Loop Script_Run Script_Streams Fiber_Live Fiber_Files
begin

text \<open>
  A model of the process extension of CovScript (\<open>covscript-process\<close>), with the theorems that
  make it correct.

  \<^bold>\<open>The program.\<close>  A script builds a \<open>process_builder\<close>, starts it and gets a handle of class
  \<open>process\<close>.  \<open>start\<close> hands the collected \<open>process_startup\<close> to \<open>create_process\<close>
  (\<open>src/process.cpp\<close>), which makes a pipe for every standard stream without a redirect and calls
  \<open>create_process_impl\<close>, one per platform.  On Unix (\<open>src/process_unix.cpp\<close>) that is
  \<open>fork\<close>, with a close-on-exec pipe on which the child reports an \<open>errno\<close> when it fails
  before or at \<open>execve\<close>; on Windows (\<open>src/process_win32.cpp\<close>) it is a command line, an
  environment block and \<open>CreateProcess\<close> with inheritable handles.  Waiting and termination are in
  \<open>src/process_unix_wait.cpp\<close> and \<open>src/process_win32_wait.cpp\<close>.  The handle
  (\<open>include/mozart++/mpp_system/process.hpp\<close>) caches the exit code, runs a blocking wait and the
  readers of \<open>communicate\<close> on libuv's thread pool, and owns the stream buffers of
  \<open>fdstream.hpp\<close>.  The bindings (\<open>src/process.cpp\<close> of the repository's root) add files with
  asynchronous reads and writes and the loops by which a fiber polls a handle.  Every exception goes
  through \<open>throw_ex\<close>, which emits an event first (\<open>event_emitter.hpp\<close>).

  \<^bold>\<open>Theories, in the order of their imports.\<close>
  \<^item> \<open>Prelude\<close>: exceptions and results, ranges of C integers, \<open>strtol\<close>, lists.
  \<^item> \<open>Io_Fd\<close>: descriptor tables and \<open>io.hpp\<close>.  A table maps a number to an open file and its
    close-on-exec flag.  The locale \<open>pipe_alloc\<close> states what \<open>pipe\<close> promises; \<open>posix\<close>
    interprets it on the rule of the lowest free descriptor.
  \<^item> \<open>Byte_Io\<close>: the locales \<open>byte_source\<close> and \<open>byte_sink\<close> of \<open>read\<close> and
    \<open>write\<close>, interpreted on pipes with arbitrary short transfers and signals.
  \<^item> \<open>Fail_Pipe\<close>: \<open>read_fully\<close>, \<open>restartable_write_error\<close> and the bytes of the
    \<open>errno\<close>, in a locale that extends \<open>byte_sink\<close>.
  \<^item> \<open>Fd_Stream\<close>: \<open>fdoutbuf\<close> and \<open>fdinbuf\<close>, over the same interfaces.
  \<^item> \<open>Builder\<close>: \<open>process_startup\<close>, \<open>process_info\<close>, the setters and what
    \<open>start\<close> makes of them.
  \<^item> \<open>Env_Unix\<close>, \<open>Exec_Path\<close>, \<open>Child_Proc\<close>, \<open>Spawn\<close>: the environment, the
    search on \<open>PATH\<close>, the child between \<open>fork\<close> and \<open>execve\<close>, and process creation
    on Unix with its rollback and \<open>close_process\<close>.
  \<^item> \<open>Proc_Stat\<close>, \<open>Wait_Unix\<close>: the start time in \<open>/proc/<pid>/stat\<close>, and the
    waits and terminations over \<open>waitid\<close>; the locale \<open>child_waits\<close> states what they
    rely on and \<open>pw\<close> interprets it on a machine with a clock.  \<open>Proc_Group\<close>: the processes,
    groups and sessions of the system as a step relation, in which the calls of \<open>setpgid\<close> by the child
    and by the parent race, and whom \<open>terminate_process_tree\<close> then reaches.
  \<^item> \<open>Proc_Handle\<close>: the class \<open>process\<close>, its jobs on the pool, \<open>communicate\<close>, the reads
    through its streams and the histories of all of them; \<open>Handle_Live\<close>: when \<open>communicate\<close>
    returns; \<open>Handle_Stdin\<close>: the stream of \<open>in\<close> over a descriptor table that the rest of the
    program uses too, an interpretation of the locale of \<open>Fd_Stream\<close>; \<open>Handle_Close\<close>: which
    descriptors the handle closes in such a program; \<open>Handle_Destroy\<close>: when the destructor returns;
    \<open>Async_Loop\<close>: a script that drives the event
    loop itself; \<open>Run_Process\<close>: a process from \<open>start\<close> over \<open>communicate\<close> to the destructor,
    \<open>Spawn\<close> and \<open>Proc_Handle\<close> together; \<open>Process_Life\<close>: the same for anything the
    handle does in a program with other files, and the move assignment.
  \<^item> \<open>Win_Cmdline\<close>, \<open>Win_Env\<close>, \<open>Win_Spawn\<close>, \<open>Win_Wait\<close>: the same on
    Windows; the locale \<open>win_host\<close> holds the calls of the system that process creation uses,
    and \<open>dw\<close> interprets it on a small machine.  \<open>Win_Io\<close>: \<open>read\<close> and \<open>write\<close> over
    \<open>ReadFile\<close> and \<open>WriteFile\<close>, and the stream buffers on them.
  \<^item> \<open>Type_Lists\<close>: the type lists and the callable types of \<open>type_traits.hpp\<close> and
    \<open>function.hpp\<close>, as functions on a data type of types.
  \<^item> \<open>Emitter\<close>: both event emitters and \<open>throw_ex\<close>.
  \<^item> \<open>Mpp_File\<close>, \<open>Uv_Fs\<close>, \<open>Cni_Process\<close>: the class \<open>file\<close>, its asynchronous
    operations, and the builder and handle operations of the bindings, as one fiber sees them.
    \<open>Script_Run\<close>: a program started with its output redirected to a file that the script opened;
    \<open>Script_Streams\<close>: the stream objects that a script holds, and the owners of their buffers.
  \<^item> \<open>Fiber_Handle\<close>, \<open>Fiber_Live\<close>, \<open>Fiber_Files\<close>: any number of fibers on one handle, and on the same
    files; \<open>Fiber_Live\<close> shows when they return.  An operation is cut where the code yields; a history
    is a list of turns of fibers and of steps of the pool and the environment.

  \<^bold>\<open>What is shown.\<close>  For process creation: which descriptor or handle each stream of the new
  program has and what the parent keeps (\<open>Spawn\<close>, \<open>Win_Spawn\<close>), that nothing leaks on success
  or failure, when the call reports success, that the \<open>errno\<close> of the child arrives, what is
  executed (a refinement of the search on \<open>PATH\<close> to a specification that decides first), which
  environment and which arguments the program sees (a round trip through the rules of the C runtime on
  Windows).  For the handle: that the cached code is the child's after any history of operations and of
  the environment, what \<open>communicate\<close> returns, that no text of a stream is lost or returned twice,
  that what is written to standard input goes to the child and nowhere else, that the handle closes its
  own descriptors and no others, when the destructor returns, whom \<open>kill_tree\<close> reaches, and what happens
  when several fibers use it at the same time and when they all return.  For the waits: their results and
  the absence of overflow.  For streams and files: that the bytes that arrive are the bytes that were sent,
  consecutively, whatever is short, late or repeated, and under which discipline of the fibers this
  stays so.  For a script: that the output of a program goes to the file it opened, and how
  long the streams it holds may be used.  Where the code does
  not do what it says, the theorem states what it does.

  \<^bold>\<open>Partiality.\<close>  A loop that may run for ever is a \<open>partial_function\<close> into \<open>option\<close>,
  \<open>None\<close> meaning that it does not return, and that it returns is stated as such.  Loops that
  end for every input are total functions.  Nothing has a fuel parameter.  Times are
  signed 64-bit values with overflow as no result (\<open>chk64\<close>, \<open>deadline_after\<close>).  Concurrency (the pool, the
  child, the passing of time) is a list of steps that the environment takes while the modelled thread
  sleeps or blocks; theorems hold for every such list.  Errors are the left part of a sum.

  \<^bold>\<open>Parameters.\<close>  The system calls and library functions that have no source here are
  parameters: how \<open>pipe\<close> allocates, what \<open>execve\<close>, \<open>fork\<close>, \<open>waitid\<close>, a read
  or a write answers, the iteration order of a hash map, \<open>std::sort\<close>, the Win32 calls.  What a
  theorem needs of them is a locale or a named hypothesis, and a witness shows it to hold on a concrete
  machine.

  \<^bold>\<open>Not modelled.\<close>  The formatting of stream objects above their buffers, which belongs to the
  standard library; processes of a tree that leave its group by a \<open>setpgid\<close> or \<open>setsid\<close> of their
  own; the casts by which the emitters store a function of any type, and handlers that change an emitter
  while it runs; the macros, the copy policies and the memory utilities of \<open>base.hpp\<close> and the tags of
  \<open>type_traits.hpp\<close>, which have no state or no user; fibers on Windows files, whose descriptors share
  one position.
\<close>

end
